(* ===== verification/Prelude.thy ===== *)
theory Prelude
  imports Main "HOL-Library.Word" "HOL-Library.AList" "HOL-Library.Char_ord" "HOL-Library.List_Lexorder"
begin

section \<open>Shared types and generic lemmas\<close>

text \<open>
  What every component of the MonoFS development uses: the names of Go's integer types,
  the conventions for errors and for Go maps, the sorting routine behind
  \<^verbatim>\<open>sort.Slice\<close>, and the generic lemmas about lists and maps.

  Conventions.
  \<^item> An error return is \<open>Inl e\<close> of a sum type, a successful one \<open>Inr x\<close>; a Go
    panic is \<open>None\<close> of an option type.
  \<^item> A Go map that the code only reads and writes by key is a HOL map. A Go map that the
    code ranges over is an association list with distinct keys: the order of the list is
    the order in which the range visits the keys. Go leaves that order open, and the
    theorems hold for every list, so for every order.
  \<^item> A method that holds its mutex from start to end is one atomic function on the state.
    Logging and metrics are not modelled.
\<close>

type_synonym u8 = "8 word"
type_synonym u16 = "16 word"
type_synonym u32 = "32 word"
type_synonym u64 = "64 word"
type_synonym bytes = "u8 list"
type_synonym ('e, 'a) result = "'e + 'a"
type_synonym ('k, 'v) gomap = "('k \<times> 'v) list"

named_theorems go_str \<open>facts about the Go string library\<close>
named_theorems codec_rt \<open>round trips of the wire format\<close>
named_theorems inv_intro \<open>operations that keep a component's invariant\<close>

subsection \<open>Go maps as association lists\<close>

abbreviation gm_wf :: "('k, 'v) gomap \<Rightarrow> bool" where
  "gm_wf m \<equiv> distinct (map fst m)"

abbreviation gm_get :: "('k, 'v) gomap \<Rightarrow> 'k \<Rightarrow> 'v option" where
  "gm_get m k \<equiv> map_of m k"

abbreviation gm_set :: "'k \<Rightarrow> 'v \<Rightarrow> ('k, 'v) gomap \<Rightarrow> ('k, 'v) gomap" where
  "gm_set k v m \<equiv> AList.update k v m"

abbreviation gm_del :: "'k \<Rightarrow> ('k, 'v) gomap \<Rightarrow> ('k, 'v) gomap" where
  "gm_del k m \<equiv> AList.delete k m"

text \<open>Lookups stay lookups: the library would turn them into membership in the list.\<close>

declare map_of_eq_Some_iff [simp del] Some_eq_map_of_iff [simp del]

lemma gm_get_set [simp]: "gm_get (gm_set k v m) k' = (if k' = k then Some v else gm_get m k')"
  by (simp add: update_conv')

lemma gm_get_del [simp]: "gm_get (gm_del k m) k' = (if k' = k then None else gm_get m k')"
  by (simp add: delete_conv' map_of_delete)

lemma gm_wf_set [simp, intro]: "gm_wf m \<Longrightarrow> gm_wf (gm_set k v m)"
  by (rule distinct_update)

lemma gm_wf_del [simp, intro]: "gm_wf m \<Longrightarrow> gm_wf (gm_del k m)"
  by (rule distinct_delete)

lemma gm_keys_set: "fst ` set (gm_set k v m) = insert k (fst ` set m)"
  by (simp add: dom_update)

lemma gm_map_fst_set_mem:
  "k \<in> fst ` set m \<Longrightarrow> map fst (gm_set k v m) = map fst m"
  by (induction m) auto

subsection \<open>sort.Slice\<close>

text \<open>
  Go's \<^verbatim>\<open>sort.Slice\<close> with a \<open>less\<close> function. The model is the insertion sort the
  library runs on short slices: each element moves left past the elements it is less than.
  Go does not promise an order for elements that compare equal, so no property of a
  component depends on it.
\<close>

fun insert_less :: "('a \<Rightarrow> 'a \<Rightarrow> bool) \<Rightarrow> 'a \<Rightarrow> 'a list \<Rightarrow> 'a list" where
  "insert_less lt x [] = [x]"
| "insert_less lt x (y # ys) = (if lt x y then x # y # ys else y # insert_less lt x ys)"

fun sort_slice_acc :: "('a \<Rightarrow> 'a \<Rightarrow> bool) \<Rightarrow> 'a list \<Rightarrow> 'a list \<Rightarrow> 'a list" where
  "sort_slice_acc lt acc [] = acc"
| "sort_slice_acc lt acc (x # xs) = sort_slice_acc lt (insert_less lt x acc) xs"

definition sort_slice :: "('a \<Rightarrow> 'a \<Rightarrow> bool) \<Rightarrow> 'a list \<Rightarrow> 'a list" where
  "sort_slice lt xs = sort_slice_acc lt [] xs"

lemma set_insert_less [simp]: "set (insert_less lt x ys) = insert x (set ys)"
  by (induction ys) auto

lemma length_insert_less [simp]: "length (insert_less lt x ys) = Suc (length ys)"
  by (induction ys) auto

lemma distinct_insert_less [simp]:
  "distinct (insert_less lt x ys) \<longleftrightarrow> x \<notin> set ys \<and> distinct ys"
  by (induction ys) auto

lemma set_sort_slice_acc: "set (sort_slice_acc lt acc xs) = set acc \<union> set xs"
  by (induction xs arbitrary: acc) auto

lemma set_sort_slice [simp]: "set (sort_slice lt xs) = set xs"
  by (simp add: sort_slice_def set_sort_slice_acc)

lemma length_sort_slice_acc: "length (sort_slice_acc lt acc xs) = length acc + length xs"
  by (induction xs arbitrary: acc) auto

lemma length_sort_slice [simp]: "length (sort_slice lt xs) = length xs"
  by (simp add: sort_slice_def length_sort_slice_acc)

lemma distinct_sort_slice_acc:
  "distinct (sort_slice_acc lt acc xs) \<longleftrightarrow> distinct acc \<and> distinct xs \<and> set acc \<inter> set xs = {}"
  by (induction xs arbitrary: acc) auto

lemma distinct_sort_slice [simp]: "distinct (sort_slice lt xs) \<longleftrightarrow> distinct xs"
  by (simp add: sort_slice_def distinct_sort_slice_acc)

text \<open>Sorting by a key: the result is ordered by the key.\<close>

lemma sorted_insert_less_key:
  fixes f :: "'a \<Rightarrow> 'b::linorder"
  assumes "sorted (map f ys)"
  shows "sorted (map f (insert_less (\<lambda>a b. f a < f b) x ys))"
  using assms by (induction ys) auto

lemma sorted_sort_slice_key:
  fixes f :: "'a \<Rightarrow> 'b::linorder"
  shows "sorted (map f (sort_slice (\<lambda>a b. f a < f b) xs))"
proof -
  have "sorted (map f (sort_slice_acc (\<lambda>a b. f a < f b) acc xs))" if "sorted (map f acc)" for acc
    using that by (induction xs arbitrary: acc) (auto simp: sorted_insert_less_key)
  then show ?thesis by (simp add: sort_slice_def)
qed

lemma sorted_insert_greater_key:
  fixes f :: "'a \<Rightarrow> 'b::linorder"
  assumes "sorted_wrt (\<lambda>a b. f a \<ge> f b) ys"
  shows "sorted_wrt (\<lambda>a b. f a \<ge> f b) (insert_less (\<lambda>a b. f a > f b) x ys)"
  using assms by (induction ys) auto

lemma sorted_sort_slice_desc:
  fixes f :: "'a \<Rightarrow> 'b::linorder"
  shows "sorted_wrt (\<lambda>a b. f a \<ge> f b) (sort_slice (\<lambda>a b. f a > f b) xs)"
proof -
  have "sorted_wrt (\<lambda>a b. f a \<ge> f b) (sort_slice_acc (\<lambda>a b. f a > f b) acc xs)"
    if "sorted_wrt (\<lambda>a b. f a \<ge> f b) acc" for acc
    using that by (induction xs arbitrary: acc) (auto simp: sorted_insert_greater_key)
  then show ?thesis by (simp add: sort_slice_def)
qed

lemma set_map_filter [simp]: "set (List.map_filter f xs) = {y. \<exists>x \<in> set xs. f x = Some y}"
  by (induction xs) (auto simp: List.map_filter_simps split: option.splits)

end
