(* ===== verification/GoStrings.thy ===== *)
theory GoStrings
  imports Prelude
begin

section \<open>The part of Go's string library the code uses\<close>

text \<open>
  A Go string is a sequence of bytes, here \<open>string\<close> (a \<open>char\<close> is a byte).
  \<open>TrimSpace\<close>, \<open>EqualFold\<close> and \<open>ToUpper\<close> act on ASCII: the Unicode space and case
  tables are not modelled.
\<close>

subsection \<open>Prefixes, suffixes, substrings\<close>

definition HasPrefix :: "'a list \<Rightarrow> 'a list \<Rightarrow> bool" where
  "HasPrefix s p \<longleftrightarrow> take (length p) s = p"

definition TrimPrefix :: "'a list \<Rightarrow> 'a list \<Rightarrow> 'a list" where
  "TrimPrefix s p = (if HasPrefix s p then drop (length p) s else s)"

definition HasSuffix :: "'a list \<Rightarrow> 'a list \<Rightarrow> bool" where
  "HasSuffix s p \<longleftrightarrow> length p \<le> length s \<and> drop (length s - length p) s = p"

definition TrimSuffix :: "'a list \<Rightarrow> 'a list \<Rightarrow> 'a list" where
  "TrimSuffix s p = (if HasSuffix s p then take (length s - length p) s else s)"

fun Index :: "'a list \<Rightarrow> 'a list \<Rightarrow> nat option" where
  "Index [] sub = (if sub = [] then Some 0 else None)"
| "Index (c # s) sub = (if HasPrefix (c # s) sub then Some 0 else map_option Suc (Index s sub))"

definition Contains :: "'a list \<Rightarrow> 'a list \<Rightarrow> bool" where
  "Contains s sub \<longleftrightarrow> Index s sub \<noteq> None"

lemma HasPrefix_iff [go_str]: "HasPrefix s p \<longleftrightarrow> (\<exists>t. s = p @ t)"
  unfolding HasPrefix_def by (metis append_eq_conv_conj append_take_drop_id)

lemma HasPrefix_append [simp]: "HasPrefix (p @ t) p"
  by (simp add: HasPrefix_def)

lemma TrimPrefix_append [simp]: "TrimPrefix (p @ t) p = t"
  by (simp add: TrimPrefix_def)

lemma HasSuffix_iff [go_str]: "HasSuffix s p \<longleftrightarrow> (\<exists>t. s = t @ p)"
  unfolding HasSuffix_def
  by (metis append_take_drop_id append_eq_conv_conj diff_add_inverse2 length_append le_add2)

lemma TrimSuffix_append [simp]: "TrimSuffix (t @ p) p = t"
  by (simp add: TrimSuffix_def HasSuffix_def)

lemma Index_Some:
  "Index s sub = Some i \<Longrightarrow> \<exists>a b. s = a @ sub @ b \<and> length a = i"
proof (induction s arbitrary: i)
  case Nil
  then show ?case by (auto split: if_splits)
next
  case (Cons c s)
  show ?case
  proof (cases "HasPrefix (c # s) sub")
    case True
    with Cons.prems show ?thesis by (auto simp: HasPrefix_iff)
  next
    case False
    with Cons.prems obtain j where "Index s sub = Some j" "i = Suc j" by auto
    with Cons.IH obtain a b where "s = a @ sub @ b" "length a = j" by blast
    then show ?thesis using \<open>i = Suc j\<close> by (intro exI [of _ "c # a"] exI [of _ b]) auto
  qed
qed

lemma Index_append: "Index (a @ sub @ b) sub \<noteq> None"
proof (induction a)
  case Nil
  show ?case
  proof (cases "sub @ b")
    case (Cons x xs)
    then have "HasPrefix (x # xs) sub" by (metis HasPrefix_append)
    with Cons show ?thesis by simp
  qed simp
next
  case (Cons c a)
  then show ?case by auto
qed

lemma Contains_iff [go_str]: "Contains s sub \<longleftrightarrow> (\<exists>a b. s = a @ sub @ b)"
  unfolding Contains_def using Index_Some Index_append by (metis option.exhaust)

subsection \<open>Split and Join on a one-byte separator\<close>

fun Split :: "'a list \<Rightarrow> 'a \<Rightarrow> 'a list list" where
  "Split [] c = [[]]"
| "Split (x # s) c = (if x = c then [] # Split s c
     else (case Split s c of [] \<Rightarrow> [[x]] | w # ws \<Rightarrow> (x # w) # ws))"

fun Join :: "'a list list \<Rightarrow> 'a list \<Rightarrow> 'a list" where
  "Join [] sep = []"
| "Join [w] sep = w"
| "Join (w # v # ws) sep = w @ sep @ Join (v # ws) sep"

lemma Split_not_Nil [simp]: "Split s c \<noteq> []"
  by (induction s) (auto split: list.split)

lemma Split_no_sep: "w \<in> set (Split s c) \<Longrightarrow> c \<notin> set w"
proof (induction s arbitrary: w)
  case Nil
  then show ?case by simp
next
  case (Cons x s)
  show ?case
  proof (cases "x = c")
    case True
    with Cons show ?thesis by auto
  next
    case False
    obtain v vs where "Split s c = v # vs" by (cases "Split s c") auto
    with Cons False show ?thesis by fastforce
  qed
qed

lemma Join_Cons: "ws \<noteq> [] \<Longrightarrow> Join (w # ws) sep = w @ sep @ Join ws sep"
  by (cases ws) auto

lemma Join_Split [simp]: "Join (Split s c) [c] = s"
proof (induction s)
  case Nil
  then show ?case by simp
next
  case (Cons x s)
  show ?case
  proof (cases "x = c")
    case True
    with Cons show ?thesis by (simp add: Join_Cons)
  next
    case False
    obtain v vs where v: "Split s c = v # vs" by (cases "Split s c") auto
    with Cons False show ?thesis by (cases vs) auto
  qed
qed

lemma Split_single [simp]: "c \<notin> set w \<Longrightarrow> Split w c = [w]"
  by (induction w) auto

lemma Split_append_sep: "c \<notin> set w \<Longrightarrow> Split (w @ c # s) c = w # Split s c"
  by (induction w) auto

lemma Split_Join [simp]:
  assumes "ws \<noteq> []" and "\<And>w. w \<in> set ws \<Longrightarrow> c \<notin> set w"
  shows "Split (Join ws [c]) c = ws"
  using assms
proof (induction ws rule: induct_list012)
  case (3 w v ws)
  then show ?case by (simp add: Split_append_sep)
qed auto

lemma Join_append:
  "us \<noteq> [] \<Longrightarrow> vs \<noteq> [] \<Longrightarrow> Join (us @ vs) sep = Join us sep @ sep @ Join vs sep"
  by (induction us rule: induct_list012) (auto simp: Join_Cons)

lemma Join_inject:
  assumes "Join us [c] = Join vs [c]" "us \<noteq> []" "vs \<noteq> []"
    and "\<And>w. w \<in> set us \<Longrightarrow> c \<notin> set w" "\<And>w. w \<in> set vs \<Longrightarrow> c \<notin> set w"
  shows "us = vs"
  using assms Split_Join by metis

subsection \<open>Trim, TrimSpace, EqualFold, ToUpper\<close>

definition TrimRight_by :: "('a \<Rightarrow> bool) \<Rightarrow> 'a list \<Rightarrow> 'a list" where
  "TrimRight_by p s = rev (dropWhile p (rev s))"

definition Trim_by :: "('a \<Rightarrow> bool) \<Rightarrow> 'a list \<Rightarrow> 'a list" where
  "Trim_by p s = TrimRight_by p (dropWhile p s)"

definition Trim :: "'a list \<Rightarrow> 'a \<Rightarrow> 'a list" where
  "Trim s c = Trim_by (\<lambda>x. x = c) s"

definition is_space :: "char \<Rightarrow> bool" where
  "is_space c \<longleftrightarrow> c \<in> {CHR '' '', CHR 0x09, CHR 0x0A, CHR 0x0B, CHR 0x0C, CHR 0x0D}"

definition TrimSpace :: "string \<Rightarrow> string" where
  "TrimSpace s = Trim_by is_space s"

definition to_upper :: "char \<Rightarrow> char" where
  "to_upper c = (if 97 \<le> (of_char c :: nat) \<and> (of_char c :: nat) \<le> 122
     then char_of (of_char c - 32 :: nat) else c)"

definition ToUpper :: "string \<Rightarrow> string" where
  "ToUpper s = map to_upper s"

definition EqualFold :: "string \<Rightarrow> string \<Rightarrow> bool" where
  "EqualFold s t \<longleftrightarrow> ToUpper s = ToUpper t"

definition ReplaceAll_chr :: "'a list \<Rightarrow> 'a \<Rightarrow> 'a \<Rightarrow> 'a list" where
  "ReplaceAll_chr s a b = map (\<lambda>x. if x = a then b else x) s"

lemma TrimRight_by_id: "s = [] \<or> \<not> p (last s) \<Longrightarrow> TrimRight_by p s = s"
  unfolding TrimRight_by_def
  by (cases s rule: rev_cases) auto

lemma Trim_by_id:
  assumes "s = [] \<or> (\<not> p (hd s) \<and> \<not> p (last s))"
  shows "Trim_by p s = s"
  using assms by (cases s) (auto simp: Trim_by_def TrimRight_by_id)

lemma last_TrimRight_by: "TrimRight_by p s \<noteq> [] \<Longrightarrow> \<not> p (last (TrimRight_by p s))"
  unfolding TrimRight_by_def
  by (metis hd_dropWhile last_rev rev_is_Nil_conv)

lemma TrimRight_by_append: "\<exists>t. s = TrimRight_by p s @ t \<and> (\<forall>x \<in> set t. p x)"
proof -
  have "rev s = takeWhile p (rev s) @ dropWhile p (rev s)" by simp
  then have "s = rev (dropWhile p (rev s)) @ rev (takeWhile p (rev s))"
    by (metis rev_append rev_rev_ident)
  moreover have "\<forall>x \<in> set (rev (takeWhile p (rev s))). p x"
    using set_takeWhileD by fastforce
  ultimately show ?thesis unfolding TrimRight_by_def by blast
qed

lemma hd_TrimRight_by: "TrimRight_by p s \<noteq> [] \<Longrightarrow> hd (TrimRight_by p s) = hd s"
  by (metis TrimRight_by_append hd_append2)

lemma Trim_by_ends:
  "Trim_by p s \<noteq> [] \<Longrightarrow> \<not> p (hd (Trim_by p s)) \<and> \<not> p (last (Trim_by p s))"
  unfolding Trim_by_def
  by (metis hd_TrimRight_by hd_dropWhile last_TrimRight_by rev.simps(1) TrimRight_by_def dropWhile.simps(1))

lemma Trim_by_idem [simp]: "Trim_by p (Trim_by p s) = Trim_by p s"
  using Trim_by_ends Trim_by_id by blast

lemma Trim_idem [simp]: "Trim (Trim s c) c = Trim s c"
  by (simp add: Trim_def)

lemma TrimSpace_idem [simp]: "TrimSpace (TrimSpace s) = TrimSpace s"
  by (simp add: TrimSpace_def)

lemma Trim_id: "s = [] \<or> (hd s \<noteq> c \<and> last s \<noteq> c) \<Longrightarrow> Trim s c = s"
  by (simp add: Trim_def Trim_by_id)

lemma Trim_Cons [simp]: "Trim (c # s) c = Trim s c"
  by (simp add: Trim_def Trim_by_def)

lemma EqualFold_refl [simp]: "EqualFold s s"
  by (simp add: EqualFold_def)

lemma EqualFold_sym: "EqualFold s t \<longleftrightarrow> EqualFold t s"
  by (auto simp: EqualFold_def)

lemma Trim_by_Nil: "Trim_by f s = [] \<longleftrightarrow> (\<forall>c \<in> set s. f c)"
proof -
  have "(\<forall>c \<in> set (dropWhile f s). f c) \<longleftrightarrow> (\<forall>c \<in> set s. f c)" by (induction s) auto
  then show ?thesis by (simp add: Trim_by_def TrimRight_by_def)
qed

lemma TrimSpace_Nil [simp]: "TrimSpace [] = []"
  by (simp add: TrimSpace_def Trim_by_Nil)

subsection \<open>Fields, LastIndexByte, ContainsAny\<close>

fun Fields_acc :: "string \<Rightarrow> string \<Rightarrow> string list" where
  "Fields_acc w [] = (if w = [] then [] else [w])"
| "Fields_acc w (c # s) =
     (if is_space c then (if w = [] then Fields_acc [] s else w # Fields_acc [] s) else Fields_acc (w @ [c]) s)"

definition Fields :: "string \<Rightarrow> string list" where
  "Fields s = Fields_acc [] s"

lemma Fields_acc_words:
  "list_all (\<lambda>c. \<not> is_space c) w \<Longrightarrow>
   list_all (\<lambda>v. v \<noteq> [] \<and> list_all (\<lambda>c. \<not> is_space c) v) (Fields_acc w s)"
  by (induction w s rule: Fields_acc.induct) simp_all

lemma Fields_words: "list_all (\<lambda>v. v \<noteq> [] \<and> list_all (\<lambda>c. \<not> is_space c) v) (Fields s)"
  unfolding Fields_def by (rule Fields_acc_words) simp

definition LastIndexByte :: "'a list \<Rightarrow> 'a \<Rightarrow> nat option" where
  "LastIndexByte s c = (if c \<in> set s then Some (length s - Suc (length (takeWhile (\<lambda>x. x \<noteq> c) (rev s)))) else None)"

definition ContainsAny :: "'a list \<Rightarrow> 'a list \<Rightarrow> bool" where
  "ContainsAny s chars \<longleftrightarrow> list_ex (\<lambda>c. c \<in> set chars) s"

lemma LastIndexByte_Some:
  assumes "LastIndexByte s c = Some i"
  shows "i < length s" "s ! i = c" "c \<notin> set (drop (Suc i) s)" "s = take i s @ c # drop (Suc i) s"
proof -
  let ?t = "takeWhile (\<lambda>x. x \<noteq> c) (rev s)"
  have c: "c \<in> set s" and i: "i = length s - Suc (length ?t)"
    using assms by (auto simp: LastIndexByte_def split: if_splits)
  obtain u v where s: "s = u @ c # v" "c \<notin> set v" using split_list_last [OF c] by blast
  then have "?t = rev v" by (simp, subst takeWhile_append2) auto
  with i s have "i = length u" by simp
  with s show "i < length s" "s ! i = c" "c \<notin> set (drop (Suc i) s)" "s = take i s @ c # drop (Suc i) s" by simp_all
qed

end
