(* ===== verification/GoHash.thy ===== *)
theory GoHash
  imports GoStrings
begin

section \<open>The hash functions of Go's standard library the code calls\<close>

text \<open>
  FNV-1a in its 32 and 64 bit variants (\<^verbatim>\<open>hash/fnv\<close>), SHA-256
  (\<^verbatim>\<open>crypto/sha256\<close>) and \<^verbatim>\<open>hex.EncodeToString\<close>, on the bytes of a string.
  All of them are executable; no theorem assumes anything about them that is not proved.
\<close>

unbundle bit_operations_syntax

definition bytes_of :: "string \<Rightarrow> bytes" where
  "bytes_of s = map of_char s"

lemma bytes_of_append [simp]: "bytes_of (s @ t) = bytes_of s @ bytes_of t"
  by (simp add: bytes_of_def)

subsection \<open>FNV-1a\<close>

definition fnv64a_step :: "u64 \<Rightarrow> u8 \<Rightarrow> u64" where
  "fnv64a_step h b = (h XOR ucast b) * 1099511628211"

definition fnv64a_write :: "u64 \<Rightarrow> bytes \<Rightarrow> u64" where
  "fnv64a_write h bs = foldl fnv64a_step h bs"

definition fnv64a_new :: u64 where
  "fnv64a_new = 14695981039346656037"

definition fnv32a_step :: "u32 \<Rightarrow> u8 \<Rightarrow> u32" where
  "fnv32a_step h b = (h XOR ucast b) * 16777619"

definition fnv32a_write :: "u32 \<Rightarrow> bytes \<Rightarrow> u32" where
  "fnv32a_write h bs = foldl fnv32a_step h bs"

definition fnv32a_new :: u32 where
  "fnv32a_new = 2166136261"

text \<open>Writing in two pieces is writing the concatenation.\<close>

lemma fnv64a_write_append: "fnv64a_write (fnv64a_write h a) b = fnv64a_write h (a @ b)"
  by (simp add: fnv64a_write_def)

subsection \<open>SHA-256\<close>

definition sha256_k :: "u32 list" where
  "sha256_k =
    [1116352408, 1899447441, 3049323471, 3921009573,
     961987163, 1508970993, 2453635748, 2870763221,
     3624381080, 310598401, 607225278, 1426881987,
     1925078388, 2162078206, 2614888103, 3248222580,
     3835390401, 4022224774, 264347078, 604807628,
     770255983, 1249150122, 1555081692, 1996064986,
     2554220882, 2821834349, 2952996808, 3210313671,
     3336571891, 3584528711, 113926993, 338241895,
     666307205, 773529912, 1294757372, 1396182291,
     1695183700, 1986661051, 2177026350, 2456956037,
     2730485921, 2820302411, 3259730800, 3345764771,
     3516065817, 3600352804, 4094571909, 275423344,
     430227734, 506948616, 659060556, 883997877,
     958139571, 1322822218, 1537002063, 1747873779,
     1955562222, 2024104815, 2227730452, 2361852424,
     2428436474, 2756734187, 3204031479, 3329325298]"

definition sha256_h0 :: "u32 list" where
  "sha256_h0 =
    [1779033703, 3144134277, 1013904242, 2773480762,
     1359893119, 2600822924, 528734635, 1541459225]"

definition rotr32 :: "nat \<Rightarrow> u32 \<Rightarrow> u32" where
  "rotr32 n x = drop_bit n x OR push_bit (32 - n) x"

definition be32 :: "bytes \<Rightarrow> u32" where
  "be32 bs = foldl (\<lambda>w b. push_bit 8 w OR ucast b) 0 bs"

definition put_be :: "nat \<Rightarrow> nat \<Rightarrow> bytes" where
  "put_be n x = map (\<lambda>i. of_nat (x div 256 ^ i mod 256)) (rev [0..<n])"

definition sha256_pad :: "bytes \<Rightarrow> bytes" where
  "sha256_pad m = m @ [0x80] @ replicate ((119 - length m mod 64) mod 64) 0
     @ put_be 8 (8 * length m)"

fun chunks :: "nat \<Rightarrow> nat \<Rightarrow> 'a list \<Rightarrow> 'a list list" where
  "chunks 0 n xs = []"
| "chunks (Suc k) n xs = take n xs # chunks k n (drop n xs)"

definition sha256_sched_step :: "u32 list \<Rightarrow> u32" where
  "sha256_sched_step w =
     (let n = length w; a = w ! (n - 15); b = w ! (n - 2);
          s0 = rotr32 7 a XOR rotr32 18 a XOR drop_bit 3 a;
          s1 = rotr32 17 b XOR rotr32 19 b XOR drop_bit 10 b
      in w ! (n - 16) + s0 + w ! (n - 7) + s1)"

definition sha256_schedule :: "bytes \<Rightarrow> u32 list" where
  "sha256_schedule block =
     ((\<lambda>w. w @ [sha256_sched_step w]) ^^ 48) (map be32 (chunks 16 4 block))"

fun sha256_round :: "u32 list \<Rightarrow> u32 \<times> u32 \<Rightarrow> u32 list" where
  "sha256_round [a, b, c, d, e, f, g, h] (k, w) =
     (let s1 = rotr32 6 e XOR rotr32 11 e XOR rotr32 25 e;
          ch = (e AND f) XOR (NOT e AND g);
          t1 = h + s1 + ch + k + w;
          s0 = rotr32 2 a XOR rotr32 13 a XOR rotr32 22 a;
          maj = (a AND b) XOR (a AND c) XOR (b AND c)
      in [t1 + s0 + maj, a, b, c, d + t1, e, f, g])"
| "sha256_round st kw = st"

definition sha256_block :: "u32 list \<Rightarrow> bytes \<Rightarrow> u32 list" where
  "sha256_block h block =
     map2 (+) h (foldl sha256_round h (zip sha256_k (sha256_schedule block)))"

definition sha256 :: "bytes \<Rightarrow> bytes" where
  "sha256 m =
     (let p = sha256_pad m
      in concat (map (\<lambda>w. put_be 4 (unat w))
           (foldl sha256_block sha256_h0 (chunks (length p div 64) 64 p))))"

subsection \<open>Hexadecimal text\<close>

definition hex_digit :: "nat \<Rightarrow> char" where
  "hex_digit n = (if n < 10 then char_of (48 + n) else char_of (87 + n))"

definition hex_encode :: "bytes \<Rightarrow> string" where
  "hex_encode bs = concat (map (\<lambda>b. [hex_digit (unat b div 16), hex_digit (unat b mod 16)]) bs)"

lemma length_hex_encode [simp]: "length (hex_encode bs) = 2 * length bs"
  by (induction bs) (auto simp: hex_encode_def)

lemma hex_digit_not_sep: "n < 16 \<Longrightarrow> hex_digit n \<notin> {CHR '':'', CHR ''/'', CHR ''|''}"
proof -
  assume "n < 16"
  then have "n \<in> set [0..<16]" by simp
  moreover have "\<forall>n \<in> set [0..<16]. hex_digit n \<notin> {CHR '':'', CHR ''/'', CHR ''|''}"
    by (simp add: hex_digit_def upt_rec char_of_def)
  ultimately show ?thesis by blast
qed

text \<open>Hexadecimal text holds no colon, slash or bar.\<close>

lemma hex_encode_no_sep:
  "c \<in> set (hex_encode bs) \<Longrightarrow> c \<notin> {CHR '':'', CHR ''/'', CHR ''|''}"
proof -
  assume "c \<in> set (hex_encode bs)"
  then obtain b where "c = hex_digit (unat (b::u8) div 16) \<or> c = hex_digit (unat b mod 16)"
    by (auto simp: hex_encode_def)
  moreover have "unat b div 16 < 16" "unat b mod 16 < 16"
    using unsigned_less [of b, where ?'a = nat] by auto
  ultimately show ?thesis using hex_digit_not_sep by metis
qed

lemma length_concat_put_be [simp]: "length (put_be n x) = n"
  by (simp add: put_be_def)

lemma sha256_round_length [simp]: "length (sha256_round st kw) = length st"
  by (induction st kw rule: sha256_round.induct) (auto simp: Let_def)

lemma foldl_sha256_round_length: "length (foldl sha256_round h kws) = length h"
  by (induction kws arbitrary: h) auto

lemma sha256_block_length [simp]: "length (sha256_block h b) = length h"
  by (simp add: sha256_block_def foldl_sha256_round_length)

lemma foldl_sha256_block_length: "length (foldl sha256_block h bs) = length h"
  by (induction bs arbitrary: h) auto

lemma length_sha256 [simp]: "length (sha256 m) = 32"
proof -
  have "length (concat (map (\<lambda>w. put_be 4 (unat w)) ws)) = 4 * length ws" for ws :: "u32 list"
    by (induction ws) auto
  then show ?thesis
    by (simp add: sha256_def Let_def foldl_sha256_block_length sha256_h0_def)
qed

end
