(* ===== verification/Sharding.thy ===== *)
theory Sharding
  imports GoHash
begin

section \<open>Placement: rendezvous hashing\<close>

text \<open>
  \<^verbatim>\<open>internal/sharding/hrw.go\<close>: the node list of an \<open>HRW\<close> ring and its operations.
  The ring's mutex makes each operation one atomic function. A \<open>*pb.NodeInfo\<close> may be nil,
  hence \<open>NodeInfo option\<close>. The score keeps Go's 64-bit wrap-around.
\<close>

subsection \<open>Data\<close>

record Node =
  node_ID :: string
  node_Address :: string
  node_Weight :: u32
  node_Healthy :: bool

record NodeInfo =
  ni_NodeId :: string
  ni_Address :: string
  ni_Weight :: u32
  ni_Healthy :: bool

record HRW =
  hrw_nodes :: "Node list"

subsection \<open>Building and updating the ring\<close>

definition NewHRW :: "Node list \<Rightarrow> HRW" where
  "NewHRW ns = \<lparr>hrw_nodes = ns\<rparr>"

definition node_of_info :: "NodeInfo \<Rightarrow> Node" where
  "node_of_info n = \<lparr>node_ID = ni_NodeId n, node_Address = ni_Address n,
     node_Weight = ni_Weight n, node_Healthy = ni_Healthy n\<rparr>"

fun convert_infos :: "NodeInfo option list \<Rightarrow> Node list" where
  "convert_infos [] = []"
| "convert_infos (None # ns) = convert_infos ns"
| "convert_infos (Some n # ns) = node_of_info n # convert_infos ns"

definition NewHRWFromProto :: "NodeInfo option list \<Rightarrow> HRW" where
  "NewHRWFromProto ns = NewHRW (convert_infos ns)"

definition UpdateNodes :: "HRW \<Rightarrow> Node list \<Rightarrow> HRW" where
  "UpdateNodes h ns = h\<lparr>hrw_nodes := ns\<rparr>"

definition UpdateNodesFromProto :: "HRW \<Rightarrow> NodeInfo option list \<Rightarrow> HRW" where
  "UpdateNodesFromProto h ns = UpdateNodes h (convert_infos ns)"

fun incoming_of :: "(string \<rightharpoonup> NodeInfo) \<Rightarrow> NodeInfo option list \<Rightarrow> (string \<rightharpoonup> NodeInfo)" where
  "incoming_of m [] = m"
| "incoming_of m (None # ns) = incoming_of m ns"
| "incoming_of m (Some n # ns) = incoming_of (m(ni_NodeId n \<mapsto> n)) ns"

text \<open>The in-place pass: every existing node is refreshed or marked unhealthy; the second
  component is the \<open>seen\<close> map.\<close>

fun refresh_nodes :: "(string \<rightharpoonup> NodeInfo) \<Rightarrow> string set \<Rightarrow> Node list \<Rightarrow> Node list \<times> string set" where
  "refresh_nodes inc seen [] = ([], seen)"
| "refresh_nodes inc seen (n # ns) =
     (case inc (node_ID n) of
        Some info \<Rightarrow>
          (let (ns', seen') = refresh_nodes inc (insert (node_ID n) seen) ns
           in (n\<lparr>node_Address := ni_Address info, node_Weight := ni_Weight info,
                 node_Healthy := ni_Healthy info\<rparr> # ns', seen'))
      | None \<Rightarrow>
          (let (ns', seen') = refresh_nodes inc seen ns
           in (n\<lparr>node_Healthy := False\<rparr> # ns', seen')))"

fun append_new :: "string set \<Rightarrow> Node list \<Rightarrow> NodeInfo option list \<Rightarrow> Node list" where
  "append_new seen hns [] = hns"
| "append_new seen hns (None # ns) = append_new seen hns ns"
| "append_new seen hns (Some n # ns) =
     (if ni_NodeId n \<in> seen then append_new seen hns ns
      else if \<exists>e \<in> set hns. node_ID e = ni_NodeId n then append_new seen hns ns
      else append_new seen (hns @ [node_of_info n]) ns)"

definition UpdateNodeHealthFromProto :: "HRW \<Rightarrow> NodeInfo option list \<Rightarrow> HRW" where
  "UpdateNodeHealthFromProto h ns =
     (let inc = incoming_of Map.empty ns;
          (hns, seen) = refresh_nodes inc {} (hrw_nodes h)
      in h\<lparr>hrw_nodes := append_new seen hns ns\<rparr>)"

fun set_health :: "string \<Rightarrow> bool \<Rightarrow> Node list \<Rightarrow> Node list \<times> bool" where
  "set_health i b [] = ([], False)"
| "set_health i b (n # ns) =
     (if node_ID n = i then (n\<lparr>node_Healthy := b\<rparr> # ns, True)
      else (let (ns', ok) = set_health i b ns in (n # ns', ok)))"

definition SetNodeHealth :: "HRW \<Rightarrow> string \<Rightarrow> bool \<Rightarrow> HRW \<times> bool" where
  "SetNodeHealth h i b = (let (ns, ok) = set_health i b (hrw_nodes h) in (h\<lparr>hrw_nodes := ns\<rparr>, ok))"

subsection \<open>Choosing nodes\<close>

definition computeScore :: "string \<Rightarrow> Node \<Rightarrow> u64" where
  "computeScore key n =
     (let hash = fnv64a_write (fnv64a_write fnv64a_new (bytes_of key)) (bytes_of (node_ID n));
          weight = (ucast (node_Weight n) :: u64);
          weight = (if weight = 0 then 1 else weight)
      in hash * weight)"

fun best_node :: "string \<Rightarrow> Node list \<Rightarrow> Node option \<Rightarrow> u64 \<Rightarrow> Node option" where
  "best_node key [] best bestScore = best"
| "best_node key (n # ns) best bestScore =
     (if \<not> node_Healthy n then best_node key ns best bestScore
      else let score = computeScore key n in
        if best = None \<or> score > bestScore then best_node key ns (Some n) score
        else best_node key ns best bestScore)"

definition GetNode :: "HRW \<Rightarrow> string \<Rightarrow> Node option" where
  "GetNode h key = best_node key (hrw_nodes h) None 0"

definition ranked :: "HRW \<Rightarrow> string \<Rightarrow> (Node \<times> u64) list" where
  "ranked h key =
     sort_slice (\<lambda>a b. snd a > snd b)
       (map (\<lambda>n. (n, computeScore key n)) (filter node_Healthy (hrw_nodes h)))"

text \<open>\<open>None\<close> is the panic of \<open>make([]Node, n)\<close> for a negative length.\<close>

definition GetNodes :: "HRW \<Rightarrow> string \<Rightarrow> int \<Rightarrow> Node list option" where
  "GetNodes h key n =
     (let cands = ranked h key;
          n' = (if n > int (length cands) then int (length cands) else n)
      in if n' < 0 then None else Some (map fst (take (nat n') cands)))"

fun find_node :: "string \<Rightarrow> Node list \<Rightarrow> Node option" where
  "find_node i [] = None"
| "find_node i (n # ns) = (if node_ID n = i then Some n else find_node i ns)"

definition GetNodeByID :: "HRW \<Rightarrow> string \<Rightarrow> Node option" where
  "GetNodeByID h i = find_node i (hrw_nodes h)"

definition GetAllNodes :: "HRW \<Rightarrow> Node list" where
  "GetAllNodes h = hrw_nodes h"

definition GetHealthyNodes :: "HRW \<Rightarrow> Node list" where
  "GetHealthyNodes h = filter node_Healthy (hrw_nodes h)"

definition NodeCount :: "HRW \<Rightarrow> nat" where
  "NodeCount h = length (hrw_nodes h)"

fun count_healthy :: "nat \<Rightarrow> Node list \<Rightarrow> nat" where
  "count_healthy c [] = c"
| "count_healthy c (n # ns) = count_healthy (if node_Healthy n then c + 1 else c) ns"

definition HealthyNodeCount :: "HRW \<Rightarrow> nat" where
  "HealthyNodeCount h = count_healthy 0 (hrw_nodes h)"

subsection \<open>Storage identifiers and shard keys (\<^verbatim>\<open>key.go\<close>), shard numbers (\<^verbatim>\<open>shard.go\<close>)\<close>

definition GenerateStorageID :: "string \<Rightarrow> string" where
  "GenerateStorageID displayPath = hex_encode (sha256 (bytes_of displayPath))"

definition BuildShardKey :: "string \<Rightarrow> string \<Rightarrow> string" where
  "BuildShardKey storageID filePath = storageID @ '':'' @ filePath"

text \<open>\<open>shards\<close> is Go's 64-bit \<open>int\<close>; \<open>uint32(shards)\<close> keeps its low 32 bits, and a
  remainder by zero panics (\<open>None\<close>).\<close>

definition ShardFor :: "string \<Rightarrow> int \<Rightarrow> int option" where
  "ShardFor key shards =
     (if shards \<le> 1 then Some 0
      else let h = fnv32a_write fnv32a_new (bytes_of key); m = (word_of_int shards :: u32)
        in if m = 0 then None else Some (uint (h mod m)))"


subsection \<open>The owner of a key is the first node of highest score\<close>

definition is_owner :: "string \<Rightarrow> Node list \<Rightarrow> Node \<Rightarrow> bool" where
  "is_owner key ns m \<longleftrightarrow> (\<exists>pre post. ns = pre @ m # post
     \<and> (\<forall>n \<in> set pre. computeScore key n < computeScore key m)
     \<and> (\<forall>n \<in> set post. computeScore key n \<le> computeScore key m))"

lemma is_owner_Nil [simp]: "\<not> is_owner key [] m"
  by (simp add: is_owner_def)

lemma is_owner_Cons:
  "is_owner key (n # ns) m \<longleftrightarrow>
     (n = m \<and> (\<forall>k \<in> set ns. computeScore key k \<le> computeScore key n)) \<or>
     (is_owner key ns m \<and> computeScore key n < computeScore key m)" (is "?l \<longleftrightarrow> ?r")
proof
  assume ?l
  then obtain pre post where "n # ns = pre @ m # post"
    "\<forall>n \<in> set pre. computeScore key n < computeScore key m"
    "\<forall>n \<in> set post. computeScore key n \<le> computeScore key m" unfolding is_owner_def by blast
  then show ?r by (cases pre) (auto simp: is_owner_def)
next
  assume ?r
  then show ?l
  proof (elim disjE conjE)
    assume "n = m" "\<forall>k \<in> set ns. computeScore key k \<le> computeScore key n"
    then show ?l unfolding is_owner_def by (intro exI [of _ "[]"] exI [of _ ns]) simp
  next
    assume "is_owner key ns m" "computeScore key n < computeScore key m"
    then obtain pre post where "ns = pre @ m # post"
      "\<forall>n \<in> set pre. computeScore key n < computeScore key m"
      "\<forall>n \<in> set post. computeScore key n \<le> computeScore key m" unfolding is_owner_def by blast
    with \<open>computeScore key n < computeScore key m\<close> show ?l
      unfolding is_owner_def by (intro exI [of _ "n # pre"] exI [of _ post]) simp
  qed
qed

lemma is_owner_max: "is_owner key ns m \<Longrightarrow> m \<in> set ns \<and> (\<forall>n \<in> set ns. computeScore key n \<le> computeScore key m)"
  by (induction ns) (auto simp: is_owner_Cons)

lemma is_owner_unique: "is_owner key ns m \<Longrightarrow> is_owner key ns m' \<Longrightarrow> m = m'"
proof (induction ns)
  case (Cons n ns)
  then show ?case
    using is_owner_max [of key ns m] is_owner_max [of key ns m'] leD
    unfolding is_owner_Cons by metis
qed simp

lemma is_owner_ex: "ns \<noteq> [] \<Longrightarrow> \<exists>m. is_owner key ns m"
proof (induction ns)
  case (Cons n ns)
  show ?case
  proof (cases "\<forall>k \<in> set ns. computeScore key k \<le> computeScore key n")
    case False
    then obtain k where k: "k \<in> set ns" "computeScore key n < computeScore key k" by force
    then obtain m where "is_owner key ns m" using Cons.IH by force
    moreover have "computeScore key n < computeScore key m"
      using k is_owner_max [of key ns m] \<open>is_owner key ns m\<close> by (meson less_le_trans)
    ultimately show ?thesis by (auto simp: is_owner_Cons)
  qed (auto simp: is_owner_Cons)
qed simp

lemma is_owner_filter: "is_owner key ns m \<Longrightarrow> P m \<Longrightarrow> is_owner key (filter P ns) m"
  by (induction ns) (auto simp: is_owner_Cons)

lemma is_owner_snoc: "is_owner key (ns @ [n]) m \<Longrightarrow> m = n \<or> is_owner key ns m"
  by (induction ns) (auto simp: is_owner_Cons)

lemma best_node_filter: "best_node key ns b s = best_node key (filter node_Healthy ns) b s"
  by (induction key ns b s rule: best_node.induct) (auto simp: Let_def)

lemma best_node_Some:
  assumes "\<forall>n \<in> set ns. node_Healthy n"
  shows "\<exists>m. best_node key ns (Some b) (computeScore key b) = Some m \<and> is_owner key (b # ns) m"
  using assms
proof (induction ns arbitrary: b)
  case Nil
  then show ?case by (simp add: is_owner_Cons)
next
  case (Cons n ns)
  then have "node_Healthy n" "\<forall>n \<in> set ns. node_Healthy n" by auto
  then show ?case
    using Cons.IH [of n] Cons.IH [of b]
    by (cases "computeScore key n > computeScore key b")
      (auto simp: Let_def is_owner_Cons dest: is_owner_max)
qed

lemma GetNode_None: "GetNode h key = None \<longleftrightarrow> GetHealthyNodes h = []"
  and GetNode_owner: "GetNode h key = Some m \<longleftrightarrow> is_owner key (GetHealthyNodes h) m"
proof -
  define ns where "ns = GetHealthyNodes h"
  have eq: "GetNode h key = best_node key ns None 0"
    unfolding ns_def GetNode_def GetHealthyNodes_def by (rule best_node_filter)
  have "\<forall>n \<in> set ns. node_Healthy n" by (simp add: ns_def GetHealthyNodes_def)
  then have "(ns = [] \<and> GetNode h key = None) \<or> (\<exists>m. GetNode h key = Some m \<and> is_owner key ns m)"
    using eq best_node_Some [of "tl ns" key "hd ns"] by (cases ns) (auto simp: Let_def)
  then show "GetNode h key = None \<longleftrightarrow> GetHealthyNodes h = []"
    and "GetNode h key = Some m \<longleftrightarrow> is_owner key (GetHealthyNodes h) m"
    unfolding ns_def [symmetric] using is_owner_unique is_owner_ex by fastforce+
qed

subsection \<open>The health update\<close>

fun first_info :: "NodeInfo option list \<Rightarrow> string \<Rightarrow> NodeInfo option" where
  "first_info [] i = None"
| "first_info (None # ns) i = first_info ns i"
| "first_info (Some n # ns) i = (if ni_NodeId n = i then Some n else first_info ns i)"

fun listed_ids :: "NodeInfo option list \<Rightarrow> string list" where
  "listed_ids [] = []"
| "listed_ids (None # ns) = listed_ids ns"
| "listed_ids (Some n # ns) = ni_NodeId n # listed_ids ns"

definition refreshed :: "(string \<rightharpoonup> NodeInfo) \<Rightarrow> Node \<Rightarrow> Node" where
  "refreshed inc n = (case inc (node_ID n) of
     Some info \<Rightarrow> n\<lparr>node_Address := ni_Address info, node_Weight := ni_Weight info,
                     node_Healthy := ni_Healthy info\<rparr>
   | None \<Rightarrow> n\<lparr>node_Healthy := False\<rparr>)"

lemma node_ID_refreshed [simp]: "node_ID (refreshed inc n) = node_ID n"
  by (simp add: refreshed_def split: option.split)

lemma node_ID_of_info [simp]: "node_ID (node_of_info n) = ni_NodeId n"
  by (simp add: node_of_info_def)

lemma first_info_None: "first_info ns i = None \<longleftrightarrow> i \<notin> set (listed_ids ns)"
  by (induction ns i rule: first_info.induct) auto

lemma incoming_of_first:
  "distinct (listed_ids ns) \<Longrightarrow>
     incoming_of m ns i = (case first_info ns i of Some n \<Rightarrow> Some n | None \<Rightarrow> m i)"
proof (induction ns arbitrary: m)
  case (Cons n ns)
  then show ?case
    using first_info_None [of ns i] by (cases n; cases "first_info ns i") auto
qed simp

lemma dom_incoming_of: "dom (incoming_of m ns) = dom m \<union> set (listed_ids ns)"
proof (induction ns arbitrary: m)
  case (Cons n ns)
  then show ?case by (cases n) auto
qed simp

lemma incoming_of_None: "incoming_of Map.empty ns i = None \<longleftrightarrow> i \<notin> set (listed_ids ns)"
  using dom_incoming_of [of Map.empty ns] by auto

lemma refresh_nodes_eq:
  "refresh_nodes inc seen ns =
     (map (refreshed inc) ns, seen \<union> {i \<in> node_ID ` set ns. inc i \<noteq> None})"
  by (induction ns arbitrary: seen) (auto simp: refreshed_def split: option.split)

lemma find_node_append:
  "find_node i (ns @ ms) = (case find_node i ns of Some n \<Rightarrow> Some n | None \<Rightarrow> find_node i ms)"
  by (induction ns) auto

lemma find_node_None: "find_node i ns = None \<longleftrightarrow> i \<notin> node_ID ` set ns"
  by (induction ns) auto

lemma find_node_map_refreshed:
  "find_node i (map (refreshed inc) ns) = map_option (refreshed inc) (find_node i ns)"
  by (induction ns) auto

lemma find_node_ID: "find_node i ns = Some n \<Longrightarrow> node_ID n = i \<and> n \<in> set ns"
  by (induction ns) (auto split: if_splits)

lemma find_node_append_new:
  "find_node i (append_new seen hns ns) =
     (case find_node i hns of Some n \<Rightarrow> Some n
      | None \<Rightarrow> if i \<in> seen then None else map_option node_of_info (first_info ns i))"
proof (induction seen hns ns rule: append_new.induct)
  case (3 seen hns n ns)
  have "(\<exists>e \<in> set hns. node_ID e = ni_NodeId n) \<longleftrightarrow> find_node (ni_NodeId n) hns \<noteq> None"
    by (force simp: find_node_None)
  with 3 show ?case by (auto simp: find_node_append split: option.split)
qed (auto split: option.split)

lemma append_new_prefix: "\<exists>new. append_new seen hns ns = hns @ new"
  by (induction seen hns ns rule: append_new.induct) auto

lemma append_new_distinct:
  "distinct (map node_ID hns) \<Longrightarrow> distinct (map node_ID (append_new seen hns ns))"
proof (induction seen hns ns rule: append_new.induct)
  case (3 seen hns n ns)
  then show ?case by (simp add: image_iff) metis
qed auto

lemma refreshed_listed:
  "inc (node_ID n) = Some info \<Longrightarrow> ni_NodeId info = node_ID n \<Longrightarrow> refreshed inc n = node_of_info info"
  by (simp add: refreshed_def node_of_info_def)

lemma first_info_ID: "first_info ns i = Some n \<Longrightarrow> ni_NodeId n = i"
  by (induction ns i rule: first_info.induct) (auto split: if_splits)

lemma update_nodes_eq:
  "hrw_nodes (UpdateNodeHealthFromProto h ns) =
     append_new {i \<in> node_ID ` set (hrw_nodes h). incoming_of Map.empty ns i \<noteq> None}
       (map (refreshed (incoming_of Map.empty ns)) (hrw_nodes h)) ns"
  by (simp add: UpdateNodeHealthFromProto_def refresh_nodes_eq Let_def)

subsection \<open>A health change moves only the keys of that node\<close>

lemma set_health_down_subset:
  "set (filter node_Healthy (fst (set_health i False ns))) \<subseteq> set (filter node_Healthy ns)"
  by (induction ns) (auto simp: case_prod_beta)

lemma node_up_same: "node_Healthy n \<Longrightarrow> n\<lparr>node_Healthy := True\<rparr> = n"
  by (cases n) simp

lemma set_health_up_subset:
  "set (filter node_Healthy ns) \<subseteq> set (filter node_Healthy (fst (set_health i True ns)))"
  by (induction ns) (auto simp: case_prod_beta node_up_same)

lemma set_health_down_owner:
  "is_owner key (filter node_Healthy ns) m \<Longrightarrow> node_ID m \<noteq> i \<Longrightarrow>
     is_owner key (filter node_Healthy (fst (set_health i False ns))) m"
proof (induction ns)
  case (Cons n ns)
  then show ?case using set_health_down_subset [of i ns]
    by (auto simp: is_owner_Cons case_prod_beta split: if_splits)
qed simp

lemma set_health_up_owner:
  "is_owner key (filter node_Healthy (fst (set_health i True ns))) m \<Longrightarrow> node_ID m \<noteq> i \<Longrightarrow>
     is_owner key (filter node_Healthy ns) m"
proof (induction ns)
  case (Cons n ns)
  show ?case
  proof (cases "node_ID n = i")
    case True
    with Cons.prems have "is_owner key (filter node_Healthy ns) m"
      "computeScore key (n\<lparr>node_Healthy := True\<rparr>) < computeScore key m"
      by (auto simp: is_owner_Cons)
    then show ?thesis by (simp add: is_owner_Cons computeScore_def)
  next
    case False
    with Cons show ?thesis using set_health_up_subset [of ns i]
      by (auto simp: is_owner_Cons case_prod_beta split: if_splits)
  qed
qed simp

subsection \<open>Properties\<close>

text \<open>C1: Rendezvous placement. \<open>GetNode\<close> returns nil exactly when no node is healthy, and
  otherwise the first healthy node whose score for the key no healthy node exceeds.\<close>

theorem GetNode_correct:
  "(GetNode h key = None \<longleftrightarrow> (\<forall>n \<in> set (hrw_nodes h). \<not> node_Healthy n)) \<and>
   (GetNode h key = Some m \<longleftrightarrow> is_owner key (GetHealthyNodes h) m) \<and>
   (GetNode h key = Some m \<longrightarrow>
      m \<in> set (hrw_nodes h) \<and> node_Healthy m \<and>
      (\<forall>n \<in> set (hrw_nodes h). node_Healthy n \<longrightarrow> computeScore key n \<le> computeScore key m))"
  using is_owner_max [of key "GetHealthyNodes h" m]
  by (auto simp: GetNode_None GetNode_owner GetHealthyNodes_def filter_empty_conv)

definition ring_ab :: HRW where
  "ring_ab = NewHRW
     [\<lparr>node_ID = ''a'', node_Address = ''10.0.0.1:9000'', node_Weight = 1, node_Healthy = True\<rparr>,
      \<lparr>node_ID = ''b'', node_Address = ''10.0.0.2:9000'', node_Weight = 1, node_Healthy = True\<rparr>]"

theorem GetNode_correct_witness:
  "\<exists>m. GetNode ring_ab ''key'' = Some m \<and> node_Healthy m \<and>
     (\<forall>n \<in> set (hrw_nodes ring_ab). computeScore ''key'' n \<le> computeScore ''key'' m)"
proof -
  have "GetNode ring_ab ''key'' \<noteq> None" by (simp add: GetNode_None ring_ab_def NewHRW_def GetHealthyNodes_def)
  then obtain m where m: "GetNode ring_ab ''key'' = Some m" by blast
  then show ?thesis using GetNode_correct [of ring_ab "''key''" m]
    by (auto simp: ring_ab_def NewHRW_def)
qed

text \<open>C2: Minimal disruption. Marking a node down leaves every key that another node owns
  where it is; marking a node up, or adding a node, can only move a key to that node.\<close>

theorem SetNodeHealth_minimal_disruption:
  "(\<forall>m. GetNode h key = Some m \<and> node_ID m \<noteq> i \<longrightarrow>
      GetNode (fst (SetNodeHealth h i False)) key = Some m) \<and>
   (\<forall>m. GetNode (fst (SetNodeHealth h i True)) key = Some m \<longrightarrow>
      node_ID m = i \<or> GetNode h key = Some m) \<and>
   GetNode (UpdateNodes h (hrw_nodes h @ [n])) key \<in> {GetNode h key, Some n}"
proof (intro conjI)
  let ?h = "UpdateNodes h (hrw_nodes h @ [n])"
  have eq: "GetHealthyNodes ?h = GetHealthyNodes h @ filter node_Healthy [n]"
    by (simp add: GetHealthyNodes_def UpdateNodes_def)
  show "GetNode ?h key \<in> {GetNode h key, Some n}"
  proof (cases "GetNode ?h key")
    case None
    then have "GetNode h key = None" unfolding GetNode_None eq by simp
    with None show ?thesis by simp
  next
    case (Some m)
    then have "is_owner key (GetHealthyNodes h @ filter node_Healthy [n]) m"
      unfolding GetNode_owner eq .
    then have "m = n \<or> is_owner key (GetHealthyNodes h) m"
      by (cases "node_Healthy n") (auto dest: is_owner_snoc)
    with Some show ?thesis using GetNode_owner [of h key m] by auto
  qed
qed (auto simp: GetNode_owner GetHealthyNodes_def SetNodeHealth_def case_prod_beta
       intro: set_health_down_owner dest: set_health_up_owner)

theorem SetNodeHealth_minimal_disruption_witness:
  "GetNode (fst (SetNodeHealth ring_ab ''a'' False)) ''key'' \<noteq> GetNode ring_ab ''key'' \<longleftrightarrow>
   map_option node_ID (GetNode ring_ab ''key'') = Some ''a''"
proof -
  obtain m where m: "GetNode ring_ab ''key'' = Some m"
    using GetNode_None [of ring_ab "''key''"]
    by (force simp: ring_ab_def NewHRW_def GetHealthyNodes_def)
  have "node_ID m = ''a'' \<Longrightarrow> GetNode (fst (SetNodeHealth ring_ab ''a'' False)) ''key'' \<noteq> Some m"
    by (auto simp: GetNode_owner GetHealthyNodes_def SetNodeHealth_def ring_ab_def NewHRW_def
        dest!: is_owner_max)
  with m show ?thesis
    using SetNodeHealth_minimal_disruption [of ring_ab "''key''" "''a''"] by auto
qed

lemma ranked_set: "set (map fst (ranked h key)) = set (GetHealthyNodes h)"
  by (force simp: ranked_def GetHealthyNodes_def)

lemma length_ranked: "length (ranked h key) = length (GetHealthyNodes h)"
  by (simp add: ranked_def GetHealthyNodes_def)

lemma ranked_sorted: "sorted_wrt (\<lambda>a b. computeScore key a \<ge> computeScore key b) (map fst (ranked h key))"
proof -
  have "snd x = computeScore key (fst x)" if "x \<in> set (ranked h key)" for x
    using that by (auto simp: ranked_def)
  then show ?thesis
    using sorted_sort_slice_desc [of snd "map (\<lambda>n. (n, computeScore key n)) (filter node_Healthy (hrw_nodes h))"]
    unfolding sorted_wrt_map by (auto simp: ranked_def [symmetric] elim!: sorted_wrt_mono_rel [rotated])
qed



text \<open>C4: The health update. When neither the ring nor the update lists a node twice,
  \<open>UpdateNodeHealthFromProto\<close> keeps the position of every existing node and the IDs
  distinct; afterwards a listed node is exactly as listed, and a node that is not listed is
  kept but unhealthy.\<close>

theorem UpdateNodeHealthFromProto_correct:
  assumes "distinct (map node_ID (hrw_nodes h))" "distinct (listed_ids ns)"
  shows "take (NodeCount h) (map node_ID (hrw_nodes (UpdateNodeHealthFromProto h ns)))
           = map node_ID (hrw_nodes h) \<and>
    distinct (map node_ID (hrw_nodes (UpdateNodeHealthFromProto h ns))) \<and>
    GetNodeByID (UpdateNodeHealthFromProto h ns) i =
      (case first_info ns i of
         Some info \<Rightarrow> Some (node_of_info info)
       | None \<Rightarrow> map_option (\<lambda>n. n\<lparr>node_Healthy := False\<rparr>) (GetNodeByID h i))"
proof (intro conjI)
  let ?h' = "UpdateNodeHealthFromProto h ns"
  let ?inc = "incoming_of Map.empty ns" and ?ms = "hrw_nodes h"
  obtain new where new: "hrw_nodes ?h' = map (refreshed ?inc) ?ms @ new"
    using append_new_prefix unfolding update_nodes_eq by blast
  have ids: "map node_ID (map (refreshed ?inc) ?ms) = map node_ID ?ms" by (simp add: comp_def)
  show "take (NodeCount h) (map node_ID (hrw_nodes ?h')) = map node_ID ?ms"
    by (simp add: new NodeCount_def comp_def)
  show "distinct (map node_ID (hrw_nodes ?h'))"
    unfolding update_nodes_eq by (rule append_new_distinct) (use assms(1) ids in metis)
  have inc: "?inc i = first_info ns i" for i
    by (simp add: incoming_of_first [OF assms(2)] split: option.split)
  show "GetNodeByID ?h' i =
      (case first_info ns i of
         Some info \<Rightarrow> Some (node_of_info info)
       | None \<Rightarrow> map_option (\<lambda>n. n\<lparr>node_Healthy := False\<rparr>) (GetNodeByID h i))"
  proof (cases "find_node i ?ms")
    case None
    then have "i \<notin> node_ID ` set ?ms" by (simp add: find_node_None)
    with None show ?thesis
      by (auto simp: GetNodeByID_def update_nodes_eq find_node_append_new
          find_node_map_refreshed split: option.split)
  next
    case (Some n)
    then have "node_ID n = i" using find_node_ID by blast
    then have "refreshed ?inc n = (case first_info ns i of Some info \<Rightarrow> node_of_info info
        | None \<Rightarrow> n\<lparr>node_Healthy := False\<rparr>)"
      using first_info_ID [of ns i]
      by (auto simp: inc refreshed_listed [of ?inc] split: option.split) (simp add: inc refreshed_def)
    with Some show ?thesis
      by (simp add: GetNodeByID_def update_nodes_eq find_node_append_new
          find_node_map_refreshed split: option.split)
  qed
qed

theorem UpdateNodeHealthFromProto_correct_witness:
  "GetNodeByID (UpdateNodeHealthFromProto ring_ab
      [None, Some \<lparr>ni_NodeId = ''b'', ni_Address = ''h:1'', ni_Weight = 2, ni_Healthy = True\<rparr>]) ''a''
   = Some \<lparr>node_ID = ''a'', node_Address = ''10.0.0.1:9000'', node_Weight = 1, node_Healthy = False\<rparr>"
  using UpdateNodeHealthFromProto_correct
    [of ring_ab "[None, Some \<lparr>ni_NodeId = ''b'', ni_Address = ''h:1'', ni_Weight = 2, ni_Healthy = True\<rparr>]" "''a''"]
  by (simp add: ring_ab_def NewHRW_def GetNodeByID_def)

text \<open>Shard numbers. For every shard count that fits 32 bits \<open>ShardFor\<close> returns a
  number from 0 up to the count, depending only on the key and the count, and 0 for a count
  of at most 1. A count that is a positive multiple of \<open>2 ^ 32\<close> divides by zero.\<close>

theorem ShardFor_range:
  "(shards < 2 ^ 32 \<longrightarrow> (\<exists>s. ShardFor key shards = Some s \<and> 0 \<le> s \<and> s < max 1 shards)) \<and>
   (shards > 1 \<and> shards mod 2 ^ 32 = 0 \<longrightarrow> ShardFor key shards = None)"
proof -
  have "uint (word_of_int shards :: u32) = shards" if "shards > 1" "shards < 2 ^ 32"
    using that by (simp add: uint_word_of_int)
  moreover have "(word_of_int shards :: u32) = 0 \<longleftrightarrow> shards mod 2 ^ 32 = 0"
    by (simp add: word_of_int_eq_0_iff dvd_eq_mod_eq_0)
  ultimately show ?thesis
    by (auto simp: ShardFor_def Let_def uint_mod_distrib)
qed

theorem ShardFor_range_witness: "\<exists>s. ShardFor ''repo'' 3 = Some s \<and> s < 3"
  using ShardFor_range [of 3 "''repo''"] by auto

end
