(* ===== verification/Monopath.thy ===== *)
theory Monopath
  imports Sharding
begin

section \<open>Path semantics shared by the clients and the router\<close>

text \<open>
  \<^verbatim>\<open>internal/monopath/path.go\<close>: how a user-visible path splits into the display path of
  a mounted namespace and the path inside it, and how the two become the shard key. The
  \<open>ok\<close> result of the Go function is \<open>Some\<close>/\<open>None\<close>; \<open>parts[:k]\<close> and \<open>parts[k:]\<close> are
  \<open>take k\<close> and \<open>drop k\<close>, which the length tests keep in range.
\<close>

definition join_after :: "nat \<Rightarrow> string list \<Rightarrow> string \<times> string" where
  "join_after k parts =
     (Join (take k parts) ''/'', if length parts > k then Join (drop k parts) ''/'' else '''')"

definition SplitDisplayPath :: "string \<Rightarrow> (string \<times> string) option" where
  "SplitDisplayPath fullPath =
     (if fullPath = '''' \<or> fullPath = ''/'' then None
      else let trimmed = Trim fullPath CHR ''/'' in
        if trimmed = '''' then None
        else let parts = Split trimmed CHR ''/'' in
          if hd parts = ''dependency'' \<or> hd parts = ''guardian-system'' then
            Some (hd parts, if length parts > 1 then Join (drop 1 parts) ''/'' else '''')
          else if hd parts = ''guardian'' \<or> hd parts = ''doctor'' then
            (if length parts < 2 then None else Some (join_after 2 parts))
          else
            (if length parts < 3 then None else Some (join_after 3 parts)))"

definition PathShardKey :: "string \<Rightarrow> string" where
  "PathShardKey fullPath =
     (if fullPath = '''' \<or> fullPath = ''/'' then fullPath
      else case SplitDisplayPath fullPath of
        None \<Rightarrow> fullPath
      | Some (displayPath, filePath) \<Rightarrow>
          (let storageID = GenerateStorageID displayPath
           in if filePath = '''' then storageID else BuildShardKey storageID filePath))"

subsection \<open>Lemmas\<close>

text \<open>How many leading segments name the namespace.\<close>

definition display_depth :: "string \<Rightarrow> nat" where
  "display_depth seg =
     (if seg = ''dependency'' \<or> seg = ''guardian-system'' then 1
      else if seg = ''guardian'' \<or> seg = ''doctor'' then 2 else 3)"

lemma Trim_ends: "Trim s c \<noteq> [] \<Longrightarrow> hd (Trim s c) \<noteq> c \<and> last (Trim s c) \<noteq> c"
  unfolding Trim_def using Trim_by_ends by blast

lemma Join_hd_take1: "parts \<noteq> [] \<Longrightarrow> Join (take 1 parts) sep = hd parts"
  by (cases parts) auto

lemma SplitDisplayPath_eq:
  "SplitDisplayPath p =
     (let parts = Split (Trim p CHR ''/'') CHR ''/''; k = display_depth (hd parts) in
      if Trim p CHR ''/'' = '''' \<or> length parts < k then None else Some (join_after k parts))"
proof -
  have "Trim p CHR ''/'' = ''''" if "p = '''' \<or> p = ''/''"
    using that by (auto simp: Trim_def Trim_by_def TrimRight_by_def)
  moreover have "(hd parts, if length parts > 1 then Join (drop 1 parts) ''/'' else '''') = join_after 1 parts"
    "\<not> length parts < 1" if "parts = Split (Trim p CHR ''/'') CHR ''/''" for parts
    using that Join_hd_take1 [of parts "''/''"] by (auto simp: join_after_def Suc_le_eq)
  ultimately show ?thesis
    unfolding SplitDisplayPath_def display_depth_def Let_def by presburger
qed

text \<open>A path is the join of its segments; every segment is free of the separator, and the last one
  of a trimmed path is not empty.\<close>

lemma Join_last: "ws \<noteq> [] \<Longrightarrow> last ws \<noteq> [] \<Longrightarrow> Join ws sep \<noteq> [] \<and> last (Join ws sep) = last (last ws)"
  by (induction ws rule: induct_list012) (auto simp: Join_Cons)

lemma Join_last_Nil: "ws \<noteq> [] \<Longrightarrow> last ws = [] \<Longrightarrow> length ws > 1 \<Longrightarrow> last (Join ws [c]) = c"
proof (induction ws rule: induct_list012)
  case (3 w v ws)
  then show ?case by (cases ws) auto
qed auto

lemma Split_last_not_Nil:
  assumes "s \<noteq> []" "last s \<noteq> c" shows "last (Split s c) \<noteq> []"
proof
  assume "last (Split s c) = []"
  moreover have "length (Split s c) > 1 \<or> (\<exists>w. Split s c = [w])"
    by (cases "Split s c" rule: list.exhaust; cases "tl (Split s c)") auto
  ultimately show False
    using assms Join_Split [of s c] Join_last_Nil [of "Split s c" c] by fastforce
qed

lemma join_after_join:
  assumes "parts \<noteq> []" "0 < k" "k \<le> length parts" "last parts \<noteq> []"
  shows "(case join_after k parts of (d, f) \<Rightarrow>
            d @ (if f = [] then [] else ''/'' @ f) = Join parts ''/'' \<and>
            (f = [] \<longleftrightarrow> length parts = k))"
proof (cases "length parts = k")
  case False
  then have "drop k parts \<noteq> []" "last (drop k parts) \<noteq> []" "take k parts \<noteq> []" using assms by auto
  then show ?thesis
    using False assms Join_append [of "take k parts" "drop k parts" "''/''"]
      Join_last [of "drop k parts" "''/''"]
    by (simp add: join_after_def)
qed (simp add: join_after_def)

lemma SplitDisplayPath_Some:
  assumes "SplitDisplayPath p = Some (d, f)"
  defines "parts \<equiv> Split (Trim p CHR ''/'') CHR ''/''"
  shows "d @ (if f = [] then [] else ''/'' @ f) = Trim p CHR ''/''"
    and "(f = [] \<longleftrightarrow> length parts = display_depth (hd parts))"
    and "Split d CHR ''/'' = take (display_depth (hd parts)) parts"
    and "d \<noteq> []" "Trim p CHR ''/'' \<noteq> []"
proof -
  let ?k = "display_depth (hd parts)"
  have k: "0 < ?k" by (simp add: display_depth_def)
  have df: "Trim p CHR ''/'' \<noteq> []" "?k \<le> length parts" "join_after ?k parts = (d, f)"
    using assms(1) unfolding SplitDisplayPath_eq parts_def by (auto simp: Let_def split: if_splits)
  have parts: "parts \<noteq> []" "last parts \<noteq> []" "Join parts ''/'' = Trim p CHR ''/''"
    using Split_last_not_Nil [OF df(1)] Trim_ends [OF df(1)] by (auto simp: parts_def)
  show "d @ (if f = [] then [] else ''/'' @ f) = Trim p CHR ''/''"
    and "(f = [] \<longleftrightarrow> length parts = ?k)"
    using join_after_join [OF parts(1) k df(2) parts(2)] df(3) parts(3) by auto
  have no_sep: "CHR ''/'' \<notin> set w" if "w \<in> set parts" for w
    using that unfolding parts_def by (rule Split_no_sep)
  have d: "d = Join (take ?k parts) ''/''" using df(3) by (simp add: join_after_def)
  show "Split d CHR ''/'' = take ?k parts"
    unfolding d using no_sep k parts(1) by (intro Split_Join) (auto dest: in_set_takeD)
  have "hd parts \<noteq> []"
  proof
    assume "hd parts = []"
    then have "Join parts ''/'' = [] \<or> hd (Join parts ''/'') = CHR ''/''"
      using parts(1) by (cases parts; cases "tl parts") auto
    with parts(3) Trim_ends [OF df(1)] show False using df(1) by auto
  qed
  then show "d \<noteq> []" unfolding d using k parts(1)
    by (cases parts; cases "take (?k - 1) (tl parts)") (auto simp: take_Cons' Join_Cons)
  show "Trim p CHR ''/'' \<noteq> []" by (fact df(1))
qed

lemma BuildShardKey_inject:
  assumes "BuildShardKey (GenerateStorageID d) f = BuildShardKey (GenerateStorageID d') f'"
  shows "GenerateStorageID d = GenerateStorageID d' \<and> f = f'"
proof -
  have "CHR '':'' \<notin> set (GenerateStorageID x)" for x
    using hex_encode_no_sep [of "CHR '':''"] by (auto simp: GenerateStorageID_def)
  with assms Split_append_sep [of "CHR '':''" "GenerateStorageID d" f]
    Split_append_sep [of "CHR '':''" "GenerateStorageID d'" f']
  show ?thesis by (simp add: BuildShardKey_def)
qed

lemma SplitDisplayPath_Trim: "SplitDisplayPath (Trim p CHR ''/'') = SplitDisplayPath p"
  by (simp add: SplitDisplayPath_eq)

subsection \<open>Properties\<close>

text \<open>C5: Splitting a path loses nothing but outer slashes. When \<open>SplitDisplayPath\<close> succeeds,
  joining the two parts again gives the path without its leading and trailing slashes, the
  joined path splits the same way, and the display path alone, unless its last segment is
  empty, splits into itself and an empty file path.\<close>

theorem SplitDisplayPath_roundtrip:
  assumes "SplitDisplayPath p = Some (d, f)"
  shows "d @ (if f = '''' then '''' else ''/'' @ f) = Trim p CHR ''/'' \<and>
    SplitDisplayPath (d @ (if f = '''' then '''' else ''/'' @ f)) = Some (d, f) \<and>
    (last d \<noteq> CHR ''/'' \<longrightarrow> SplitDisplayPath d = Some (d, ''''))"
proof -
  let ?parts = "Split (Trim p CHR ''/'') CHR ''/''"
  note f = SplitDisplayPath_Some [OF assms]
  let ?k = "display_depth (hd ?parts)"
  have k: "0 < ?k" "?k \<le> length ?parts"
    using assms by (auto simp: SplitDisplayPath_eq Let_def display_depth_def Suc_le_eq split: if_splits)
  have "hd d \<noteq> CHR ''/''" using f(1) f(4) f(5) Trim_ends [of p "CHR ''/''"] by (metis hd_append2)
  then have trim: "Trim d CHR ''/'' = d" if "last d \<noteq> CHR ''/''"
    using that f(4) by (intro Trim_id) auto
  have "hd (take ?k ?parts) = hd ?parts" using k by (simp add: hd_take)
  moreover have "join_after ?k (take ?k ?parts) = (d, '''')"
    using k f(3) Join_Split [of d "CHR ''/''"] by (simp add: join_after_def min_def)
  ultimately have "SplitDisplayPath d = Some (d, '''')" if "last d \<noteq> CHR ''/''"
    using that trim f(4) k by (simp add: SplitDisplayPath_eq [of d] Let_def f(3))
  then show ?thesis using f(1) assms SplitDisplayPath_Trim [of p] by auto
qed

theorem SplitDisplayPath_roundtrip_witness:
  "SplitDisplayPath ''/github.com/acme/repo/src/main.go'' = Some (''github.com/acme/repo'', ''src/main.go'') \<and>
   SplitDisplayPath ''github.com/acme/repo'' = Some (''github.com/acme/repo'', '''')"
proof -
  have "SplitDisplayPath ''/github.com/acme/repo/src/main.go'' = Some (''github.com/acme/repo'', ''src/main.go'')"
    by code_simp
  with SplitDisplayPath_roundtrip [OF this] show ?thesis by simp
qed

text \<open>Shard keys identify files. The client's key of a path that splits is the storage ID
  of its display path, followed by a colon and the file path if there is one, which is the key
  the ingestion side builds; outer slashes do not change it. Two file paths get the same key
  only if their storage IDs and their file paths agree.\<close>

theorem PathShardKey_identifies:
  assumes "SplitDisplayPath p = Some (d, f)"
  shows "PathShardKey p =
      (if f = '''' then GenerateStorageID d else BuildShardKey (GenerateStorageID d) f) \<and>
    PathShardKey (Trim p CHR ''/'') = PathShardKey p \<and>
    (SplitDisplayPath q = Some (d', f') \<and> PathShardKey q = PathShardKey p \<longrightarrow>
       GenerateStorageID d' = GenerateStorageID d \<and> f' = f)"
proof -
  have key: "PathShardKey p =
      (if f = '''' then GenerateStorageID d else BuildShardKey (GenerateStorageID d) f)"
    if "SplitDisplayPath p = Some (d, f)" for p d f
    using that by (cases "p = '''' \<or> p = ''/''") (auto simp: PathShardKey_def SplitDisplayPath_def [of p])
  have "BuildShardKey (GenerateStorageID y) z \<noteq> GenerateStorageID x" for x y z
    by (rule notI, drule arg_cong [where f = "\<lambda>s. CHR '':'' \<in> set s"])
      (use hex_encode_no_sep [of "CHR '':''"] in \<open>auto simp: GenerateStorageID_def BuildShardKey_def\<close>)
  note ne = this this [symmetric]
  show ?thesis
    using key [OF assms] key [of "Trim p CHR ''/''" d f] key [of q d' f'] assms ne
      SplitDisplayPath_Trim [of p] BuildShardKey_inject [of d f d' f'] by (auto split: if_splits)
qed

theorem PathShardKey_identifies_witness:
  "PathShardKey ''/github.com/acme/repo/src/main.go''
     = BuildShardKey (GenerateStorageID ''github.com/acme/repo'') ''src/main.go'' \<and>
   PathShardKey ''guardian/p1/a'' \<noteq> PathShardKey ''guardian/p1/b''"
proof -
  have s: "SplitDisplayPath ''/github.com/acme/repo/src/main.go'' = Some (''github.com/acme/repo'', ''src/main.go'')"
    "SplitDisplayPath ''guardian/p1/a'' = Some (''guardian/p1'', ''a'')"
    "SplitDisplayPath ''guardian/p1/b'' = Some (''guardian/p1'', ''b'')"
    by code_simp+
  show ?thesis
    using PathShardKey_identifies [OF s(1)] s(3)
      PathShardKey_identifies [OF s(2), of "''guardian/p1/b''" "''guardian/p1''" "''b''"] by auto
qed

end
