(* ===== verification/NativeCodec.thy ===== *)
theory NativeCodec
  imports GoHash
begin

section \<open>The primitives of the native wire format\<close>

text \<open>
  \<^verbatim>\<open>internal/nativeproto/protocol.go\<close>, the \<open>encoder\<close> and the \<open>decoder\<close>. The encoder's
  buffer is the byte list its methods append to, so each method is the function giving the
  bytes it appends. A decoder method takes the decoder and returns an error or the value with
  the advanced decoder; \<open>dbind\<close> is the chain of \<open>if x, err = dec.f(); err != nil\<close> tests.
  An \<open>int64\<close> is its 64-bit pattern.

  The locales \<open>field\<close> and \<open>codec\<close> are the contracts of a field decoder and of a message
  decoder; every primitive and every message interprets one of them.
\<close>

datatype nperror = ErrEOF | ErrUnexpectedEOF | InvalidMagic u32 | UnsupportedVersion u16
  | UnexpectedHeaderLen u32 | BodyTooLarge nat

named_theorems stable_intros \<open>decoders that never read past what they consume\<close>

subsection \<open>Little-endian words\<close>

text \<open>\<^verbatim>\<open>binary.LittleEndian\<close>: \<open>PutUintN\<close> writes the byte \<open>v >> (8 * i)\<close> at index \<open>i\<close>,
  \<open>UintN\<close> combines them with shifts and \<open>|\<close>.\<close>

unbundle bit_operations_syntax

definition put_le :: "nat \<Rightarrow> 'a::len word \<Rightarrow> bytes" where
  "put_le n v = map (\<lambda>i. ucast (drop_bit (8 * i) v)) [0..<n]"

fun get_le :: "bytes \<Rightarrow> 'a::len word" where
  "get_le [] = 0"
| "get_le (b # bs) = ucast b OR push_bit 8 (get_le bs)"

lemma length_put_le [simp]: "length (put_le n v) = n"
  by (simp add: put_le_def)

lemma bit_get_le:
  "bit (get_le bs :: 'a::len word) k \<longleftrightarrow>
     k < LENGTH('a) \<and> k div 8 < length bs \<and> bit (bs ! (k div 8)) (k mod 8)"
proof (induction bs arbitrary: k)
  case (Cons b bs)
  show ?case
  proof (cases "k < 8")
    case True
    then show ?thesis by (auto simp: bit_or_iff bit_push_bit_iff bit_simps)
  next
    case False
    then obtain j where k: "k = j + 8" by (metis add.commute le_Suc_ex not_less)
    have "\<not> bit b k" using False by (auto dest: bit_imp_le_length)
    moreover have "(j + 8) div 8 = Suc (j div 8)" by simp
    ultimately show ?thesis using Cons.IH [of j] False
      by (auto simp: k bit_or_iff bit_push_bit_iff bit_simps simp del: div_add_self2)
  qed
qed simp

lemma get_put_le [simp]:
  "LENGTH('a) = 8 * n \<Longrightarrow> get_le (put_le n v) = (v :: 'a::len word)"
  by (rule bit_word_eqI)
    (auto simp: bit_get_le put_le_def bit_simps less_mult_imp_div_less mult.commute)

lemma put_get_le [simp]:
  assumes "LENGTH('a) = 8 * n" "length bs = n"
  shows "put_le n (get_le bs :: 'a::len word) = bs"
proof (rule nth_equalityI)
  fix i assume "i < length (put_le n (get_le bs :: 'a word))"
  then have i: "i < n" by simp
  show "put_le n (get_le bs :: 'a word) ! i = bs ! i"
  proof (rule bit_word_eqI)
    fix k assume "k < LENGTH(8)"
    then have "k < 8" "8 * i + k < LENGTH('a)" using i assms(1) by auto
    then show "bit (put_le n (get_le bs :: 'a word) ! i) k = bit (bs ! i) k"
      using i assms by (simp add: put_le_def bit_simps bit_get_le)
  qed
qed (simp add: assms)

subsection \<open>The encoder\<close>

definition enc_u8 :: "u8 \<Rightarrow> bytes" where "enc_u8 v = [v]"
definition enc_u16 :: "u16 \<Rightarrow> bytes" where "enc_u16 v = put_le 2 v"
definition enc_u32 :: "u32 \<Rightarrow> bytes" where "enc_u32 v = put_le 4 v"
definition enc_u64 :: "u64 \<Rightarrow> bytes" where "enc_u64 v = put_le 8 v"
definition enc_i64 :: "u64 \<Rightarrow> bytes" where "enc_i64 v = enc_u64 v"
definition enc_bool :: "bool \<Rightarrow> bytes" where "enc_bool v = (if v then enc_u8 1 else enc_u8 0)"
definition enc_objectID :: "bytes \<Rightarrow> bytes" where "enc_objectID v = v"

definition enc_str :: "string \<Rightarrow> bytes" where
  "enc_str v = enc_u32 (of_nat (length v)) @ bytes_of v"

subsection \<open>The decoder\<close>

record decoder =
  dec_data :: bytes
  dec_off :: nat

definition remaining :: "decoder \<Rightarrow> int" where
  "remaining d = int (length (dec_data d)) - int (dec_off d)"

definition slice_at :: "decoder \<Rightarrow> nat \<Rightarrow> bytes" where
  "slice_at d n = take n (drop (dec_off d) (dec_data d))"

definition advance :: "nat \<Rightarrow> decoder \<Rightarrow> decoder" where
  "advance n d = d\<lparr>dec_off := dec_off d + n\<rparr>"

type_synonym 'a dec = "decoder \<Rightarrow> (nperror, 'a \<times> decoder) result"

definition dret :: "'a \<Rightarrow> 'a dec" where "dret v d = Inr (v, d)"
definition dfail :: "nperror \<Rightarrow> 'a dec" where "dfail e d = Inl e"

definition dbind :: "'a dec \<Rightarrow> ('a \<Rightarrow> 'b dec) \<Rightarrow> 'b dec" where
  "dbind m f d = (case m d of Inl e \<Rightarrow> Inl e | Inr (v, d') \<Rightarrow> f v d')"

definition dec_u8 :: "u8 dec" where
  "dec_u8 d = (if remaining d < 1 then Inl ErrUnexpectedEOF
     else Inr (dec_data d ! dec_off d, advance 1 d))"

definition dec_u16 :: "u16 dec" where
  "dec_u16 d = (if remaining d < 2 then Inl ErrUnexpectedEOF
     else Inr (get_le (slice_at d 2), advance 2 d))"

definition dec_u32 :: "u32 dec" where
  "dec_u32 d = (if remaining d < 4 then Inl ErrUnexpectedEOF
     else Inr (get_le (slice_at d 4), advance 4 d))"

definition dec_u64 :: "u64 dec" where
  "dec_u64 d = (if remaining d < 8 then Inl ErrUnexpectedEOF
     else Inr (get_le (slice_at d 8), advance 8 d))"

definition dec_i64 :: "u64 dec" where
  "dec_i64 = dec_u64"

definition dec_bool :: "bool dec" where
  "dec_bool = dbind dec_u8 (\<lambda>v. dret (v \<noteq> 0))"

definition dec_objectID :: "bytes dec" where
  "dec_objectID d = (if remaining d < 16 then Inl ErrUnexpectedEOF
     else Inr (slice_at d 16, advance 16 d))"

definition string_of :: "bytes \<Rightarrow> string" where
  "string_of bs = map (\<lambda>b. char_of (unat b)) bs"

definition dec_str :: "string dec" where
  "dec_str = dbind dec_u32 (\<lambda>size d.
     if remaining d < int (unat size) then Inl ErrUnexpectedEOF
     else Inr (string_of (slice_at d (unat size)), advance (unat size) d))"

text \<open>A \<open>Decode\<close> function starts a decoder at offset 0 and drops it at the end.\<close>

definition run_dec :: "'a dec \<Rightarrow> bytes \<Rightarrow> (nperror, 'a) result" where
  "run_dec m data = (case m \<lparr>dec_data = data, dec_off = 0\<rparr> of Inl e \<Rightarrow> Inl e | Inr (v, _) \<Rightarrow> Inr v)"

subsection \<open>The contract of a field decoder\<close>

text \<open>A decoder that has consumed \<open>pre\<close> and has \<open>rest\<close> before it.\<close>

definition at :: "bytes \<Rightarrow> bytes \<Rightarrow> decoder" where
  "at pre rest = \<lparr>dec_data = pre @ rest, dec_off = length pre\<rparr>"

text \<open>A stable decoder either reports a truncated input or consumes a prefix of what is left,
  and then does the same whatever follows that prefix.\<close>

definition stable :: "'a dec \<Rightarrow> bool" where
  "stable m \<longleftrightarrow> (\<forall>pre rest.
     m (at pre rest) = Inl ErrUnexpectedEOF \<or>
     (\<exists>v used left. rest = used @ left \<and>
        (\<forall>left'. m (at pre (used @ left')) = Inr (v, at (pre @ used) left'))))"

lemma remaining_at [simp]: "remaining (at pre rest) = int (length rest)"
  by (simp add: remaining_def at_def)

lemma slice_at_at [simp]: "slice_at (at pre rest) n = take n rest"
  by (simp add: slice_at_def at_def)

lemma advance_at: "n \<le> length rest \<Longrightarrow> advance n (at pre rest) = at (pre @ take n rest) (drop n rest)"
  by (simp add: advance_def at_def)

lemma advance_at_append [simp]: "n = length a \<Longrightarrow> advance n (at pre (a @ b)) = at (pre @ a) b"
  by (simp add: advance_def at_def)

lemma nth_at_Cons [simp]: "dec_data (at pre (b # rest)) ! dec_off (at pre (b # rest)) = b"
  by (simp add: at_def)

lemma dbind_Inr: "m d = Inr (v, d') \<Longrightarrow> dbind m f d = f v d'"
  by (simp add: dbind_def)

lemma dbind_Inl: "m d = Inl e \<Longrightarrow> dbind m f d = Inl e"
  by (simp add: dbind_def)

lemma stableI:
  assumes "\<And>pre rest. length rest < n \<Longrightarrow> m (at pre rest) = Inl ErrUnexpectedEOF"
    and "\<And>pre a rest. length a = n \<Longrightarrow> m (at pre (a @ rest)) = Inr (g a, at (pre @ a) rest)"
  shows "stable m"
  unfolding stable_def
proof (intro allI)
  fix pre rest
  show "m (at pre rest) = Inl ErrUnexpectedEOF \<or>
     (\<exists>v used left. rest = used @ left \<and>
        (\<forall>left'. m (at pre (used @ left')) = Inr (v, at (pre @ used) left')))"
  proof (cases "length rest < n")
    case False
    then have "rest = take n rest @ drop n rest" "length (take n rest) = n" by auto
    then show ?thesis using assms(2) [of "take n rest" pre] by blast
  qed (use assms(1) in blast)
qed

lemma stable_dret [stable_intros]: "stable (dret v)"
  unfolding stable_def dret_def by (metis append_Nil append_Nil2)

lemma stable_dbind [stable_intros]:
  assumes "stable m" "\<And>v. stable (f v)"
  shows "stable (dbind m f)"
  unfolding stable_def
proof (intro allI)
  fix pre rest
  consider "m (at pre rest) = Inl ErrUnexpectedEOF"
    | v used left where "rest = used @ left" "\<And>l. m (at pre (used @ l)) = Inr (v, at (pre @ used) l)"
    using assms(1) unfolding stable_def by blast
  then show "dbind m f (at pre rest) = Inl ErrUnexpectedEOF \<or>
     (\<exists>v used left. rest = used @ left \<and>
        (\<forall>left'. dbind m f (at pre (used @ left')) = Inr (v, at (pre @ used) left')))"
  proof cases
    case 2
    then have step: "dbind m f (at pre (used @ l)) = f v (at (pre @ used) l)" for l
      by (simp add: dbind_Inr)
    consider "f v (at (pre @ used) left) = Inl ErrUnexpectedEOF"
      | w used' left' where "left = used' @ left'"
        "\<And>l. f v (at (pre @ used) (used' @ l)) = Inr (w, at ((pre @ used) @ used') l)"
      using assms(2) [of v] unfolding stable_def by blast
    then show ?thesis
    proof cases
      case 1
      with step [of left] 2(1) show ?thesis by simp
    next
      case A: 2
      have "rest = (used @ used') @ left'" using 2(1) A(1) by simp
      moreover have "dbind m f (at pre ((used @ used') @ l)) = Inr (w, at (pre @ used @ used') l)" for l
        using step [of "used' @ l"] A(2) by simp
      ultimately show ?thesis by blast
    qed
  qed (simp add: dbind_Inl)
qed

lemma dec_u8_at [codec_rt]: "dec_u8 (at pre (enc_u8 v @ rest)) = Inr (v, at (pre @ enc_u8 v) rest)"
  by (simp add: dec_u8_def enc_u8_def advance_def at_def remaining_def)

lemma dec_u16_at [codec_rt]: "dec_u16 (at pre (enc_u16 v @ rest)) = Inr (v, at (pre @ enc_u16 v) rest)"
  by (simp add: dec_u16_def enc_u16_def)

lemma dec_u32_at [codec_rt]: "dec_u32 (at pre (enc_u32 v @ rest)) = Inr (v, at (pre @ enc_u32 v) rest)"
  by (simp add: dec_u32_def enc_u32_def)

lemma dec_u64_at [codec_rt]: "dec_u64 (at pre (enc_u64 v @ rest)) = Inr (v, at (pre @ enc_u64 v) rest)"
  by (simp add: dec_u64_def enc_u64_def)

lemma dec_i64_at [codec_rt]: "dec_i64 (at pre (enc_i64 v @ rest)) = Inr (v, at (pre @ enc_i64 v) rest)"
  by (simp add: dec_i64_def enc_i64_def codec_rt)

lemma dec_bool_at [codec_rt]: "dec_bool (at pre (enc_bool v @ rest)) = Inr (v, at (pre @ enc_bool v) rest)"
  by (cases v) (simp_all add: dec_bool_def enc_bool_def dbind_def codec_rt dret_def)

lemma dec_objectID_at [codec_rt]:
  "length v = 16 \<Longrightarrow> dec_objectID (at pre (enc_objectID v @ rest)) = Inr (v, at (pre @ enc_objectID v) rest)"
  by (simp add: dec_objectID_def enc_objectID_def)

lemma string_of_bytes_of [simp]: "string_of (bytes_of s) = s"
proof -
  have "unat (of_char c :: u8) = of_char c" for c :: char
  proof -
    have "unat (of_nat (of_char c) :: u8) = of_char c mod 2 ^ 8" by (simp only: unat_of_nat) simp
    also have "\<dots> = of_char c" using of_char_mod_256 [of c, where ?'a = nat] by simp
    finally show ?thesis unfolding of_nat_of_char .
  qed
  then show ?thesis by (simp add: string_of_def bytes_of_def comp_def)
qed

lemma length_bytes_of [simp]: "length (bytes_of s) = length s"
  by (simp add: bytes_of_def)

lemma dec_str_at [codec_rt]:
  assumes "length v < 2 ^ 32"
  shows "dec_str (at pre (enc_str v @ rest)) = Inr (v, at (pre @ enc_str v) rest)"
proof -
  have "unat (of_nat (length v) :: u32) = length v" using assms by (simp add: unat_of_nat)
  then show ?thesis
    by (simp add: dec_str_def enc_str_def dbind_def codec_rt del: of_nat_unat)
qed

lemma stable_u8 [stable_intros]: "stable dec_u8"
  by (rule stableI [of 1 _ hd]) (auto simp: dec_u8_def advance_def at_def remaining_def length_Suc_conv)

lemma stable_u16 [stable_intros]: "stable dec_u16"
  by (rule stableI [of 2 _ get_le]) (auto simp: dec_u16_def)

lemma stable_u32 [stable_intros]: "stable dec_u32"
  by (rule stableI [of 4 _ get_le]) (auto simp: dec_u32_def)

lemma stable_u64 [stable_intros]: "stable dec_u64"
  by (rule stableI [of 8 _ get_le]) (auto simp: dec_u64_def)

lemma stable_i64 [stable_intros]: "stable dec_i64"
  unfolding dec_i64_def by (rule stable_u64)

lemma stable_bool [stable_intros]: "stable dec_bool"
  unfolding dec_bool_def by (intro stable_intros)

lemma stable_objectID [stable_intros]: "stable dec_objectID"
  by (rule stableI [of 16 _ id]) (auto simp: dec_objectID_def)

lemma stable_str [stable_intros]: "stable dec_str"
  unfolding dec_str_def
proof (intro stable_intros)
  fix size :: u32
  show "stable (\<lambda>d. if remaining d < int (unat size) then Inl ErrUnexpectedEOF
     else Inr (string_of (slice_at d (unat size)), advance (unat size) d))"
    by (rule stableI [of "unat size" _ string_of]) (auto simp del: of_nat_unat)
qed

locale field =
  fixes enc :: "'a \<Rightarrow> bytes"
    and dec :: "'a dec"
    and ok :: "'a \<Rightarrow> bool"
  assumes dec_at: "ok v \<Longrightarrow> dec (at pre (enc v @ rest)) = Inr (v, at (pre @ enc v) rest)"
    and dec_stable: "stable dec"

subsection \<open>The contract of a message\<close>

locale codec =
  fixes encode :: "'a \<Rightarrow> bytes"
    and decode :: "bytes \<Rightarrow> (nperror, 'a) result"
    and ok :: "'a \<Rightarrow> bool"
  assumes decode_encode: "ok v \<Longrightarrow> decode (encode v @ rest) = Inr v"
    and decode_truncated: "ok v \<Longrightarrow> k < length (encode v) \<Longrightarrow> decode (take k (encode v)) = Inl ErrUnexpectedEOF"
    and decode_error: "decode data = Inl e \<Longrightarrow> e = ErrUnexpectedEOF"
begin

lemma roundtrip: "ok v \<Longrightarrow> decode (encode v) = Inr v"
  using decode_encode [of v "[]"] by simp

lemma encode_inject: "ok v \<Longrightarrow> ok w \<Longrightarrow> encode v = encode w \<Longrightarrow> v = w"
  using roundtrip by (metis sum.inject(2))

lemma encode_prefix_free: "ok v \<Longrightarrow> ok w \<Longrightarrow> encode v @ a = encode w @ b \<Longrightarrow> v = w \<and> a = b"
  using decode_encode by (metis same_append_eq sum.inject(2))

end

lemma at_Nil: "\<lparr>dec_data = data, dec_off = 0\<rparr> = at [] data"
  by (simp add: at_def)

context field
begin

lemma run_encode: "ok v \<Longrightarrow> run_dec dec (enc v @ rest) = Inr v"
  by (simp add: run_dec_def at_Nil dec_at)

lemma run_error: "run_dec dec data = Inl e \<Longrightarrow> e = ErrUnexpectedEOF"
proof -
  assume e: "run_dec dec data = Inl e"
  consider "dec (at [] data) = Inl ErrUnexpectedEOF"
    | v used left where "data = used @ left" "\<And>l. dec (at [] (used @ l)) = Inr (v, at ([] @ used) l)"
    using dec_stable unfolding stable_def by blast
  then show ?thesis using e by cases (auto simp: run_dec_def at_Nil)
qed

lemma run_truncated:
  assumes "ok v" "k < length (enc v)"
  shows "run_dec dec (take k (enc v)) = Inl ErrUnexpectedEOF"
proof -
  consider "dec (at [] (take k (enc v))) = Inl ErrUnexpectedEOF"
    | w used left where "take k (enc v) = used @ left"
      "\<And>l. dec (at [] (used @ l)) = Inr (w, at ([] @ used) l)"
    using dec_stable unfolding stable_def by blast
  then show ?thesis
  proof cases
    case 2
    let ?l = "left @ drop k (enc v)"
    have "enc v = used @ ?l" using 2(1) append_take_drop_id [of k "enc v"] by simp
    then have "at ([] @ used) ?l = at ([] @ enc v) []"
      using 2(2) [of ?l] dec_at [OF assms(1), of "[]" "[]"] by simp
    then have "length used = length (enc v)" by (simp add: at_def)
    moreover have "length used \<le> k" using 2(1) assms(2) by (metis append_eq_conv_conj length_append length_take
          min.absorb2 le_add1 less_imp_le)
    ultimately show ?thesis using assms(2) by simp
  qed (simp add: run_dec_def at_Nil)
qed

end

sublocale field \<subseteq> codec enc "run_dec dec" ok
  by unfold_locales (simp_all add: run_encode run_truncated run_error)

subsection \<open>How much a decoder consumes\<close>

definition min_use :: "nat \<Rightarrow> 'a dec \<Rightarrow> bool" where
  "min_use n m \<longleftrightarrow> (\<forall>pre rest v d. m (at pre rest) = Inr (v, d) \<longrightarrow> length pre + n \<le> dec_off d)"

lemma stable_result:
  assumes "stable m" "m (at pre rest) = Inr (v, d)"
  obtains used left where "rest = used @ left" "d = at (pre @ used) left"
    "\<And>l. m (at pre (used @ l)) = Inr (v, at (pre @ used) l)"
proof -
  from assms(1) obtain w used left where "rest = used @ left"
    "\<And>l. m (at pre (used @ l)) = Inr (w, at (pre @ used) l)"
    using assms(2) unfolding stable_def by (metis sum.distinct(1))
  with assms(2) that show ?thesis by (metis Pair_inject sum.inject(2))
qed

lemma dec_off_at [simp]: "dec_off (at pre rest) = length pre"
  by (simp add: at_def)

lemma min_use_dret: "min_use 0 (dret v)"
  by (simp add: min_use_def dret_def)

lemma min_use_dbind:
  assumes "stable m" "min_use a m" "\<And>v. min_use b (f v)"
  shows "min_use (a + b) (dbind m f)"
  unfolding min_use_def
proof (intro allI impI)
  fix pre rest w d
  assume "dbind m f (at pre rest) = Inr (w, d)"
  then obtain v d' where v: "m (at pre rest) = Inr (v, d')" "f v d' = Inr (w, d)"
    by (auto simp: dbind_def split: sum.splits)
  obtain used left where u: "rest = used @ left" "d' = at (pre @ used) left"
    using assms(1) v(1) by (rule stable_result)
  have "length pre + a \<le> length (pre @ used)" using assms(2) v(1) u(2) unfolding min_use_def by fastforce
  moreover have "length (pre @ used) + b \<le> dec_off d"
    using assms(3) [of v] v(2) u(2) unfolding min_use_def by blast
  ultimately show "length pre + (a + b) \<le> dec_off d" by simp
qed

lemma min_use_u32: "min_use 4 dec_u32"
  by (auto simp: min_use_def dec_u32_def advance_def)

lemma min_use_u64: "min_use 8 dec_u64"
  by (auto simp: min_use_def dec_u64_def advance_def)

lemma min_use_objectID: "min_use 16 dec_objectID"
  by (auto simp: min_use_def dec_objectID_def advance_def)

lemma min_use_bool: "min_use 1 dec_bool"
  by (auto simp: min_use_def dec_bool_def dec_u8_def dbind_def dret_def advance_def)

lemma min_use_mono: "min_use a m \<Longrightarrow> b \<le> a \<Longrightarrow> min_use b m"
  unfolding min_use_def by fastforce

lemma min_use_0: "stable m \<Longrightarrow> min_use 0 m"
  unfolding min_use_def by (metis add_0_right at_def decoder.select_convs(2) le_add1 length_append stable_result)

lemma min_use_str: "min_use 4 dec_str"
proof -
  have "min_use 0 (\<lambda>d. if remaining d < int (unat size) then Inl ErrUnexpectedEOF
     else Inr (string_of (slice_at d (unat size)), advance (unat size) d))" for size :: u32
    by (simp add: min_use_def advance_def)
  from min_use_dbind [OF stable_u32 min_use_u32 this] show ?thesis by (simp add: dec_str_def)
qed

text \<open>A length test in front of a decoder that consumes at least that much keeps it stable.\<close>

lemma stable_guard:
  assumes "stable m" "min_use n m"
  shows "stable (\<lambda>d. if remaining d < int n then Inl ErrUnexpectedEOF else m d)"
  unfolding stable_def
proof (intro allI)
  fix pre rest
  let ?g = "\<lambda>d. if remaining d < int n then Inl ErrUnexpectedEOF else m d"
  show "?g (at pre rest) = Inl ErrUnexpectedEOF \<or>
     (\<exists>v used left. rest = used @ left \<and>
        (\<forall>left'. ?g (at pre (used @ left')) = Inr (v, at (pre @ used) left')))"
  proof (cases "m (at pre rest)")
    case (Inl e)
    then show ?thesis using assms(1) unfolding stable_def by (metis sum.distinct(1))
  next
    case (Inr p)
    then obtain v d where "m (at pre rest) = Inr (v, d)" by (cases p) auto
    then obtain used left where u: "rest = used @ left" "d = at (pre @ used) left"
      "\<And>l. m (at pre (used @ l)) = Inr (v, at (pre @ used) l)"
      using stable_result [OF assms(1)] by blast
    have "n \<le> length used" using assms(2) u(3) unfolding min_use_def by fastforce
    then have "?g (at pre (used @ l)) = Inr (v, at (pre @ used) l)" for l using u(3) by simp
    with u(1) show ?thesis by blast
  qed
qed

text \<open>The same with a bound that depends on the decoded value.\<close>

definition uses :: "('a \<Rightarrow> nat) \<Rightarrow> 'a dec \<Rightarrow> bool" where
  "uses g m \<longleftrightarrow> (\<forall>pre rest v d. m (at pre rest) = Inr (v, d) \<longrightarrow> length pre + g v \<le> dec_off d)"

lemma uses_dbind:
  assumes "stable m" "min_use a m" "\<And>v. uses g (f v)"
  shows "uses (\<lambda>w. a + g w) (dbind m f)"
  unfolding uses_def
proof (intro allI impI)
  fix pre rest w d
  assume "dbind m f (at pre rest) = Inr (w, d)"
  then obtain v d' where v: "m (at pre rest) = Inr (v, d')" "f v d' = Inr (w, d)"
    by (auto simp: dbind_def split: sum.splits)
  obtain used left where u: "rest = used @ left" "d' = at (pre @ used) left"
    using assms(1) v(1) by (rule stable_result)
  have "length pre + a \<le> length (pre @ used)" using assms(2) v(1) u(2) unfolding min_use_def by fastforce
  moreover have "length (pre @ used) + g w \<le> dec_off d"
    using assms(3) [of v] v(2) u(2) unfolding uses_def by blast
  ultimately show "length pre + (a + g w) \<le> dec_off d" by simp
qed

lemma uses_run:
  assumes "stable m" "uses g m" "run_dec m data = Inr v"
  shows "g v \<le> length data"
proof -
  obtain d where d: "m (at [] data) = Inr (v, d)"
    using assms(3) by (auto simp: run_dec_def at_Nil split: sum.splits)
  obtain used left where "data = used @ left" "d = at ([] @ used) left"
    using assms(1) d by (rule stable_result)
  moreover have "g v \<le> dec_off d" using assms(2) d unfolding uses_def by fastforce
  ultimately show ?thesis by simp
qed

end
