(* ===== verification/NativeProto.thy ===== *)
theory NativeProto
  imports NativeCodec
begin

section \<open>The messages and frames of the native protocol\<close>

text \<open>
  \<^verbatim>\<open>internal/nativeproto/protocol.go\<close>: one record per message struct, its encoder and its
  decoder field by field in wire order, and the framing of messages on a byte stream. Each
  message interprets the contract of \<open>NativeCodec\<close> under \<open>ok_\<close>, the condition that its
  strings fit the 32-bit length prefix and its object IDs have 16 bytes (which the Go type
  \<open>[16]byte\<close> enforces).
\<close>

subsection \<open>Attributes\<close>

record Attr =
  at_Ino :: u64
  at_Mode :: u32
  at_Size :: u64
  at_Mtime :: u64
  at_Atime :: u64
  at_Ctime :: u64
  at_Nlink :: u32
  at_UID :: u32
  at_GID :: u32

definition encodeAttr :: "Attr \<Rightarrow> bytes" where
  "encodeAttr attr =
     enc_u64 (at_Ino attr) @ enc_u32 (at_Mode attr) @ enc_u64 (at_Size attr) @
     enc_i64 (at_Mtime attr) @ enc_i64 (at_Atime attr) @ enc_i64 (at_Ctime attr) @
     enc_u32 (at_Nlink attr) @ enc_u32 (at_UID attr) @ enc_u32 (at_GID attr)"

definition decodeAttr :: "Attr dec" where
  "decodeAttr =
     dbind dec_u64 (\<lambda>xIno.
     dbind dec_u32 (\<lambda>xMode.
     dbind dec_u64 (\<lambda>xSize.
     dbind dec_i64 (\<lambda>xMtime.
     dbind dec_i64 (\<lambda>xAtime.
     dbind dec_i64 (\<lambda>xCtime.
     dbind dec_u32 (\<lambda>xNlink.
     dbind dec_u32 (\<lambda>xUID.
     dbind dec_u32 (\<lambda>xGID.
       dret \<lparr>at_Ino = xIno, at_Mode = xMode, at_Size = xSize, at_Mtime = xMtime,
       at_Atime = xAtime, at_Ctime = xCtime, at_Nlink = xNlink, at_UID = xUID, at_GID = xGID\<rparr>)))))))))"

lemma decodeAttr_at [codec_rt]:
  "decodeAttr (at pre (encodeAttr v @ rest)) = Inr (v, at (pre @ encodeAttr v) rest)"
  by (simp add: encodeAttr_def decodeAttr_def dbind_def codec_rt dret_def)

lemma stable_decodeAttr [stable_intros]: "stable decodeAttr"
  unfolding decodeAttr_def by (intro stable_intros)

subsection \<open>\<^verbatim>\<open>HelloRequest\<close>\<close>

record HelloRequest =
  hq_MinVersion :: u16
  hq_MaxVersion :: u16
  hq_RequestedCaps :: u64
  hq_ClientKind :: string
  hq_ClientVersion :: string
  hq_KernelRelease :: string

definition EncodeHelloRequest :: "HelloRequest \<Rightarrow> bytes" where
  "EncodeHelloRequest v =
     enc_u16 (hq_MinVersion v) @ enc_u16 (hq_MaxVersion v) @ enc_u64 (hq_RequestedCaps v) @
     enc_str (hq_ClientKind v) @ enc_str (hq_ClientVersion v) @ enc_str (hq_KernelRelease v)"

definition dec_HelloRequest :: "HelloRequest dec" where
  "dec_HelloRequest =
     dbind dec_u16 (\<lambda>xMinVersion.
     dbind dec_u16 (\<lambda>xMaxVersion.
     dbind dec_u64 (\<lambda>xRequestedCaps.
     dbind dec_str (\<lambda>xClientKind.
     dbind dec_str (\<lambda>xClientVersion.
     dbind dec_str (\<lambda>xKernelRelease.
       dret \<lparr>hq_MinVersion = xMinVersion, hq_MaxVersion = xMaxVersion,
       hq_RequestedCaps = xRequestedCaps, hq_ClientKind = xClientKind,
       hq_ClientVersion = xClientVersion, hq_KernelRelease = xKernelRelease\<rparr>))))))"

definition DecodeHelloRequest :: "bytes \<Rightarrow> (nperror, HelloRequest) result" where
  "DecodeHelloRequest data = run_dec dec_HelloRequest data"

definition ok_HelloRequest :: "HelloRequest \<Rightarrow> bool" where
  "ok_HelloRequest v \<longleftrightarrow> length (hq_ClientKind v) < 2 ^ 32 \<and> length (hq_ClientVersion v) < 2 ^ 32 \<and> length (hq_KernelRelease v) < 2 ^ 32"

interpretation helloRequest: field EncodeHelloRequest dec_HelloRequest ok_HelloRequest
proof
  show "dec_HelloRequest (at pre (EncodeHelloRequest v @ rest)) = Inr (v, at (pre @ EncodeHelloRequest v) rest)" if "ok_HelloRequest v" for v pre rest
    using that by (simp add: EncodeHelloRequest_def dec_HelloRequest_def ok_HelloRequest_def dbind_def codec_rt dret_def)
  show "stable dec_HelloRequest" unfolding dec_HelloRequest_def by (intro stable_intros)
qed

subsection \<open>\<^verbatim>\<open>HelloResponse\<close>\<close>

record HelloResponse =
  hp_SelectedVersion :: u16
  hp_ServerCaps :: u64
  hp_MaxFrameBytes :: u32
  hp_MaxReadBytes :: u32

definition EncodeHelloResponse :: "HelloResponse \<Rightarrow> bytes" where
  "EncodeHelloResponse v =
     enc_u16 (hp_SelectedVersion v) @ enc_u64 (hp_ServerCaps v) @
     enc_u32 (hp_MaxFrameBytes v) @ enc_u32 (hp_MaxReadBytes v)"

subsection \<open>\<^verbatim>\<open>MountRequest\<close>\<close>

record MountRequest =
  mq_ClientID :: string
  mq_Hostname :: string
  mq_AuthToken :: string
  mq_MountFlags :: u32

definition EncodeMountRequest :: "MountRequest \<Rightarrow> bytes" where
  "EncodeMountRequest v =
     enc_u32 (mq_MountFlags v) @ enc_str (mq_ClientID v) @ enc_str (mq_Hostname v) @
     enc_str (mq_AuthToken v)"

definition dec_MountRequest :: "MountRequest dec" where
  "dec_MountRequest =
     dbind dec_u32 (\<lambda>xMountFlags.
     dbind dec_str (\<lambda>xClientID.
     dbind dec_str (\<lambda>xHostname.
     dbind dec_str (\<lambda>xAuthToken.
       dret \<lparr>mq_ClientID = xClientID, mq_Hostname = xHostname,
       mq_AuthToken = xAuthToken, mq_MountFlags = xMountFlags\<rparr>))))"

definition DecodeMountRequest :: "bytes \<Rightarrow> (nperror, MountRequest) result" where
  "DecodeMountRequest data = run_dec dec_MountRequest data"

definition ok_MountRequest :: "MountRequest \<Rightarrow> bool" where
  "ok_MountRequest v \<longleftrightarrow> length (mq_ClientID v) < 2 ^ 32 \<and> length (mq_Hostname v) < 2 ^ 32 \<and> length (mq_AuthToken v) < 2 ^ 32"

interpretation mountRequest: field EncodeMountRequest dec_MountRequest ok_MountRequest
proof
  show "dec_MountRequest (at pre (EncodeMountRequest v @ rest)) = Inr (v, at (pre @ EncodeMountRequest v) rest)" if "ok_MountRequest v" for v pre rest
    using that by (simp add: EncodeMountRequest_def dec_MountRequest_def ok_MountRequest_def dbind_def codec_rt dret_def)
  show "stable dec_MountRequest" unfolding dec_MountRequest_def by (intro stable_intros)
qed

subsection \<open>\<^verbatim>\<open>MountResponse\<close>\<close>

record MountResponse =
  mp_ClusterVersion :: u64
  mp_NamespaceGeneration :: u64
  mp_GuardianVisible :: bool
  mp_RootObjectID :: bytes
  mp_Root :: Attr
  mp_EntryTTLMS :: u32
  mp_AttrTTLMS :: u32
  mp_DirTTLMS :: u32
  mp_RouteTTLMS :: u32

definition EncodeMountResponse :: "MountResponse \<Rightarrow> bytes" where
  "EncodeMountResponse v =
     enc_u64 (mp_ClusterVersion v) @ enc_u64 (mp_NamespaceGeneration v) @
     enc_bool (mp_GuardianVisible v) @ enc_objectID (mp_RootObjectID v) @
     encodeAttr (mp_Root v) @ enc_u32 (mp_EntryTTLMS v) @ enc_u32 (mp_AttrTTLMS v) @
     enc_u32 (mp_DirTTLMS v) @ enc_u32 (mp_RouteTTLMS v)"

definition dec_MountResponse :: "MountResponse dec" where
  "dec_MountResponse =
     dbind dec_u64 (\<lambda>xClusterVersion.
     dbind dec_u64 (\<lambda>xNamespaceGeneration.
     dbind dec_bool (\<lambda>xGuardianVisible.
     dbind dec_objectID (\<lambda>xRootObjectID.
     dbind decodeAttr (\<lambda>xRoot.
     dbind dec_u32 (\<lambda>xEntryTTLMS.
     dbind dec_u32 (\<lambda>xAttrTTLMS.
     dbind dec_u32 (\<lambda>xDirTTLMS.
     dbind dec_u32 (\<lambda>xRouteTTLMS.
       dret \<lparr>mp_ClusterVersion = xClusterVersion,
       mp_NamespaceGeneration = xNamespaceGeneration, mp_GuardianVisible = xGuardianVisible,
       mp_RootObjectID = xRootObjectID, mp_Root = xRoot, mp_EntryTTLMS = xEntryTTLMS,
       mp_AttrTTLMS = xAttrTTLMS, mp_DirTTLMS = xDirTTLMS, mp_RouteTTLMS = xRouteTTLMS\<rparr>)))))))))"

definition DecodeMountResponse :: "bytes \<Rightarrow> (nperror, MountResponse) result" where
  "DecodeMountResponse data = run_dec dec_MountResponse data"

definition ok_MountResponse :: "MountResponse \<Rightarrow> bool" where
  "ok_MountResponse v \<longleftrightarrow> length (mp_RootObjectID v) = 16"

interpretation mountResponse: field EncodeMountResponse dec_MountResponse ok_MountResponse
proof
  show "dec_MountResponse (at pre (EncodeMountResponse v @ rest)) = Inr (v, at (pre @ EncodeMountResponse v) rest)" if "ok_MountResponse v" for v pre rest
    using that by (simp add: EncodeMountResponse_def dec_MountResponse_def ok_MountResponse_def dbind_def codec_rt dret_def)
  show "stable dec_MountResponse" unfolding dec_MountResponse_def by (intro stable_intros)
qed

subsection \<open>\<^verbatim>\<open>LookupRequest\<close>\<close>

record LookupRequest =
  lq_ParentObjectID :: bytes
  lq_Name :: string

definition EncodeLookupRequest :: "LookupRequest \<Rightarrow> bytes" where
  "EncodeLookupRequest v =
     enc_objectID (lq_ParentObjectID v) @ enc_str (lq_Name v)"

definition dec_LookupRequest :: "LookupRequest dec" where
  "dec_LookupRequest =
     dbind dec_objectID (\<lambda>xParentObjectID.
     dbind dec_str (\<lambda>xName.
       dret \<lparr>lq_ParentObjectID = xParentObjectID, lq_Name = xName\<rparr>))"

definition DecodeLookupRequest :: "bytes \<Rightarrow> (nperror, LookupRequest) result" where
  "DecodeLookupRequest data = run_dec dec_LookupRequest data"

definition ok_LookupRequest :: "LookupRequest \<Rightarrow> bool" where
  "ok_LookupRequest v \<longleftrightarrow> length (lq_ParentObjectID v) = 16 \<and> length (lq_Name v) < 2 ^ 32"

interpretation lookupRequest: field EncodeLookupRequest dec_LookupRequest ok_LookupRequest
proof
  show "dec_LookupRequest (at pre (EncodeLookupRequest v @ rest)) = Inr (v, at (pre @ EncodeLookupRequest v) rest)" if "ok_LookupRequest v" for v pre rest
    using that by (simp add: EncodeLookupRequest_def dec_LookupRequest_def ok_LookupRequest_def dbind_def codec_rt dret_def)
  show "stable dec_LookupRequest" unfolding dec_LookupRequest_def by (intro stable_intros)
qed

subsection \<open>\<^verbatim>\<open>GetAttrRequest\<close>\<close>

record GetAttrRequest =
  gq_ObjectID :: bytes

definition EncodeGetAttrRequest :: "GetAttrRequest \<Rightarrow> bytes" where
  "EncodeGetAttrRequest v =
     enc_objectID (gq_ObjectID v)"

definition dec_GetAttrRequest :: "GetAttrRequest dec" where
  "dec_GetAttrRequest =
     dbind dec_objectID (\<lambda>xObjectID.
       dret \<lparr>gq_ObjectID = xObjectID\<rparr>)"

definition DecodeGetAttrRequest :: "bytes \<Rightarrow> (nperror, GetAttrRequest) result" where
  "DecodeGetAttrRequest data = run_dec dec_GetAttrRequest data"

definition ok_GetAttrRequest :: "GetAttrRequest \<Rightarrow> bool" where
  "ok_GetAttrRequest v \<longleftrightarrow> length (gq_ObjectID v) = 16"

interpretation getAttrRequest: field EncodeGetAttrRequest dec_GetAttrRequest ok_GetAttrRequest
proof
  show "dec_GetAttrRequest (at pre (EncodeGetAttrRequest v @ rest)) = Inr (v, at (pre @ EncodeGetAttrRequest v) rest)" if "ok_GetAttrRequest v" for v pre rest
    using that by (simp add: EncodeGetAttrRequest_def dec_GetAttrRequest_def ok_GetAttrRequest_def dbind_def codec_rt dret_def)
  show "stable dec_GetAttrRequest" unfolding dec_GetAttrRequest_def by (intro stable_intros)
qed

subsection \<open>\<^verbatim>\<open>ReadDirRequest\<close>\<close>

record ReadDirRequest =
  rq_DirObjectID :: bytes
  rq_Cookie :: u64
  rq_MaxEntries :: u32
  rq_MaxBytes :: u32

definition EncodeReadDirRequest :: "ReadDirRequest \<Rightarrow> bytes" where
  "EncodeReadDirRequest v =
     enc_objectID (rq_DirObjectID v) @ enc_u64 (rq_Cookie v) @ enc_u32 (rq_MaxEntries v) @
     enc_u32 (rq_MaxBytes v)"

definition dec_ReadDirRequest :: "ReadDirRequest dec" where
  "dec_ReadDirRequest =
     dbind dec_objectID (\<lambda>xDirObjectID.
     dbind dec_u64 (\<lambda>xCookie.
     dbind dec_u32 (\<lambda>xMaxEntries.
     dbind dec_u32 (\<lambda>xMaxBytes.
       dret \<lparr>rq_DirObjectID = xDirObjectID, rq_Cookie = xCookie,
       rq_MaxEntries = xMaxEntries, rq_MaxBytes = xMaxBytes\<rparr>))))"

definition DecodeReadDirRequest :: "bytes \<Rightarrow> (nperror, ReadDirRequest) result" where
  "DecodeReadDirRequest data = run_dec dec_ReadDirRequest data"

definition ok_ReadDirRequest :: "ReadDirRequest \<Rightarrow> bool" where
  "ok_ReadDirRequest v \<longleftrightarrow> length (rq_DirObjectID v) = 16"

interpretation readDirRequest: field EncodeReadDirRequest dec_ReadDirRequest ok_ReadDirRequest
proof
  show "dec_ReadDirRequest (at pre (EncodeReadDirRequest v @ rest)) = Inr (v, at (pre @ EncodeReadDirRequest v) rest)" if "ok_ReadDirRequest v" for v pre rest
    using that by (simp add: EncodeReadDirRequest_def dec_ReadDirRequest_def ok_ReadDirRequest_def dbind_def codec_rt dret_def)
  show "stable dec_ReadDirRequest" unfolding dec_ReadDirRequest_def by (intro stable_intros)
qed

subsection \<open>\<^verbatim>\<open>StatFSResponse\<close>\<close>

record StatFSResponse =
  sp_Blocks :: u64
  sp_Bfree :: u64
  sp_Bavail :: u64
  sp_Files :: u64
  sp_Ffree :: u64
  sp_Bsize :: u32
  sp_Frsize :: u32
  sp_NameLen :: u32

definition EncodeStatFSResponse :: "StatFSResponse \<Rightarrow> bytes" where
  "EncodeStatFSResponse v =
     enc_u64 (sp_Blocks v) @ enc_u64 (sp_Bfree v) @ enc_u64 (sp_Bavail v) @
     enc_u64 (sp_Files v) @ enc_u64 (sp_Ffree v) @ enc_u32 (sp_Bsize v) @
     enc_u32 (sp_Frsize v) @ enc_u32 (sp_NameLen v)"

definition dec_StatFSResponse :: "StatFSResponse dec" where
  "dec_StatFSResponse =
     dbind dec_u64 (\<lambda>xBlocks.
     dbind dec_u64 (\<lambda>xBfree.
     dbind dec_u64 (\<lambda>xBavail.
     dbind dec_u64 (\<lambda>xFiles.
     dbind dec_u64 (\<lambda>xFfree.
     dbind dec_u32 (\<lambda>xBsize.
     dbind dec_u32 (\<lambda>xFrsize.
     dbind dec_u32 (\<lambda>xNameLen.
       dret \<lparr>sp_Blocks = xBlocks, sp_Bfree = xBfree, sp_Bavail = xBavail,
       sp_Files = xFiles, sp_Ffree = xFfree, sp_Bsize = xBsize, sp_Frsize = xFrsize,
       sp_NameLen = xNameLen\<rparr>))))))))"

definition DecodeStatFSResponse :: "bytes \<Rightarrow> (nperror, StatFSResponse) result" where
  "DecodeStatFSResponse data = run_dec dec_StatFSResponse data"

definition ok_StatFSResponse :: "StatFSResponse \<Rightarrow> bool" where
  "ok_StatFSResponse v \<longleftrightarrow> True"

interpretation statFSResponse: field EncodeStatFSResponse dec_StatFSResponse ok_StatFSResponse
proof
  show "dec_StatFSResponse (at pre (EncodeStatFSResponse v @ rest)) = Inr (v, at (pre @ EncodeStatFSResponse v) rest)" if "ok_StatFSResponse v" for v pre rest
    using that by (simp add: EncodeStatFSResponse_def dec_StatFSResponse_def ok_StatFSResponse_def dbind_def codec_rt dret_def)
  show "stable dec_StatFSResponse" unfolding dec_StatFSResponse_def by (intro stable_intros)
qed

subsection \<open>\<^verbatim>\<open>OpenReadRequest\<close>\<close>

record OpenReadRequest =
  oq_ObjectID :: bytes

definition EncodeOpenReadRequest :: "OpenReadRequest \<Rightarrow> bytes" where
  "EncodeOpenReadRequest v =
     enc_objectID (oq_ObjectID v)"

definition dec_OpenReadRequest :: "OpenReadRequest dec" where
  "dec_OpenReadRequest =
     dbind dec_objectID (\<lambda>xObjectID.
       dret \<lparr>oq_ObjectID = xObjectID\<rparr>)"

definition DecodeOpenReadRequest :: "bytes \<Rightarrow> (nperror, OpenReadRequest) result" where
  "DecodeOpenReadRequest data = run_dec dec_OpenReadRequest data"

definition ok_OpenReadRequest :: "OpenReadRequest \<Rightarrow> bool" where
  "ok_OpenReadRequest v \<longleftrightarrow> length (oq_ObjectID v) = 16"

interpretation openReadRequest: field EncodeOpenReadRequest dec_OpenReadRequest ok_OpenReadRequest
proof
  show "dec_OpenReadRequest (at pre (EncodeOpenReadRequest v @ rest)) = Inr (v, at (pre @ EncodeOpenReadRequest v) rest)" if "ok_OpenReadRequest v" for v pre rest
    using that by (simp add: EncodeOpenReadRequest_def dec_OpenReadRequest_def ok_OpenReadRequest_def dbind_def codec_rt dret_def)
  show "stable dec_OpenReadRequest" unfolding dec_OpenReadRequest_def by (intro stable_intros)
qed

subsection \<open>\<^verbatim>\<open>OpenReadResponse\<close>\<close>

record OpenReadResponse =
  op_HandleID :: u64
  op_Attr :: Attr
  op_RouteTTLMS :: u32

definition EncodeOpenReadResponse :: "OpenReadResponse \<Rightarrow> bytes" where
  "EncodeOpenReadResponse v =
     enc_u64 (op_HandleID v) @ encodeAttr (op_Attr v) @ enc_u32 (op_RouteTTLMS v)"

definition dec_OpenReadResponse :: "OpenReadResponse dec" where
  "dec_OpenReadResponse =
     dbind dec_u64 (\<lambda>xHandleID.
     dbind decodeAttr (\<lambda>xAttr.
     dbind dec_u32 (\<lambda>xRouteTTLMS.
       dret \<lparr>op_HandleID = xHandleID, op_Attr = xAttr, op_RouteTTLMS = xRouteTTLMS\<rparr>)))"

definition DecodeOpenReadResponse :: "bytes \<Rightarrow> (nperror, OpenReadResponse) result" where
  "DecodeOpenReadResponse data = run_dec dec_OpenReadResponse data"

definition ok_OpenReadResponse :: "OpenReadResponse \<Rightarrow> bool" where
  "ok_OpenReadResponse v \<longleftrightarrow> True"

interpretation openReadResponse: field EncodeOpenReadResponse dec_OpenReadResponse ok_OpenReadResponse
proof
  show "dec_OpenReadResponse (at pre (EncodeOpenReadResponse v @ rest)) = Inr (v, at (pre @ EncodeOpenReadResponse v) rest)" if "ok_OpenReadResponse v" for v pre rest
    using that by (simp add: EncodeOpenReadResponse_def dec_OpenReadResponse_def ok_OpenReadResponse_def dbind_def codec_rt dret_def)
  show "stable dec_OpenReadResponse" unfolding dec_OpenReadResponse_def by (intro stable_intros)
qed

subsection \<open>\<^verbatim>\<open>ReadRequest\<close>\<close>

record ReadRequest =
  eq_HandleID :: u64
  eq_Offset :: u64
  eq_Length :: u32

definition EncodeReadRequest :: "ReadRequest \<Rightarrow> bytes" where
  "EncodeReadRequest v =
     enc_u64 (eq_HandleID v) @ enc_u64 (eq_Offset v) @ enc_u32 (eq_Length v)"

definition dec_ReadRequest :: "ReadRequest dec" where
  "dec_ReadRequest =
     dbind dec_u64 (\<lambda>xHandleID.
     dbind dec_u64 (\<lambda>xOffset.
     dbind dec_u32 (\<lambda>xLength.
       dret \<lparr>eq_HandleID = xHandleID, eq_Offset = xOffset, eq_Length = xLength\<rparr>)))"

definition DecodeReadRequest :: "bytes \<Rightarrow> (nperror, ReadRequest) result" where
  "DecodeReadRequest data = run_dec dec_ReadRequest data"

definition ok_ReadRequest :: "ReadRequest \<Rightarrow> bool" where
  "ok_ReadRequest v \<longleftrightarrow> True"

interpretation readRequest: field EncodeReadRequest dec_ReadRequest ok_ReadRequest
proof
  show "dec_ReadRequest (at pre (EncodeReadRequest v @ rest)) = Inr (v, at (pre @ EncodeReadRequest v) rest)" if "ok_ReadRequest v" for v pre rest
    using that by (simp add: EncodeReadRequest_def dec_ReadRequest_def ok_ReadRequest_def dbind_def codec_rt dret_def)
  show "stable dec_ReadRequest" unfolding dec_ReadRequest_def by (intro stable_intros)
qed

subsection \<open>\<^verbatim>\<open>CloseRequest\<close>\<close>

record CloseRequest =
  cq_HandleID :: u64

definition EncodeCloseRequest :: "CloseRequest \<Rightarrow> bytes" where
  "EncodeCloseRequest v =
     enc_u64 (cq_HandleID v)"

definition dec_CloseRequest :: "CloseRequest dec" where
  "dec_CloseRequest =
     dbind dec_u64 (\<lambda>xHandleID.
       dret \<lparr>cq_HandleID = xHandleID\<rparr>)"

definition DecodeCloseRequest :: "bytes \<Rightarrow> (nperror, CloseRequest) result" where
  "DecodeCloseRequest data = run_dec dec_CloseRequest data"

definition ok_CloseRequest :: "CloseRequest \<Rightarrow> bool" where
  "ok_CloseRequest v \<longleftrightarrow> True"

interpretation closeRequest: field EncodeCloseRequest dec_CloseRequest ok_CloseRequest
proof
  show "dec_CloseRequest (at pre (EncodeCloseRequest v @ rest)) = Inr (v, at (pre @ EncodeCloseRequest v) rest)" if "ok_CloseRequest v" for v pre rest
    using that by (simp add: EncodeCloseRequest_def dec_CloseRequest_def ok_CloseRequest_def dbind_def codec_rt dret_def)
  show "stable dec_CloseRequest" unfolding dec_CloseRequest_def by (intro stable_intros)
qed

subsection \<open>\<^verbatim>\<open>LookupResponse\<close>, \<^verbatim>\<open>GetAttrResponse\<close>\<close>

text \<open>The Go zero values that a decoder leaves in the fields it does not read.\<close>

definition zero_ObjectID :: bytes where "zero_ObjectID = replicate 16 0"

definition zero_Attr :: Attr where
  "zero_Attr = \<lparr>at_Ino = 0, at_Mode = 0, at_Size = 0, at_Mtime = 0, at_Atime = 0, at_Ctime = 0,
     at_Nlink = 0, at_UID = 0, at_GID = 0\<rparr>"

record LookupResponse =
  lp_Found :: bool
  lp_EntryTTLMS :: u32
  lp_ObjectID :: bytes
  lp_Attr :: Attr

definition EncodeLookupResponse :: "LookupResponse \<Rightarrow> bytes" where
  "EncodeLookupResponse v =
     enc_bool (lp_Found v) @ enc_u32 (lp_EntryTTLMS v) @
     (if lp_Found v then enc_objectID (lp_ObjectID v) @ encodeAttr (lp_Attr v) else [])"

definition dec_LookupResponse :: "LookupResponse dec" where
  "dec_LookupResponse =
     dbind dec_bool (\<lambda>xFound.
     dbind dec_u32 (\<lambda>xTTL.
       if xFound then
         dbind dec_objectID (\<lambda>xObjectID.
         dbind decodeAttr (\<lambda>xAttr.
           dret \<lparr>lp_Found = xFound, lp_EntryTTLMS = xTTL, lp_ObjectID = xObjectID, lp_Attr = xAttr\<rparr>))
       else dret \<lparr>lp_Found = xFound, lp_EntryTTLMS = xTTL, lp_ObjectID = zero_ObjectID,
                   lp_Attr = zero_Attr\<rparr>))"

definition DecodeLookupResponse :: "bytes \<Rightarrow> (nperror, LookupResponse) result" where
  "DecodeLookupResponse data = run_dec dec_LookupResponse data"

definition ok_LookupResponse :: "LookupResponse \<Rightarrow> bool" where
  "ok_LookupResponse v \<longleftrightarrow> (if lp_Found v then length (lp_ObjectID v) = 16
     else lp_ObjectID v = zero_ObjectID \<and> lp_Attr v = zero_Attr)"

lemma stable_if [stable_intros]: "stable m \<Longrightarrow> stable m' \<Longrightarrow> stable (if b then m else m')"
  by simp

interpretation lookupResponse: field EncodeLookupResponse dec_LookupResponse ok_LookupResponse
proof
  show "dec_LookupResponse (at pre (EncodeLookupResponse v @ rest))
      = Inr (v, at (pre @ EncodeLookupResponse v) rest)" if "ok_LookupResponse v" for v pre rest
    using that by (cases v) (auto simp: EncodeLookupResponse_def dec_LookupResponse_def ok_LookupResponse_def
        dbind_def codec_rt dret_def)
  show "stable dec_LookupResponse" unfolding dec_LookupResponse_def by (intro stable_intros)
qed

record GetAttrResponse =
  gp_Found :: bool
  gp_AttrTTLMS :: u32
  gp_Attr :: Attr

definition EncodeGetAttrResponse :: "GetAttrResponse \<Rightarrow> bytes" where
  "EncodeGetAttrResponse v =
     enc_bool (gp_Found v) @ enc_u32 (gp_AttrTTLMS v) @
     (if gp_Found v then encodeAttr (gp_Attr v) else [])"

subsection \<open>\<^verbatim>\<open>ReadDirResponse\<close>\<close>

record DirEntry =
  de_Name :: string
  de_ObjectID :: bytes
  de_Ino :: u64
  de_Mode :: u32

record ReadDirResponse =
  rp_DirTTLMS :: u32
  rp_NextCookie :: u64
  rp_EOF :: bool
  rp_Entries :: "DirEntry list"

fun enc_entries :: "DirEntry list \<Rightarrow> bytes" where
  "enc_entries [] = []"
| "enc_entries (e # es) =
     (enc_str (de_Name e) @ enc_objectID (de_ObjectID e) @ enc_u64 (de_Ino e) @ enc_u32 (de_Mode e))
     @ enc_entries es"

definition EncodeReadDirResponse :: "ReadDirResponse \<Rightarrow> bytes" where
  "EncodeReadDirResponse v =
     enc_u32 (rp_DirTTLMS v) @ enc_u64 (rp_NextCookie v) @ enc_bool (rp_EOF v) @
     enc_u32 (of_nat (length (rp_Entries v))) @ enc_entries (rp_Entries v)"

definition dec_entry :: "DirEntry dec" where
  "dec_entry =
     dbind dec_str (\<lambda>xName.
     dbind dec_objectID (\<lambda>xObjectID.
     dbind dec_u64 (\<lambda>xIno.
     dbind dec_u32 (\<lambda>xMode.
       dret \<lparr>de_Name = xName, de_ObjectID = xObjectID, de_Ino = xIno, de_Mode = xMode\<rparr>))))"

fun dec_entries :: "nat \<Rightarrow> DirEntry list dec" where
  "dec_entries 0 = dret []"
| "dec_entries (Suc n) = dbind dec_entry (\<lambda>e. dbind (dec_entries n) (\<lambda>es. dret (e # es)))"

definition dec_ReadDirResponse :: "ReadDirResponse dec" where
  "dec_ReadDirResponse =
     dbind dec_u32 (\<lambda>xDirTTLMS.
     dbind dec_u64 (\<lambda>xNextCookie.
     dbind dec_bool (\<lambda>xEOF.
     dbind dec_u32 (\<lambda>count d.
       if remaining d < int (unat count) then Inl ErrUnexpectedEOF
       else dbind (dec_entries (unat count)) (\<lambda>xEntries.
         dret \<lparr>rp_DirTTLMS = xDirTTLMS, rp_NextCookie = xNextCookie, rp_EOF = xEOF,
               rp_Entries = xEntries\<rparr>) d))))"

definition DecodeReadDirResponse :: "bytes \<Rightarrow> (nperror, ReadDirResponse) result" where
  "DecodeReadDirResponse data = run_dec dec_ReadDirResponse data"

definition ok_DirEntry :: "DirEntry \<Rightarrow> bool" where
  "ok_DirEntry e \<longleftrightarrow> length (de_Name e) < 2 ^ 32 \<and> length (de_ObjectID e) = 16"

definition ok_ReadDirResponse :: "ReadDirResponse \<Rightarrow> bool" where
  "ok_ReadDirResponse v \<longleftrightarrow> length (rp_Entries v) < 2 ^ 32 \<and> (\<forall>e \<in> set (rp_Entries v). ok_DirEntry e)"

lemma stable_dec_entry [stable_intros]: "stable dec_entry"
  unfolding dec_entry_def by (intro stable_intros)

lemma stable_dec_entries [stable_intros]: "stable (dec_entries n)"
  by (induction n) (auto intro!: stable_intros)

lemma min_use_dec_entry: "min_use 32 dec_entry"
proof -
  have "min_use (4 + (16 + (8 + (4 + 0)))) dec_entry"
    unfolding dec_entry_def
    by (intro min_use_dbind min_use_dret min_use_str min_use_objectID min_use_u64 min_use_u32 stable_intros)
  then show ?thesis by simp
qed

lemma min_use_dec_entries: "min_use (32 * n) (dec_entries n)"
proof (induction n)
  case (Suc n)
  have "min_use (32 + (32 * n + 0)) (dec_entries (Suc n))"
    unfolding dec_entries.simps
    by (intro min_use_dbind min_use_dret min_use_dec_entry stable_intros Suc.IH)
  then show ?case by simp
qed (simp add: min_use_dret)

lemma dec_entries_at [codec_rt]:
  "\<forall>e \<in> set es. ok_DirEntry e \<Longrightarrow> dec_entries (length es) (at pre (enc_entries es @ rest))
     = Inr (es, at (pre @ enc_entries es) rest)"
proof (induction es arbitrary: pre)
  case (Cons e es)
  then have "ok_DirEntry e" and IH: "\<And>pre. dec_entries (length es) (at pre (enc_entries es @ rest))
     = Inr (es, at (pre @ enc_entries es) rest)" by auto
  then show ?case
    by (simp add: ok_DirEntry_def dec_entry_def dbind_def codec_rt dret_def)
qed (simp add: dret_def)

lemma length_enc_entries: "length es \<le> length (enc_entries es)"
  by (induction es) (auto simp: enc_str_def enc_u32_def)

interpretation readDirResponse: field EncodeReadDirResponse dec_ReadDirResponse ok_ReadDirResponse
proof
  show "dec_ReadDirResponse (at pre (EncodeReadDirResponse v @ rest))
      = Inr (v, at (pre @ EncodeReadDirResponse v) rest)" if "ok_ReadDirResponse v" for v pre rest
  proof -
    have "unat (of_nat (length (rp_Entries v)) :: u32) = length (rp_Entries v)"
      using that by (simp add: ok_ReadDirResponse_def unat_of_nat)
    moreover have "\<not> int (length (enc_entries (rp_Entries v)) + length rest) < int (length (rp_Entries v))"
      using length_enc_entries [of "rp_Entries v"] by simp
    ultimately show ?thesis
      using that by (simp add: EncodeReadDirResponse_def dec_ReadDirResponse_def ok_ReadDirResponse_def
          dbind_def codec_rt dret_def del: of_nat_unat)
  qed
  show "stable dec_ReadDirResponse" unfolding dec_ReadDirResponse_def
    by (intro stable_intros stable_guard min_use_mono [OF min_use_dbind [OF stable_dec_entries min_use_dec_entries min_use_dret]]) simp
qed

subsection \<open>\<^verbatim>\<open>ReadResponse\<close>\<close>

record ReadResponse =
  ep_EOF :: bool
  ep_Data :: bytes

definition EncodeReadResponse :: "ReadResponse \<Rightarrow> bytes" where
  "EncodeReadResponse v =
     enc_bool (ep_EOF v) @ enc_u32 (of_nat (length (ep_Data v))) @ ep_Data v"

text \<open>The Go function does not advance the decoder past the data.\<close>

definition DecodeReadResponse :: "bytes \<Rightarrow> (nperror, ReadResponse) result" where
  "DecodeReadResponse data =
     run_dec (dbind dec_bool (\<lambda>xEOF.
       dbind dec_u32 (\<lambda>size d.
         if remaining d < int (unat size) then Inl ErrUnexpectedEOF
         else Inr (\<lparr>ep_EOF = xEOF, ep_Data = slice_at d (unat size)\<rparr>, d)))) data"

definition ok_ReadResponse :: "ReadResponse \<Rightarrow> bool" where
  "ok_ReadResponse v \<longleftrightarrow> length (ep_Data v) < 2 ^ 32"

definition dec_ReadResponse :: "ReadResponse dec" where
  "dec_ReadResponse =
     dbind dec_bool (\<lambda>xEOF.
     dbind dec_u32 (\<lambda>size d.
       if remaining d < int (unat size) then Inl ErrUnexpectedEOF
       else Inr (\<lparr>ep_EOF = xEOF, ep_Data = slice_at d (unat size)\<rparr>, advance (unat size) d)))"

interpretation readResponse_adv: field EncodeReadResponse dec_ReadResponse ok_ReadResponse
proof
  show "dec_ReadResponse (at pre (EncodeReadResponse v @ rest))
      = Inr (v, at (pre @ EncodeReadResponse v) rest)" if "ok_ReadResponse v" for v pre rest
  proof -
    have "unat (of_nat (length (ep_Data v)) :: u32) = length (ep_Data v)"
      using that by (simp add: ok_ReadResponse_def unat_of_nat)
    then show ?thesis
      by (simp add: EncodeReadResponse_def dec_ReadResponse_def dbind_def codec_rt del: of_nat_unat)
  qed
  have "stable (\<lambda>d. if remaining d < int (unat size) then Inl ErrUnexpectedEOF
       else Inr (\<lparr>ep_EOF = e, ep_Data = slice_at d (unat size)\<rparr>, advance (unat size) d))"
    for size :: u32 and e
    by (rule stableI [of "unat size" _ "\<lambda>b. \<lparr>ep_EOF = e, ep_Data = b\<rparr>"]) (auto simp del: of_nat_unat)
  then show "stable dec_ReadResponse" unfolding dec_ReadResponse_def by (intro stable_intros)
qed

lemma DecodeReadResponse_eq: "DecodeReadResponse data = run_dec dec_ReadResponse data"
  by (simp add: DecodeReadResponse_def dec_ReadResponse_def run_dec_def dbind_def split: sum.split)

interpretation readResponse: codec EncodeReadResponse DecodeReadResponse ok_ReadResponse
  unfolding DecodeReadResponse_eq by (rule readResponse_adv.codec_axioms)

subsection \<open>Frames\<close>

record Header =
  h_Magic :: u32
  h_Version :: u16
  h_Opcode :: u16
  h_Flags :: u32
  h_HeaderLen :: u32
  h_BodyLen :: u32
  h_RequestID :: u64
  h_SessionID :: u64
  h_Status :: u32
  h_Reserved :: u32
  h_Generation :: u64

definition FrameMagic :: u32 where "FrameMagic = 0x53464e4d"
definition Version1 :: u16 where "Version1 = 1"
definition HeaderSize :: nat where "HeaderSize = 52"
definition MaxFrameBytes :: u32 where "MaxFrameBytes = 2 ^ 20"

text \<open>\<^verbatim>\<open>io.ReadFull\<close> on the bytes the peer will still send before it closes the connection: it
  fails with \<open>io.EOF\<close> when it gets none of the bytes it wants, with
  \<open>io.ErrUnexpectedEOF\<close> when it gets some of them.\<close>

definition ReadFull :: "nat \<Rightarrow> bytes \<Rightarrow> (nperror, bytes \<times> bytes) result" where
  "ReadFull n r = (if n \<le> length r then Inr (take n r, drop n r)
     else if r = [] then Inl ErrEOF else Inl ErrUnexpectedEOF)"

definition get_header :: "bytes \<Rightarrow> Header" where
  "get_header raw =
     \<lparr>h_Magic = get_le (take 4 raw),
      h_Version = get_le (take 2 (drop 4 raw)),
      h_Opcode = get_le (take 2 (drop 6 raw)),
      h_Flags = get_le (take 4 (drop 8 raw)),
      h_HeaderLen = get_le (take 4 (drop 12 raw)),
      h_BodyLen = get_le (take 4 (drop 16 raw)),
      h_RequestID = get_le (take 8 (drop 20 raw)),
      h_SessionID = get_le (take 8 (drop 28 raw)),
      h_Status = get_le (take 4 (drop 36 raw)),
      h_Reserved = get_le (take 4 (drop 40 raw)),
      h_Generation = get_le (take 8 (drop 44 raw))\<rparr>"

definition ReadFrame :: "bytes \<Rightarrow> (nperror, (Header \<times> bytes) \<times> bytes) result" where
  "ReadFrame r =
     (case ReadFull HeaderSize r of
        Inl e \<Rightarrow> Inl e
      | Inr (raw, r1) \<Rightarrow>
          (let hdr = get_header raw in
           if h_Magic hdr \<noteq> FrameMagic then Inl (InvalidMagic (h_Magic hdr))
           else if h_Version hdr \<noteq> Version1 then Inl (UnsupportedVersion (h_Version hdr))
           else if h_HeaderLen hdr \<noteq> of_nat HeaderSize then Inl (UnexpectedHeaderLen (h_HeaderLen hdr))
           else if h_BodyLen hdr > MaxFrameBytes then Inl (BodyTooLarge (unat (h_BodyLen hdr)))
           else case ReadFull (unat (h_BodyLen hdr)) r1 of
             Inl e \<Rightarrow> Inl e
           | Inr (body, r2) \<Rightarrow> Inr ((hdr, body), r2)))"

definition put_header :: "Header \<Rightarrow> bytes" where
  "put_header hdr =
     put_le 4 (h_Magic hdr) @ put_le 2 (h_Version hdr) @ put_le 2 (h_Opcode hdr) @
     put_le 4 (h_Flags hdr) @ put_le 4 (h_HeaderLen hdr) @ put_le 4 (h_BodyLen hdr) @
     put_le 8 (h_RequestID hdr) @ put_le 8 (h_SessionID hdr) @ put_le 4 (h_Status hdr) @
     put_le 4 (h_Reserved hdr) @ put_le 8 (h_Generation hdr)"

text \<open>The fields \<open>WriteFrame\<close> fills in.\<close>

definition frame_header :: "Header \<Rightarrow> bytes \<Rightarrow> Header" where
  "frame_header hdr body =
     hdr\<lparr>h_Magic := FrameMagic, h_Version := Version1, h_HeaderLen := of_nat HeaderSize,
         h_BodyLen := of_nat (length body)\<rparr>"

text \<open>\<open>WriteFrame\<close> gives the bytes it writes; an error of the underlying writer is not modelled.\<close>

definition WriteFrame :: "Header \<Rightarrow> bytes \<Rightarrow> (nperror, bytes) result" where
  "WriteFrame hdr body =
     (if length body > unat MaxFrameBytes then Inl (BodyTooLarge (length body))
      else if body = [] then Inr (put_header (frame_header hdr body))
      else Inr (put_header (frame_header hdr body) @ body))"

lemma length_put_header [simp]: "length (put_header hdr) = 52"
  by (simp add: put_header_def)

lemma get_put_header [simp]: "get_header (put_header hdr) = hdr"
  by (cases hdr) (simp add: get_header_def put_header_def)

lemma WriteFrame_eq:
  "length body \<le> unat MaxFrameBytes \<Longrightarrow> WriteFrame hdr body = Inr (put_header (frame_header hdr body) @ body)"
  by (simp add: WriteFrame_def)

lemma ReadFrame_written:
  assumes "length body \<le> unat MaxFrameBytes"
  shows "ReadFrame (put_header (frame_header hdr body) @ body @ rest) = Inr ((frame_header hdr body, body), rest)"
proof -
  have "length body < 2 ^ 32" using assms by (simp add: MaxFrameBytes_def)
  then have len: "unat (of_nat (length body) :: u32) = length body" by (simp add: unat_of_nat)
  then have "\<not> (of_nat (length body) :: u32) > MaxFrameBytes"
    using assms by (simp add: word_less_nat_alt)
  then show ?thesis using len
    by (simp add: ReadFrame_def ReadFull_def HeaderSize_def frame_header_def)
qed

lemma put_get_header:
  assumes "length raw = 52" shows "put_header (get_header raw) = raw"
proof -
  have step: "take n (drop k raw) @ drop m raw = drop k raw" if "m = n + k" for n k m
    using append_take_drop_id [of n "drop k raw"] that by simp
  have last: "take 8 (drop 44 raw) = drop 44 raw" using assms by simp
  show ?thesis using assms by (simp add: put_header_def get_header_def last step)
qed

text \<open>What the interpretations give for every message.\<close>

lemmas Decode_defs =
  DecodeHelloRequest_def DecodeMountRequest_def DecodeMountResponse_def DecodeLookupRequest_def
  DecodeLookupResponse_def DecodeGetAttrRequest_def DecodeReadDirRequest_def
  DecodeReadDirResponse_def DecodeStatFSResponse_def DecodeOpenReadRequest_def
  DecodeOpenReadResponse_def DecodeReadRequest_def DecodeCloseRequest_def

lemmas decode_encodes =
  helloRequest.decode_encode mountRequest.decode_encode mountResponse.decode_encode
  lookupRequest.decode_encode lookupResponse.decode_encode getAttrRequest.decode_encode
  readDirRequest.decode_encode readDirResponse.decode_encode statFSResponse.decode_encode
  openReadRequest.decode_encode openReadResponse.decode_encode readRequest.decode_encode
  closeRequest.decode_encode readResponse.decode_encode

lemmas decode_truncateds =
  helloRequest.decode_truncated mountRequest.decode_truncated mountResponse.decode_truncated
  lookupRequest.decode_truncated lookupResponse.decode_truncated getAttrRequest.decode_truncated
  readDirRequest.decode_truncated readDirResponse.decode_truncated statFSResponse.decode_truncated
  openReadRequest.decode_truncated openReadResponse.decode_truncated readRequest.decode_truncated
  closeRequest.decode_truncated readResponse.decode_truncated

subsection \<open>Properties\<close>


definition hello_example :: HelloRequest where
  "hello_example = \<lparr>hq_MinVersion = 1, hq_MaxVersion = 1, hq_RequestedCaps = 3,
     hq_ClientKind = ''linux'', hq_ClientVersion = ''0.1'', hq_KernelRelease = ''6.8''\<rparr>"

definition dir_example :: ReadDirResponse where
  "dir_example = \<lparr>rp_DirTTLMS = 1000, rp_NextCookie = 0, rp_EOF = True,
     rp_Entries = [\<lparr>de_Name = ''a.go'', de_ObjectID = zero_ObjectID, de_Ino = 7, de_Mode = 33188\<rparr>]\<rparr>"




text \<open>Frames on a stream. A frame that \<open>WriteFrame\<close> accepts is read back from the stream
  with the header it filled in and the same body, leaving exactly the bytes that follow; a
  stream that ends inside the frame gives an end-of-file error; a body over 1 MiB is refused.\<close>

theorem frame_roundtrip:
  "if length body > 2 ^ 20 then WriteFrame hdr body = Inl (BodyTooLarge (length body))
   else \<exists>w. WriteFrame hdr body = Inr w \<and>
     ReadFrame (w @ rest) = Inr ((frame_header hdr body, body), rest) \<and>
     (\<forall>k < length w. ReadFrame (take k w) \<in> {Inl ErrEOF, Inl ErrUnexpectedEOF})"
proof -
  have max: "unat MaxFrameBytes = 2 ^ 20" by (simp add: MaxFrameBytes_def)
  have "ReadFrame (take k (put_header (frame_header hdr body) @ body)) \<in> {Inl ErrEOF, Inl ErrUnexpectedEOF}"
    if "k < 52 + length body" "length body \<le> 2 ^ 20" for k
  proof (cases "k < 52")
    case True
    then show ?thesis by (auto simp: ReadFrame_def ReadFull_def HeaderSize_def)
  next
    case False
    let ?t = "take (k - 52) body"
    have len: "unat (of_nat (length body) :: u32) = length body" using that(2) by (simp add: unat_of_nat)
    have "\<not> (of_nat (length body) :: u32) > MaxFrameBytes"
      using that(2) len max by (simp add: word_less_nat_alt)
    moreover have "length ?t < length body" using that False by auto
    ultimately show ?thesis using False len
      by (auto simp: ReadFrame_def ReadFull_def HeaderSize_def frame_header_def)
  qed
  then show ?thesis using ReadFrame_written [of body hdr rest] WriteFrame_eq [of body hdr]
    by (auto simp: max WriteFrame_def)
qed

theorem frame_roundtrip_witness:
  "\<exists>w. WriteFrame (get_header (replicate 52 0)) [1, 2, 3] = Inr w \<and>
     ReadFrame (w @ [9]) = Inr ((frame_header (get_header (replicate 52 0)) [1, 2, 3], [1, 2, 3]), [9])"
  using frame_roundtrip [of "[1, 2, 3]" "get_header (replicate 52 0)" "[9]"] by auto

text \<open>C8: Accepted frames are canonical. When \<open>ReadFrame\<close> accepts, the header carries the magic
  number, version 1, header length 52 and the length of a body of at most 1 MiB, and the bytes
  consumed are exactly those \<open>WriteFrame\<close> writes for that header and body.\<close>

theorem ReadFrame_canonical:
  assumes "ReadFrame r = Inr ((hdr, body), rest)"
  shows "h_Magic hdr = FrameMagic \<and> h_Version hdr = Version1 \<and> h_HeaderLen hdr = 52 \<and>
    unat (h_BodyLen hdr) = length body \<and> length body \<le> 2 ^ 20 \<and>
    (\<exists>w. WriteFrame hdr body = Inr w \<and> r = w @ rest)"
proof -
  have h: "52 \<le> length r" "hdr = get_header (take 52 r)" "h_Magic hdr = FrameMagic"
    "h_Version hdr = Version1" "h_HeaderLen hdr = 52" "\<not> h_BodyLen hdr > MaxFrameBytes"
    and b: "unat (h_BodyLen hdr) \<le> length r - 52" "body = take (unat (h_BodyLen hdr)) (drop 52 r)"
    "rest = drop (unat (h_BodyLen hdr)) (drop 52 r)"
    using assms by (auto simp: ReadFrame_def ReadFull_def HeaderSize_def Let_def split: if_splits)
  have len: "length body = unat (h_BodyLen hdr)" using b by simp
  have max: "length body \<le> 2 ^ 20"
    using h(6) len by (simp add: MaxFrameBytes_def word_less_nat_alt)
  have "frame_header hdr body = hdr"
    using h(3-5) by (cases hdr) (simp add: frame_header_def len HeaderSize_def)
  moreover have "take 52 r = put_header hdr" using h(1,2) by (simp add: put_get_header)
  moreover have "r = take 52 r @ body @ rest" unfolding b(2,3) by (simp only: append_take_drop_id)
  ultimately have "WriteFrame hdr body = Inr (take 52 r @ body) \<and> r = (take 52 r @ body) @ rest"
    using WriteFrame_eq [of body hdr] max by (simp add: MaxFrameBytes_def)
  with h len max show ?thesis by auto
qed

theorem ReadFrame_canonical_witness:
  "\<exists>w hdr. WriteFrame (get_header (replicate 52 0)) [1, 2, 3] = Inr w \<and>
     ReadFrame w = Inr ((hdr, [1, 2, 3]), []) \<and> h_Magic hdr = FrameMagic \<and> unat (h_BodyLen hdr) = 3"
proof -
  let ?h = "frame_header (get_header (replicate 52 0)) [1, 2, 3]"
  have w: "WriteFrame (get_header (replicate 52 0)) [1, 2, 3] = Inr (put_header ?h @ [1, 2, 3])"
    by (rule WriteFrame_eq) (simp add: MaxFrameBytes_def)
  have "ReadFrame (put_header ?h @ [1, 2, 3]) = Inr ((?h, [1, 2, 3]), [])"
    using ReadFrame_written [of "[1, 2, 3]" "get_header (replicate 52 0)" "[]"] by (simp add: MaxFrameBytes_def)
  with w show ?thesis using ReadFrame_canonical by fastforce
qed



end
