(* ===== verification/GoUtf8.thy ===== *)
theory GoUtf8
  imports GoStrings
begin

text \<open>
  What the sources use of \<^verbatim>\<open>unicode/utf8\<close> and of \<^verbatim>\<open>path.Match\<close>.
  A string is a sequence of bytes. \<open>DecodeRune\<close> decodes its first code point; a byte that does not
  start a valid encoding is decoded as \<open>RuneError\<close> with width one, and \<open>[]rune(s)\<close> and
  \<open>for _, r := range s\<close> go through the string in this way.
\<close>

subsection \<open>UTF-8\<close>

definition RuneError :: nat where "RuneError = 0xFFFD"

definition byte_at :: "string \<Rightarrow> nat \<Rightarrow> nat" where
  "byte_at s i = (if i < length s then of_char (s ! i) else 0)"

definition cont_in :: "nat \<Rightarrow> nat \<Rightarrow> nat \<Rightarrow> bool" where
  "cont_in lo hi b \<longleftrightarrow> lo \<le> b \<and> b \<le> hi"

text \<open>The accepted range of the second byte and the number of continuation bytes, by first byte.\<close>

definition utf8_shape :: "nat \<Rightarrow> (nat \<times> nat \<times> nat) option" where
  "utf8_shape b =
     (if 0xC2 \<le> b \<and> b \<le> 0xDF then Some (1, 0x80, 0xBF)
      else if b = 0xE0 then Some (2, 0xA0, 0xBF)
      else if b = 0xED then Some (2, 0x80, 0x9F)
      else if 0xE1 \<le> b \<and> b \<le> 0xEF then Some (2, 0x80, 0xBF)
      else if b = 0xF0 then Some (3, 0x90, 0xBF)
      else if b = 0xF4 then Some (3, 0x80, 0x8F)
      else if 0xF1 \<le> b \<and> b \<le> 0xF3 then Some (3, 0x80, 0xBF)
      else None)"

definition DecodeRune :: "string \<Rightarrow> nat \<times> nat" where
  "DecodeRune s =
     (if s = [] then (RuneError, 0)
      else let b0 = byte_at s 0; b1 = byte_at s 1; b2 = byte_at s 2; b3 = byte_at s 3 in
        if b0 < 0x80 then (b0, 1)
        else case utf8_shape b0 of
          None \<Rightarrow> (RuneError, 1)
        | Some (n, lo, hi) \<Rightarrow>
            if \<not> cont_in lo hi b1 then (RuneError, 1)
            else if n = 1 then ((b0 - 0xC0) * 64 + (b1 - 0x80), 2)
            else if \<not> cont_in 0x80 0xBF b2 then (RuneError, 1)
            else if n = 2 then ((b0 - 0xE0) * 4096 + (b1 - 0x80) * 64 + (b2 - 0x80), 3)
            else if \<not> cont_in 0x80 0xBF b3 then (RuneError, 1)
            else ((b0 - 0xF0) * 262144 + (b1 - 0x80) * 4096 + (b2 - 0x80) * 64 + (b3 - 0x80), 4))"

lemma DecodeRune_width: "s \<noteq> [] \<Longrightarrow> 0 < snd (DecodeRune s)"
  by (auto simp: DecodeRune_def Let_def split: option.split)

function runes :: "string \<Rightarrow> nat list" where
  "runes s = (if s = [] then [] else fst (DecodeRune s) # runes (drop (snd (DecodeRune s)) s))"
  by pat_completeness auto
termination
  by (relation "measure length") (simp_all add: DecodeRune_width diff_less)

declare runes.simps [simp del]

lemma runes_Nil [simp]: "runes [] = []"
  by (simp add: runes.simps)

lemma runes_ascii: "of_char c < (0x80 :: nat) \<Longrightarrow> runes (c # s) = of_char c # runes s"
  by (subst runes.simps) (simp add: DecodeRune_def byte_at_def Let_def)

subsection \<open>path.Match\<close>

text \<open>The length of the first chunk: up to the next star outside brackets.\<close>

fun chunk_len :: "bool \<Rightarrow> string \<Rightarrow> nat" where
  "chunk_len inrange [] = 0"
| "chunk_len inrange (c # cs) =
     (if c = CHR 0x5C then (case cs of [] \<Rightarrow> 1 | _ # cs' \<Rightarrow> 2 + chunk_len inrange cs')
      else if c = CHR ''['' then Suc (chunk_len True cs)
      else if c = CHR '']'' then Suc (chunk_len False cs)
      else if c = CHR ''*'' \<and> \<not> inrange then 0
      else Suc (chunk_len inrange cs))"

definition scanChunk :: "string \<Rightarrow> bool \<times> string \<times> string" where
  "scanChunk pattern =
     (let rest = dropWhile (\<lambda>c. c = CHR ''*'') pattern; i = chunk_len False rest
      in (rest \<noteq> pattern, take i rest, drop i rest))"

text \<open>\<open>None\<close> is \<open>ErrBadPattern\<close>.\<close>

definition getEsc :: "string \<Rightarrow> (nat \<times> string) option" where
  "getEsc chunk =
     (if chunk = [] \<or> hd chunk = CHR ''-'' \<or> hd chunk = CHR '']'' then None
      else let chunk = (if hd chunk = CHR 0x5C then tl chunk else chunk) in
        if chunk = [] then None
        else let (r, n) = DecodeRune chunk; nchunk = drop n chunk in
          if r = RuneError \<and> n = 1 \<or> nchunk = [] then None else Some (r, nchunk))"

lemma getEsc_shorter: "getEsc chunk = Some (r, nchunk) \<Longrightarrow> length nchunk < length chunk"
  using DecodeRune_width [of chunk] DecodeRune_width [of "tl chunk"]
  by (cases chunk) (auto simp: getEsc_def Let_def split: if_splits prod.splits)

function match_class :: "nat \<Rightarrow> bool \<Rightarrow> nat \<Rightarrow> string \<Rightarrow> (bool \<times> string) option" where
  "match_class r matched nrange chunk =
     (if chunk \<noteq> [] \<and> hd chunk = CHR '']'' \<and> nrange > 0 then Some (matched, tl chunk)
      else case getEsc chunk of
        None \<Rightarrow> None
      | Some (lo, c1) \<Rightarrow>
          (case (if hd c1 = CHR ''-'' then getEsc (tl c1) else Some (lo, c1)) of
             None \<Rightarrow> None
           | Some (hi, c2) \<Rightarrow> match_class r (matched \<or> lo \<le> r \<and> r \<le> hi) (Suc nrange) c2))"
  by pat_completeness auto
termination
proof (relation "measure (\<lambda>(_, _, _, chunk). length chunk)"; clarsimp)
  fix chunk c1 c2 :: string and lo hi :: nat
  assume "getEsc chunk = Some (lo, c1)" "(if hd c1 = CHR ''-'' then getEsc (tl c1) else Some (lo, c1)) = Some (hi, c2)"
  then show "length c2 < length chunk"
    using getEsc_shorter [of chunk lo c1] getEsc_shorter [of "tl c1" hi c2] by (auto split: if_splits)
qed

declare match_class.simps [simp del]

lemma match_class_shorter: "match_class r m n chunk = Some (b, rest) \<Longrightarrow> length rest < length chunk"
proof (induction r m n chunk rule: match_class.induct)
  case (1 r m n chunk)
  show ?case
  proof (cases "chunk \<noteq> [] \<and> hd chunk = CHR '']'' \<and> n > 0")
    case True
    with "1.prems" show ?thesis by (subst (asm) match_class.simps) auto
  next
    case False
    with "1.prems" obtain lo c1 hi c2 where
      e: "getEsc chunk = Some (lo, c1)" "(if hd c1 = CHR ''-'' then getEsc (tl c1) else Some (lo, c1)) = Some (hi, c2)"
      and m: "match_class r (m \<or> lo \<le> r \<and> r \<le> hi) (Suc n) c2 = Some (b, rest)"
      by (subst (asm) match_class.simps) (auto split: option.splits)
    from "1.IH" [OF False e(1) refl e(2) refl m] have "length rest < length c2" .
    then show ?thesis
      using e getEsc_shorter [of chunk lo c1] getEsc_shorter [of "tl c1" hi c2] by (auto split: if_splits)
  qed
qed

text \<open>The rest of the name after the chunk, \<open>Some None\<close> when it does not match; the chunk is
  still parsed to its end then.\<close>

function matchChunk :: "string option \<Rightarrow> string \<Rightarrow> string option option" where
  "matchChunk s chunk =
     (if chunk = [] then Some s
      else let s = (case s of Some [] \<Rightarrow> None | _ \<Rightarrow> s) in
        if hd chunk = CHR ''['' then
          (let r = (case s of None \<Rightarrow> 0 | Some t \<Rightarrow> fst (DecodeRune t));
               s = map_option (\<lambda>t. drop (snd (DecodeRune t)) t) s;
               negated = (tl chunk \<noteq> [] \<and> hd (tl chunk) = CHR ''^'');
               body = (if negated then tl (tl chunk) else tl chunk)
           in case match_class r False 0 body of
                None \<Rightarrow> None
              | Some (matched, rest) \<Rightarrow> matchChunk (if matched = negated then None else s) rest)
        else if hd chunk = CHR ''?'' then
          matchChunk (case s of None \<Rightarrow> None
            | Some t \<Rightarrow> if hd t = CHR ''/'' then None else Some (drop (snd (DecodeRune t)) t)) (tl chunk)
        else let chunk = (if hd chunk = CHR 0x5C then tl chunk else chunk) in
          if chunk = [] then None
          else matchChunk (case s of None \<Rightarrow> None
            | Some t \<Rightarrow> if hd t \<noteq> hd chunk then None else Some (tl t)) (tl chunk))"
  by pat_completeness auto
termination
proof (relation "measure (\<lambda>(_, chunk). length chunk)")
  fix chunk :: string and r negated body matched rest and z :: "bool \<times> string"
  assume "chunk \<noteq> []" "body = (if negated then tl (tl chunk) else tl chunk)"
    "match_class r False 0 body = Some z" "(matched, rest) = z"
  then have "length rest < length body" using match_class_shorter [of r False 0 body matched rest] by simp
  moreover have "length body \<le> length chunk" using \<open>body = _\<close> by auto
  ultimately show "((if matched = negated then None else s, rest), s', chunk) \<in> measure (\<lambda>(_, chunk). length chunk)"
    for s s' :: "string option" by simp
qed (simp, simp, simp split: if_splits)

declare matchChunk.simps [simp del]
lemma chunk_len_le: "chunk_len b s \<le> length s"
  by (induction b s rule: chunk_len.induct) (auto split: list.splits)

lemma scanChunk_shorter:
  assumes "pattern \<noteq> []" "scanChunk pattern = (star, chunk, rest)" shows "length rest < length pattern"
proof (cases "hd pattern = CHR ''*''")
  case True
  then obtain ps where "pattern = CHR ''*'' # ps" using assms(1) by (cases pattern) auto
  then show ?thesis
    using assms(2) length_dropWhile_le [of "\<lambda>c. c = CHR ''*''" ps] by (auto simp: scanChunk_def Let_def)
next
  case False
  then obtain c ps where p: "pattern = c # ps" "c \<noteq> CHR ''*''" using assms(1) by (cases pattern) auto
  then have "0 < chunk_len False pattern" by (auto split: list.split)
  then show ?thesis using assms(2) p by (auto simp: scanChunk_def Let_def)
qed

fun star_skip :: "bool \<Rightarrow> string \<Rightarrow> string \<Rightarrow> string option option" where
  "star_skip final chunk [] = Some None"
| "star_skip final chunk (c # cs) =
     (if c = CHR ''/'' then Some None
      else case matchChunk (Some cs) chunk of
        None \<Rightarrow> None
      | Some (Some t) \<Rightarrow> if final \<and> t \<noteq> [] then star_skip final chunk cs else Some (Some t)
      | Some None \<Rightarrow> star_skip final chunk cs)"

function check_rest :: "string \<Rightarrow> bool" where
  "check_rest pattern =
     (if pattern = [] then True
      else let (_, chunk, rest) = scanChunk pattern in matchChunk (Some []) chunk \<noteq> None \<and> check_rest rest)"
  by pat_completeness auto
termination
  by (relation "measure length") (simp_all, metis scanChunk_shorter)

declare check_rest.simps [simp del]

text \<open>\<open>path.Match\<close>; \<open>None\<close> is \<open>ErrBadPattern\<close>.\<close>

function path_Match :: "string \<Rightarrow> string \<Rightarrow> bool option" where
  "path_Match pattern name =
     (if pattern = [] then Some (name = [])
      else let (star, chunk, rest) = scanChunk pattern in
        if star \<and> chunk = [] then Some (CHR ''/'' \<notin> set name)
        else case matchChunk (Some name) chunk of
          None \<Rightarrow> None
        | Some m \<Rightarrow>
            (case m of
               Some t \<Rightarrow> if t = [] \<or> rest \<noteq> [] then path_Match rest t
                 else if star then (case star_skip (rest = []) chunk name of
                    None \<Rightarrow> None
                  | Some (Some t') \<Rightarrow> path_Match rest t'
                  | Some None \<Rightarrow> if check_rest rest then Some False else None)
                 else if check_rest rest then Some False else None
             | None \<Rightarrow> if star then (case star_skip (rest = []) chunk name of
                    None \<Rightarrow> None
                  | Some (Some t') \<Rightarrow> path_Match rest t'
                  | Some None \<Rightarrow> if check_rest rest then Some False else None)
                 else if check_rest rest then Some False else None))"
  by pat_completeness auto
termination
  by (relation "measure (length \<circ> fst)") (simp_all, (metis scanChunk_shorter)+)

declare path_Match.simps [simp del]

definition plain_char :: "char \<Rightarrow> bool" where
  "plain_char c \<longleftrightarrow> c \<notin> {CHR ''*'', CHR ''?'', CHR ''['', CHR 0x5C}"

lemma chunk_len_plain: "list_all plain_char s \<Longrightarrow> chunk_len False s = length s"
  by (induction s) (auto simp: plain_char_def)

lemma matchChunk_plain:
  "list_all plain_char chunk \<Longrightarrow>
   matchChunk s chunk = Some (case s of None \<Rightarrow> None
     | Some t \<Rightarrow> if HasPrefix t chunk then Some (drop (length chunk) t) else None)"
proof (induction chunk arbitrary: s)
  case Nil
  show ?case by (subst matchChunk.simps) (simp add: HasPrefix_def split: option.split)
next
  case (Cons c cs)
  then have IH: "matchChunk s cs = Some (case s of None \<Rightarrow> None
     | Some t \<Rightarrow> if HasPrefix t cs then Some (drop (length cs) t) else None)" for s by simp
  from Cons.prems have "c \<noteq> CHR ''?''" "c \<noteq> CHR ''[''" "c \<noteq> CHR 0x5C" by (auto simp: plain_char_def)
  then show ?case
    by (cases s; cases "the s") (subst matchChunk.simps, auto simp: IH HasPrefix_def)+
qed

text \<open>A pattern without special characters matches exactly itself.\<close>

lemma path_Match_plain:
  assumes "list_all plain_char pattern" shows "path_Match pattern name = Some (name = pattern)"
proof (cases pattern)
  case Nil
  then show ?thesis by (subst path_Match.simps) simp
next
  case (Cons c cs)
  with assms have "c \<noteq> CHR ''*''" by (auto simp: plain_char_def)
  then have "scanChunk pattern = (False, pattern, [])"
    using Cons chunk_len_plain [OF assms] by (simp add: scanChunk_def Let_def)
  moreover have "path_Match [] [] = Some True" by (subst path_Match.simps) simp
  moreover have "pattern \<noteq> []" using Cons by simp
  ultimately show ?thesis
    by (subst path_Match.simps) (auto simp: matchChunk_plain [OF assms] check_rest.simps HasPrefix_def)
qed

end
