(* ===== verification/Authz.thy ===== *)
theory Authz
  imports GoUtf8
begin

section \<open>Identities, grants, OWNERS and CODEOWNERS\<close>

text \<open>
  The package \<^verbatim>\<open>src/pkg/authz\<close>: roles and identities (\<^verbatim>\<open>authz.go\<close>), the grant store
  (\<^verbatim>\<open>grants.go\<close>), OWNERS files and their compilation into grants (\<^verbatim>\<open>owners.go\<close>,
  \<^verbatim>\<open>compiler.go\<close>), CODEOWNERS patterns (\<^verbatim>\<open>codeowners.go\<close>) and the ownership resolver
  (\<^verbatim>\<open>resolver.go\<close>).

  Roles and actions are strings, as in the code. The YAML library is not part of the sources:
  \<open>ParseOwners\<close> and \<open>ParseTeamMapping\<close> take the decoded document. \<open>OwnersSource\<close> and
  \<open>CodeownersProvider\<close> are interfaces: the resolver takes them as functions that may fail.
  Persisting the grant store is a function that may fail.
\<close>

subsection \<open>Roles and identities\<close>

definition ActionView :: string where "ActionView = ''view''"
definition ActionIngest :: string where "ActionIngest = ''ingest''"
definition ActionModify :: string where "ActionModify = ''modify''"

definition RoleViewer :: string where "RoleViewer = ''viewer''"
definition RoleIngester :: string where "RoleIngester = ''ingester''"
definition RoleMaintainer :: string where "RoleMaintainer = ''maintainer''"
definition RoleAdmin :: string where "RoleAdmin = ''admin''"

definition roleActions :: "string \<Rightarrow> string list option" where
  "roleActions = map_of [(RoleViewer, [ActionView]), (RoleIngester, [ActionView, ActionIngest]),
     (RoleMaintainer, [ActionView, ActionIngest, ActionModify]), (RoleAdmin, [ActionView, ActionIngest, ActionModify])]"

definition role_Allows :: "string \<Rightarrow> string \<Rightarrow> bool" where
  "role_Allows r action = (case roleActions r of None \<Rightarrow> False | Some as \<Rightarrow> action \<in> set as)"

definition role_Valid :: "string \<Rightarrow> bool" where
  "role_Valid r \<longleftrightarrow> roleActions r \<noteq> None"

record Identity =
  id_Subject :: string
  id_Email :: string
  id_Groups :: "string list"
  id_ClientID :: string

definition IsAnonymous :: "Identity \<Rightarrow> bool" where
  "IsAnonymous ident \<longleftrightarrow> id_Subject ident = '''' \<and> id_ClientID ident = ''''"

definition HasGroup :: "Identity \<Rightarrow> string \<Rightarrow> bool" where
  "HasGroup ident grp =
     (let grp = TrimSpace grp in
      if grp = '''' then False else list_ex (\<lambda>g. EqualFold (TrimSpace g) grp) (id_Groups ident))"

definition PrincipalID :: "Identity \<Rightarrow> string" where
  "PrincipalID ident = (if id_ClientID ident \<noteq> '''' then id_ClientID ident else id_Subject ident)"

subsection \<open>Grants\<close>

record Grant =
  g_Subject :: string
  g_Group :: string
  g_Partition :: string
  g_Role :: string

definition WildcardPartition :: string where "WildcardPartition = ''*''"

datatype grant_error = SubjectXorGroup | PartitionRequired | InvalidRole string | SaveFailed string

definition grant_Validate :: "Grant \<Rightarrow> grant_error option" where
  "grant_Validate g =
     (let hasSubject = TrimSpace (g_Subject g) \<noteq> ''''; hasGroup = TrimSpace (g_Group g) \<noteq> '''' in
      if hasSubject = hasGroup then Some SubjectXorGroup
      else if TrimSpace (g_Partition g) = '''' then Some PartitionRequired
      else if \<not> role_Valid (g_Role g) then Some (InvalidRole (g_Role g))
      else None)"

definition matchesPartition :: "Grant \<Rightarrow> string \<Rightarrow> bool" where
  "matchesPartition g part \<longleftrightarrow> g_Partition g = WildcardPartition \<or> g_Partition g = part"

definition subject_matches :: "string \<Rightarrow> Identity \<Rightarrow> bool" where
  "subject_matches s ident \<longleftrightarrow>
     s = id_Subject ident \<or> s = id_ClientID ident \<or> id_Email ident \<noteq> '''' \<and> s = id_Email ident"

definition matchesIdentity :: "Grant \<Rightarrow> Identity \<Rightarrow> bool" where
  "matchesIdentity g ident =
     (let s = TrimSpace (g_Subject g) in
      if s \<noteq> '''' then subject_matches s ident
      else let grp = TrimSpace (g_Group g) in if grp \<noteq> '''' then HasGroup ident grp else False)"

text \<open>The in-memory list of a \<open>GrantStore\<close>. \<open>save\<close> is \<open>saveLocked\<close>: the error of writing the
  given list, if any. A failed write leaves the new list in memory.\<close>

definition GrantStore_Add ::
  "(Grant list \<Rightarrow> string option) \<Rightarrow> Grant list \<Rightarrow> Grant \<Rightarrow> grant_error option \<times> Grant list"
where
  "GrantStore_Add save grants g =
     (case grant_Validate g of
        Some e \<Rightarrow> (Some e, grants)
      | None \<Rightarrow> let grants = grants @ [g] in (map_option SaveFailed (save grants), grants))"

fun first_error :: "Grant list \<Rightarrow> grant_error option" where
  "first_error [] = None"
| "first_error (g # gs) = (case grant_Validate g of Some e \<Rightarrow> Some e | None \<Rightarrow> first_error gs)"

definition GrantStore_Replace ::
  "(Grant list \<Rightarrow> string option) \<Rightarrow> Grant list \<Rightarrow> Grant list \<Rightarrow> grant_error option \<times> Grant list"
where
  "GrantStore_Replace save grants new_grants =
     (case first_error new_grants of
        Some e \<Rightarrow> (Some e, grants)
      | None \<Rightarrow> (map_option SaveFailed (save new_grants), new_grants))"

definition GrantStore_Can :: "Grant list \<Rightarrow> Identity \<Rightarrow> string \<Rightarrow> string \<Rightarrow> bool" where
  "GrantStore_Can grants ident part action =
     (if IsAnonymous ident then False
      else list_ex (\<lambda>g. matchesPartition g part \<and> matchesIdentity g ident \<and> role_Allows (g_Role g) action) grants)"

subsection \<open>OWNERS files\<close>

record OwnerRef =
  or_Team :: string
  or_Subject :: string

definition IsTeam :: "OwnerRef \<Rightarrow> bool" where
  "IsTeam r \<longleftrightarrow> or_Team r \<noteq> ''''"

definition OwnerRef_String :: "OwnerRef \<Rightarrow> string" where
  "OwnerRef_String r = (if IsTeam r then ''@'' @ or_Team r else or_Subject r)"

datatype owner_error = EmptyOwnerEntry | EmptyTeamHandle string

definition parseOwnerRef :: "string \<Rightarrow> (owner_error, OwnerRef) result" where
  "parseOwnerRef raw =
     (let s = TrimSpace raw in
      if s = '''' then Inl EmptyOwnerEntry
      else if HasPrefix s ''@'' then
        (let team = TrimSpace (TrimPrefix s ''@'') in
         if team = '''' then Inl (EmptyTeamHandle raw) else Inr \<lparr>or_Team = team, or_Subject = ''''\<rparr>)
      else Inr \<lparr>or_Team = '''', or_Subject = s\<rparr>)"

record OwnersFile =
  of_Version :: int
  of_Viewers :: "OwnerRef list"
  of_Ingesters :: "OwnerRef list"
  of_Maintainers :: "OwnerRef list"

record ownersYAML =
  oy_Version :: int
  oy_Viewers :: "string list"
  oy_Ingesters :: "string list"
  oy_Maintainers :: "string list"

definition ByRole :: "OwnersFile \<Rightarrow> string \<Rightarrow> OwnerRef list" where
  "ByRole owners role =
     (case map_of [(RoleViewer, of_Viewers owners), (RoleIngester, of_Ingesters owners),
        (RoleMaintainer, of_Maintainers owners)] role of None \<Rightarrow> [] | Some refs \<Rightarrow> refs)"

datatype owners_error = UnsupportedVersion int | BadEntry string owner_error | NoOwners | DecodeError string

fun parseList :: "string \<Rightarrow> string list \<Rightarrow> (owners_error, OwnerRef list) result" where
  "parseList role [] = Inr []"
| "parseList role (entry # es) =
     (case parseOwnerRef entry of
        Inl e \<Rightarrow> Inl (BadEntry role e)
      | Inr r \<Rightarrow> (case parseList role es of Inl e \<Rightarrow> Inl e | Inr refs \<Rightarrow> Inr (r # refs)))"

definition ParseOwners :: "(string, ownersYAML) result \<Rightarrow> (owners_error, OwnersFile) result" where
  "ParseOwners decoded =
     (case decoded of
        Inl e \<Rightarrow> Inl (DecodeError e)
      | Inr doc \<Rightarrow>
          if oy_Version doc \<noteq> 1 then Inl (UnsupportedVersion (oy_Version doc))
          else case parseList ''viewers'' (oy_Viewers doc) of
            Inl e \<Rightarrow> Inl e
          | Inr viewers \<Rightarrow> (case parseList ''ingesters'' (oy_Ingesters doc) of
              Inl e \<Rightarrow> Inl e
            | Inr ingesters \<Rightarrow> (case parseList ''maintainers'' (oy_Maintainers doc) of
                Inl e \<Rightarrow> Inl e
              | Inr maintainers \<Rightarrow>
                  if length viewers + length ingesters + length maintainers = 0 then Inl NoOwners
                  else Inr \<lparr>of_Version = oy_Version doc, of_Viewers = viewers, of_Ingesters = ingesters,
                    of_Maintainers = maintainers\<rparr>)))"

subsection \<open>Team mappings and compiled grants\<close>

type_synonym TeamMapping = "string \<Rightarrow> string option"

definition ParseTeamMapping :: "(string, int \<times> (string, string) gomap) result \<Rightarrow> (owners_error, TeamMapping) result" where
  "ParseTeamMapping decoded =
     (case decoded of
        Inl e \<Rightarrow> Inl (DecodeError e)
      | Inr (version, teams) \<Rightarrow>
          if version \<noteq> 1 then Inl (UnsupportedVersion version)
          else Inr (foldl (\<lambda>m (team, grp). m(team \<mapsto> grp)) Map.empty teams))"

definition GroupFor :: "TeamMapping \<Rightarrow> string \<Rightarrow> string \<times> bool" where
  "GroupFor m team = (case m team of Some g \<Rightarrow> (g, True) | None \<Rightarrow> (team, False))"

definition compile_ref :: "string \<Rightarrow> TeamMapping \<Rightarrow> string \<Rightarrow> OwnerRef \<Rightarrow> Grant" where
  "compile_ref part mapping role r =
     (if IsTeam r then \<lparr>g_Subject = '''', g_Group = fst (GroupFor mapping (or_Team r)), g_Partition = part, g_Role = role\<rparr>
      else \<lparr>g_Subject = or_Subject r, g_Group = '''', g_Partition = part, g_Role = role\<rparr>)"

text \<open>The warnings are the teams without a mapping, with the part.\<close>

definition CompileGrants ::
  "string \<Rightarrow> OwnersFile option \<Rightarrow> TeamMapping \<Rightarrow> Grant list \<times> (string \<times> string) list"
where
  "CompileGrants part owners mapping =
     (case owners of
        None \<Rightarrow> ([], [])
      | Some f \<Rightarrow>
          (let refs = concat (map (\<lambda>role. map (Pair role) (ByRole f role)) [RoleViewer, RoleIngester, RoleMaintainer])
           in (map (\<lambda>(role, r). compile_ref part mapping role r) refs,
               map (\<lambda>(role, r). (or_Team r, part))
                 (filter (\<lambda>(role, r). IsTeam r \<and> \<not> snd (GroupFor mapping (or_Team r))) refs))))"

subsection \<open>CODEOWNERS files\<close>

record CodeownersRule =
  cr_Pattern :: string
  cr_Owners :: "OwnerRef list"

datatype codeowners_error = ExpectedPatternAndOwner nat | EmptyPattern nat | BadOwner nat owner_error | NoRules

fun parse_owners :: "nat \<Rightarrow> string list \<Rightarrow> (codeowners_error, OwnerRef list) result" where
  "parse_owners lineNo [] = Inr []"
| "parse_owners lineNo (f # fs) =
     (case parseOwnerRef f of
        Inl e \<Rightarrow> Inl (BadOwner (lineNo + 1) e)
      | Inr r \<Rightarrow> (case parse_owners lineNo fs of Inl e \<Rightarrow> Inl e | Inr refs \<Rightarrow> Inr (r # refs)))"

fun parse_rules :: "nat \<Rightarrow> string list \<Rightarrow> (codeowners_error, CodeownersRule list) result" where
  "parse_rules lineNo [] = Inr []"
| "parse_rules lineNo (raw # raws) =
     (let line = TrimSpace raw in
      if line = '''' \<or> HasPrefix line ''#'' then parse_rules (Suc lineNo) raws
      else let fields = Fields line in
        if length fields < 2 then Inl (ExpectedPatternAndOwner (lineNo + 1))
        else if hd fields = '''' then Inl (EmptyPattern (lineNo + 1))
        else case parse_owners lineNo (tl fields) of
          Inl e \<Rightarrow> Inl e
        | Inr owners \<Rightarrow> (case parse_rules (Suc lineNo) raws of
            Inl e \<Rightarrow> Inl e
          | Inr rules \<Rightarrow> Inr (\<lparr>cr_Pattern = hd fields, cr_Owners = owners\<rparr> # rules)))"

definition ParseCodeowners :: "string \<Rightarrow> (codeowners_error, CodeownersRule list) result" where
  "ParseCodeowners data =
     (case parse_rules 0 (Split data (CHR 0x0A)) of
        Inl e \<Rightarrow> Inl e
      | Inr rules \<Rightarrow> if rules = [] then Inl NoRules else Inr rules)"

text \<open>\<open>codeownersMatchSegment\<close>: one row of the table per rune of the pattern; entry \<open>j\<close> tells
  whether the pattern read so far matches the first \<open>j\<close> runes of the segment.\<close>

fun covered_row :: "bool \<Rightarrow> bool list \<Rightarrow> bool list" where
  "covered_row covered [] = []"
| "covered_row covered (d # ds) = (covered \<or> d) # covered_row (covered \<or> d) ds"

definition star :: nat where "star = 42"
definition any :: nat where "any = 63"

definition dp_row :: "nat list \<Rightarrow> bool list \<Rightarrow> nat \<Rightarrow> bool list" where
  "dp_row sv dp p =
     (if p = star then covered_row False dp
      else if p = any then False # butlast dp
      else False # map2 (\<lambda>d r. d \<and> r = p) (butlast dp) sv)"

definition codeownersMatchSegment :: "string \<Rightarrow> string \<Rightarrow> bool" where
  "codeownersMatchSegment pattern segment =
     (let sv = runes segment;
          dp = foldl (dp_row sv) (True # replicate (length sv) False) (runes pattern)
      in dp ! length sv)"

fun codeownersMatchSegments :: "string list \<Rightarrow> string list \<Rightarrow> bool" where
  "codeownersMatchSegments [] segs \<longleftrightarrow> segs = []"
| "codeownersMatchSegments (p # ps) segs =
     (if p = ''**'' then list_ex (\<lambda>skip. codeownersMatchSegments ps (drop skip segs)) [0..<Suc (length segs)]
      else case segs of
        [] \<Rightarrow> False
      | x # xs \<Rightarrow> if \<not> codeownersMatchSegment p x then False else codeownersMatchSegments ps xs)"

definition codeownersGlobMatch :: "string \<Rightarrow> string \<Rightarrow> bool" where
  "codeownersGlobMatch pattern pth = codeownersMatchSegments (Split pattern CHR ''/'') (Split pth CHR ''/'')"

definition under :: "string \<Rightarrow> string \<Rightarrow> bool" where
  "under dir pth \<longleftrightarrow> pth = dir \<or> HasPrefix pth (dir @ ''/'')"

definition path_suffixes :: "string \<Rightarrow> string list" where
  "path_suffixes pth = (let segments = Split pth CHR ''/'' in map (\<lambda>i. Join (drop i segments) ''/'') [0..<length segments])"

definition CodeownersPatternMatches :: "string \<Rightarrow> string \<Rightarrow> bool" where
  "CodeownersPatternMatches pattern pth =
     (let pattern = TrimSpace pattern; pth = Trim (TrimSpace pth) CHR ''/'' in
      if pattern = '''' \<or> pth = '''' then False
      else let anchored = HasPrefix pattern ''/'';
               pattern = (if HasSuffix pattern ''/'' then Trim pattern CHR ''/'' @ ''/**'' else pattern);
               pattern = Trim pattern CHR ''/''
        in if pattern = ''*'' \<or> pattern = ''**'' then True
           else if pattern \<noteq> '''' \<and> \<not> ContainsAny pattern ''*?'' then
             (if anchored then under pattern pth else list_ex (under pattern) (path_suffixes pth))
           else if anchored then codeownersGlobMatch pattern pth
           else list_ex (codeownersGlobMatch pattern) (path_suffixes pth))"

definition OwnersFor :: "CodeownersRule list option \<Rightarrow> string \<Rightarrow> OwnerRef list" where
  "OwnersFor f pth =
     (case f of
        None \<Rightarrow> []
      | Some rules \<Rightarrow>
          (let pth = Trim (TrimSpace pth) CHR ''/'' in
           foldl (\<lambda>matched r. if CodeownersPatternMatches (cr_Pattern r) pth then cr_Owners r else matched) [] rules))"

subsection \<open>The ownership resolver\<close>

definition OwnersPath :: "string \<Rightarrow> string" where
  "OwnersPath dir =
     (let dir = Trim (TrimSpace dir) CHR ''/'' in
      if dir = '''' then ''.guardian/OWNERS'' else dir @ ''/.guardian/OWNERS'')"

function ancestors :: "string \<Rightarrow> string list" where
  "ancestors p = p # (if p = '''' then [] else
     case LastIndexByte p CHR ''/'' of Some idx \<Rightarrow> ancestors (take idx p) | None \<Rightarrow> ancestors '''')"
  by pat_completeness auto
termination
  by (relation "measure length") (auto simp: LastIndexByte_Some(1))

declare ancestors.simps [simp del]

definition ancestorDirs :: "string \<Rightarrow> string list" where
  "ancestorDirs pth = ancestors (Trim (TrimSpace pth) CHR ''/'')"

definition ownerRefMatchesIdentity :: "OwnerRef \<Rightarrow> Identity \<Rightarrow> TeamMapping \<Rightarrow> bool" where
  "ownerRefMatchesIdentity r ident mapping =
     (if IsAnonymous ident then False
      else if IsTeam r then HasGroup ident (fst (GroupFor mapping (or_Team r)))
      else subject_matches (or_Subject r) ident)"

text \<open>\<open>r_source\<close> loads the OWNERS file of a directory (\<open>None\<close>: there is none); \<open>r_codeowners\<close>
  is the optional provider of the CODEOWNERS document.\<close>

record OwnershipResolver =
  r_source :: "string \<Rightarrow> (string, OwnersFile option) result"
  r_mapping :: TeamMapping
  r_codeowners :: "(string, CodeownersRule list option) result option"

text \<open>The loop of \<open>IsOwner\<close>: the directory that grants ownership, or whether a file governs.\<close>

fun owner_loop ::
  "OwnershipResolver \<Rightarrow> Identity \<Rightarrow> bool \<Rightarrow> string list \<Rightarrow> (string, string + bool) result"
where
  "owner_loop r ident governed [] = Inr (Inr governed)"
| "owner_loop r ident governed (dir # dirs) =
     (case r_source r dir of
        Inl e \<Rightarrow> Inl e
      | Inr None \<Rightarrow> owner_loop r ident governed dirs
      | Inr (Some owners) \<Rightarrow>
          if list_ex (\<lambda>ref. ownerRefMatchesIdentity ref ident (r_mapping r)) (of_Maintainers owners) then Inr (Inl dir)
          else owner_loop r ident True dirs)"

definition IsOwner :: "OwnershipResolver \<Rightarrow> string \<Rightarrow> Identity \<Rightarrow> (string, bool \<times> string) result" where
  "IsOwner r pth ident =
     (case owner_loop r ident False (ancestorDirs pth) of
        Inl e \<Rightarrow> Inl e
      | Inr (Inl dir) \<Rightarrow> Inr (True, dir)
      | Inr (Inr governed) \<Rightarrow>
          if governed then Inr (False, '''')
          else case r_codeowners r of
            None \<Rightarrow> Inr (False, '''')
          | Some (Inl e) \<Rightarrow> Inl e
          | Some (Inr codeowners) \<Rightarrow>
              if list_ex (\<lambda>ref. ownerRefMatchesIdentity ref ident (r_mapping r)) (OwnersFor codeowners pth)
              then Inr (True, ''CODEOWNERS'') else Inr (False, ''''))"

fun governed_loop :: "OwnershipResolver \<Rightarrow> string list \<Rightarrow> (string, bool) result" where
  "governed_loop r [] = Inr False"
| "governed_loop r (dir # dirs) =
     (case r_source r dir of
        Inl e \<Rightarrow> Inl e
      | Inr (Some owners) \<Rightarrow> Inr True
      | Inr None \<Rightarrow> governed_loop r dirs)"

definition Governed :: "OwnershipResolver \<Rightarrow> string \<Rightarrow> (string, bool) result" where
  "Governed r pth =
     (case governed_loop r (ancestorDirs pth) of
        Inl e \<Rightarrow> Inl e
      | Inr True \<Rightarrow> Inr True
      | Inr False \<Rightarrow>
          (case r_codeowners r of
             None \<Rightarrow> Inr False
           | Some (Inl e) \<Rightarrow> Inl e
           | Some (Inr codeowners) \<Rightarrow> Inr (codeowners \<noteq> None \<and> OwnersFor codeowners pth \<noteq> [])))"

fun unowned_paths :: "OwnershipResolver \<Rightarrow> Identity \<Rightarrow> string list \<Rightarrow> (string, string list) result" where
  "unowned_paths r ident [] = Inr []"
| "unowned_paths r ident (p # ps) =
     (case IsOwner r p ident of
        Inl e \<Rightarrow> Inl e
      | Inr (owned, _) \<Rightarrow> (case unowned_paths r ident ps of
          Inl e \<Rightarrow> Inl e
        | Inr unowned \<Rightarrow> Inr (if owned then unowned else p # unowned)))"

definition OwnsAll :: "OwnershipResolver \<Rightarrow> string list \<Rightarrow> Identity \<Rightarrow> (string, bool \<times> string list) result" where
  "OwnsAll r paths ident =
     (case unowned_paths r ident paths of Inl e \<Rightarrow> Inl e | Inr unowned \<Rightarrow> Inr (unowned = [], unowned))"

fun addRefs :: "string list \<times> OwnerRef list \<Rightarrow> OwnerRef list \<Rightarrow> string list \<times> OwnerRef list" where
  "addRefs acc [] = acc"
| "addRefs (seen, refs) (ref # cs) =
     (if OwnerRef_String ref \<in> set seen then addRefs (seen, refs) cs
      else addRefs (OwnerRef_String ref # seen, refs @ [ref]) cs)"

fun owners_of_dirs ::
  "OwnershipResolver \<Rightarrow> bool \<Rightarrow> string list \<times> OwnerRef list \<Rightarrow> string list \<Rightarrow>
   (string, bool \<times> string list \<times> OwnerRef list) result"
where
  "owners_of_dirs r governed acc [] = Inr (governed, acc)"
| "owners_of_dirs r governed acc (dir # dirs) =
     (case r_source r dir of
        Inl e \<Rightarrow> Inl e
      | Inr None \<Rightarrow> owners_of_dirs r governed acc dirs
      | Inr (Some owners) \<Rightarrow> owners_of_dirs r True (addRefs acc (of_Maintainers owners)) dirs)"

fun owners_of_paths ::
  "OwnershipResolver \<Rightarrow> CodeownersRule list option \<Rightarrow> string list \<times> OwnerRef list \<Rightarrow> string list \<Rightarrow>
   (string, OwnerRef list) result"
where
  "owners_of_paths r codeowners acc [] = Inr (snd acc)"
| "owners_of_paths r codeowners acc (p # ps) =
     (case owners_of_dirs r False acc (ancestorDirs p) of
        Inl e \<Rightarrow> Inl e
      | Inr (governed, acc) \<Rightarrow>
          owners_of_paths r codeowners (if governed then acc else addRefs acc (OwnersFor codeowners p)) ps)"

definition OwnersOf :: "OwnershipResolver \<Rightarrow> string list \<Rightarrow> (string, OwnerRef list) result" where
  "OwnersOf r paths =
     (case r_codeowners r of
        Some (Inl e) \<Rightarrow> Inl e
      | Some (Inr codeowners) \<Rightarrow> owners_of_paths r codeowners ([], []) paths
      | None \<Rightarrow> owners_of_paths r None ([], []) paths)"

subsection \<open>The glob matcher decides a declarative reading\<close>

text \<open>A pattern matches a list if the list splits into one piece per pattern element.\<close>

definition splits_as :: "('p \<Rightarrow> 'a list \<Rightarrow> bool) \<Rightarrow> 'p list \<Rightarrow> 'a list \<Rightarrow> bool" where
  "splits_as piece ps xs \<longleftrightarrow> (\<exists>pieces. list_all2 piece ps pieces \<and> xs = concat pieces)"

lemma splits_as_Nil [simp]: "splits_as piece [] xs \<longleftrightarrow> xs = []"
  by (auto simp: splits_as_def)

lemma splits_as_snoc: "splits_as piece (ps @ [p]) xs \<longleftrightarrow> (\<exists>ys zs. xs = ys @ zs \<and> splits_as piece ps ys \<and> piece p zs)"
proof
  assume "splits_as piece (ps @ [p]) xs"
  then obtain us z where "list_all2 piece ps us" "piece p z" "xs = concat us @ z"
    by (auto simp: splits_as_def list_all2_append1 list_all2_Cons1)
  then show "\<exists>ys zs. xs = ys @ zs \<and> splits_as piece ps ys \<and> piece p zs" unfolding splits_as_def by blast
next
  assume "\<exists>ys zs. xs = ys @ zs \<and> splits_as piece ps ys \<and> piece p zs"
  then obtain us z where "list_all2 piece ps us" "piece p z" "xs = concat us @ z" by (auto simp: splits_as_def)
  then have "list_all2 piece (ps @ [p]) (us @ [z])" "xs = concat (us @ [z])"
    by (simp_all add: list_all2_appendI)
  then show "splits_as piece (ps @ [p]) xs" unfolding splits_as_def by blast
qed

lemma splits_as_Cons: "splits_as piece (p # ps) xs \<longleftrightarrow> (\<exists>ys zs. xs = ys @ zs \<and> piece p ys \<and> splits_as piece ps zs)"
proof
  assume "splits_as piece (p # ps) xs"
  then obtain us z where "list_all2 piece ps us" "piece p z" "xs = z @ concat us"
    by (auto simp: splits_as_def list_all2_Cons1)
  then show "\<exists>ys zs. xs = ys @ zs \<and> piece p ys \<and> splits_as piece ps zs" unfolding splits_as_def by blast
next
  assume "\<exists>ys zs. xs = ys @ zs \<and> piece p ys \<and> splits_as piece ps zs"
  then obtain us z where "list_all2 piece (p # ps) (z # us)" "xs = concat (z # us)" by (auto simp: splits_as_def)
  then show "splits_as piece (p # ps) xs" unfolding splits_as_def by blast
qed

lemma ex_append: "(\<exists>ys zs. xs = ys @ zs \<and> Q ys zs) \<longleftrightarrow> (\<exists>k \<le> length xs. Q (take k xs) (drop k xs))"
proof
  assume "\<exists>ys zs. xs = ys @ zs \<and> Q ys zs"
  then obtain ys zs where "xs = ys @ zs" "Q ys zs" by blast
  then have "length ys \<le> length xs \<and> Q (take (length ys) xs) (drop (length ys) xs)" by simp
  then show "\<exists>k \<le> length xs. Q (take k xs) (drop k xs)" by blast
qed (metis append_take_drop_id)

text \<open>Within a segment a star stands for any runes, a question mark for one, another rune for itself.\<close>

definition rune_piece :: "nat \<Rightarrow> nat list \<Rightarrow> bool" where
  "rune_piece p xs \<longleftrightarrow> (if p = star then True else if p = any then length xs = 1 else xs = [p])"

lemma covered_row_eq:
  "covered_row b dp = map (\<lambda>j. b \<or> (\<exists>k \<le> j. dp ! k)) [0..<length dp]"
proof (induction dp arbitrary: b)
  case (Cons d ds)
  have "(\<exists>k \<le> Suc j. (d # ds) ! k) \<longleftrightarrow> d \<or> (\<exists>k \<le> j. ds ! k)" for j
    by (metis Suc_le_mono le0 not0_implies_Suc nth_Cons_0 nth_Cons_Suc)
  then show ?case
    unfolding covered_row.simps Cons.IH length_Cons upt_rec [of 0 "Suc (length ds)"]
    by (simp add: map_Suc_upt [symmetric] comp_def disj_assoc del: upt_Suc)
qed simp

lemma take_one_more: "j \<le> length sv \<Longrightarrow> k \<le> j \<Longrightarrow> drop k (take j sv) = [x] \<longleftrightarrow> j = Suc k \<and> sv ! k = x"
  by (auto simp: drop_take list_eq_iff_nth_eq less_Suc_eq)

lemma prefix_splits:
  assumes "j \<le> length sv"
  shows "splits_as rune_piece (ps @ [p]) (take j sv) \<longleftrightarrow>
    (if p = star then \<exists>k \<le> j. splits_as rune_piece ps (take k sv)
     else if p = any then \<exists>k. j = Suc k \<and> splits_as rune_piece ps (take k sv)
     else \<exists>k. j = Suc k \<and> splits_as rune_piece ps (take k sv) \<and> sv ! k = p)"
proof -
  have piece: "rune_piece p (drop k (take j sv)) \<longleftrightarrow>
      (if p = star then True else if p = any then j = Suc k else j = Suc k \<and> sv ! k = p)" if "k \<le> j" for k
    using assms that take_one_more [OF assms that] by (auto simp: rune_piece_def)
  have "splits_as rune_piece (ps @ [p]) (take j sv) \<longleftrightarrow>
    (\<exists>k \<le> j. splits_as rune_piece ps (take k sv) \<and> rune_piece p (drop k (take j sv)))"
    unfolding splits_as_snoc ex_append using assms by (auto simp: min_def)
  also have "\<dots> \<longleftrightarrow> (\<exists>k \<le> j. splits_as rune_piece ps (take k sv) \<and>
      (if p = star then True else if p = any then j = Suc k else j = Suc k \<and> sv ! k = p))"
    by (intro iff_exI conj_cong refl piece)
  finally show ?thesis by (cases "p = star"; cases "p = any") (simp_all add: less_eq_Suc_le, (metis le_SucI order.refl)+)
qed

lemma dp_row_splits:
  assumes "dp = map (\<lambda>j. splits_as rune_piece ps (take j sv)) [0..<Suc (length sv)]"
  shows "dp_row sv dp p = map (\<lambda>j. splits_as rune_piece (ps @ [p]) (take j sv)) [0..<Suc (length sv)]"
proof (rule nth_equalityI)
  have len: "length dp = Suc (length sv)" by (simp add: assms)
  then show "length (dp_row sv dp p) = length (map (\<lambda>j. splits_as rune_piece (ps @ [p]) (take j sv)) [0..<Suc (length sv)])"
    by (simp add: dp_row_def covered_row_eq)
  fix j assume "j < length (dp_row sv dp p)"
  with len have j: "j \<le> length sv" by (simp add: dp_row_def covered_row_eq split: if_splits)
  have dp: "dp ! k = splits_as rune_piece ps (take k sv)" if "k \<le> length sv" for k
    using that by (simp add: assms del: upt_Suc)
  have "dp_row sv dp p ! j = splits_as rune_piece (ps @ [p]) (take j sv)"
    unfolding prefix_splits [OF j] using j len dp
    by (cases j) (auto simp: dp_row_def covered_row_eq nth_butlast simp del: upt_Suc)
  then show "dp_row sv dp p ! j = map (\<lambda>j. splits_as rune_piece (ps @ [p]) (take j sv)) [0..<Suc (length sv)] ! j"
    using j by (simp del: upt_Suc)
qed

lemma codeownersMatchSegment_eq:
  "codeownersMatchSegment pattern segment \<longleftrightarrow> splits_as rune_piece (runes pattern) (runes segment)"
proof -
  let ?sv = "runes segment"
  have "foldl (dp_row ?sv) (True # replicate (length ?sv) False) ps =
      map (\<lambda>j. splits_as rune_piece ps (take j ?sv)) [0..<Suc (length ?sv)]" for ps
  proof (induction ps rule: rev_induct)
    case Nil
    show ?case
      by (rule nth_equalityI) (auto simp: nth_Cons simp del: upt_Suc split: nat.split)
  next
    case (snoc p ps)
    then show ?case using dp_row_splits [OF snoc] by simp
  qed
  then show ?thesis by (simp add: codeownersMatchSegment_def Let_def del: upt_Suc)
qed

text \<open>Across segments a double star stands for any number of segments.\<close>

definition segment_piece :: "string \<Rightarrow> string list \<Rightarrow> bool" where
  "segment_piece p xs \<longleftrightarrow>
     (if p = ''**'' then True else \<exists>x. xs = [x] \<and> splits_as rune_piece (runes p) (runes x))"

lemma codeownersMatchSegments_eq:
  "codeownersMatchSegments ps segs \<longleftrightarrow> splits_as segment_piece ps segs"
proof (induction ps segs rule: codeownersMatchSegments.induct)
  case (2 p ps segs)
  show ?case
  proof (cases "p = ''**''")
    case True
    then have "splits_as segment_piece (p # ps) segs \<longleftrightarrow> (\<exists>k \<le> length segs. splits_as segment_piece ps (drop k segs))"
      unfolding splits_as_Cons ex_append by (simp add: segment_piece_def)
    with "2.IH"(1) [OF True] True show ?thesis
      by (auto simp: list_ex_iff less_Suc_eq_le simp del: upt_Suc)
  next
    case False
    then have "splits_as segment_piece (p # ps) segs \<longleftrightarrow>
        (\<exists>x xs. segs = x # xs \<and> codeownersMatchSegment p x \<and> splits_as segment_piece ps xs)"
      unfolding splits_as_Cons codeownersMatchSegment_eq by (simp add: segment_piece_def) (metis append_Cons append_Nil)
    with "2.IH"(2) [OF False] False show ?thesis by (cases segs) auto
  qed
qed auto

subsection \<open>Parsed owner references\<close>

text \<open>A reference as \<open>parseOwnerRef\<close> produces it: its text determines it.\<close>

definition ref_ok :: "OwnerRef \<Rightarrow> bool" where
  "ref_ok r \<longleftrightarrow>
     (if IsTeam r then or_Subject r = ''''
      else or_Subject r \<noteq> '''' \<and> TrimSpace (or_Subject r) = or_Subject r \<and> \<not> HasPrefix (or_Subject r) ''@'')"

lemma parseOwnerRef_ok: "parseOwnerRef raw = Inr r \<Longrightarrow> ref_ok r"
  by (auto simp: parseOwnerRef_def ref_ok_def IsTeam_def Let_def split: if_splits)

lemma ref_ok_String: "ref_ok r \<Longrightarrow> ref_ok r' \<Longrightarrow> OwnerRef_String r = OwnerRef_String r' \<Longrightarrow> r = r'"
  by (cases r; cases r') (auto simp: OwnerRef_String_def ref_ok_def IsTeam_def HasPrefix_def split: if_splits)

lemma parseList_ok: "parseList role es = Inr refs \<Longrightarrow> list_all ref_ok refs"
  by (induction es arbitrary: refs) (auto split: sum.splits dest: parseOwnerRef_ok)

definition owners_ok :: "OwnersFile \<Rightarrow> bool" where
  "owners_ok f \<longleftrightarrow> list_all ref_ok (of_Viewers f) \<and> list_all ref_ok (of_Ingesters f) \<and> list_all ref_ok (of_Maintainers f)"

lemma ParseOwners_ok: "ParseOwners decoded = Inr f \<Longrightarrow> owners_ok f"
  by (auto simp: ParseOwners_def owners_ok_def dest: parseList_ok split: sum.splits if_splits)

lemma parse_owners_ok: "parse_owners n fs = Inr refs \<Longrightarrow> list_all ref_ok refs"
  by (induction fs arbitrary: refs) (auto split: sum.splits dest: parseOwnerRef_ok)

lemma parse_rules_ok: "parse_rules n raws = Inr rules \<Longrightarrow> list_all (\<lambda>r. list_all ref_ok (cr_Owners r)) rules"
  by (induction raws arbitrary: n rules) (auto simp: Let_def split: sum.splits if_splits dest: parse_owners_ok)

lemma ParseCodeowners_ok: "ParseCodeowners data = Inr rules \<Longrightarrow> list_all (\<lambda>r. list_all ref_ok (cr_Owners r)) rules"
  by (auto simp: ParseCodeowners_def split: sum.splits if_splits dest: parse_rules_ok)

lemma OwnersFor_eq:
  "OwnersFor (Some rules) pth =
     (case find (\<lambda>r. CodeownersPatternMatches (cr_Pattern r) (Trim (TrimSpace pth) CHR ''/'')) (rev rules) of
        None \<Rightarrow> [] | Some r \<Rightarrow> cr_Owners r)"
  by (induction rules rule: rev_induct) (auto simp: OwnersFor_def Let_def)

lemma OwnersFor_ok:
  assumes "list_all (\<lambda>r. list_all ref_ok (cr_Owners r)) rules" shows "list_all ref_ok (OwnersFor (Some rules) pth)"
proof (cases "find (\<lambda>r. CodeownersPatternMatches (cr_Pattern r) (Trim (TrimSpace pth) CHR ''/'')) (rev rules)")
  case (Some r)
  then have "r \<in> set rules" by (metis find_Some_iff nth_mem set_rev)
  with assms Some show ?thesis by (simp add: OwnersFor_eq list_all_iff)
qed (simp add: OwnersFor_eq)

lemma HasGroup_trim [simp]: "HasGroup ident (TrimSpace grp) = HasGroup ident grp"
  by (simp add: HasGroup_def)

lemma HasGroup_blank: "TrimSpace grp = '''' \<Longrightarrow> \<not> HasGroup ident grp"
  by (simp add: HasGroup_def)

lemma matches_compiled:
  assumes "ref_ok r" "\<not> IsAnonymous ident"
  shows "matchesIdentity (compile_ref part mapping role r) ident = ownerRefMatchesIdentity r ident mapping"
proof (cases "IsTeam r")
  case True
  with assms show ?thesis
    using HasGroup_blank [of "fst (GroupFor mapping (or_Team r))" ident]
    by (simp add: matchesIdentity_def compile_ref_def ownerRefMatchesIdentity_def Let_def)
next
  case False
  with assms show ?thesis
    by (simp add: matchesIdentity_def compile_ref_def ownerRefMatchesIdentity_def ref_ok_def)
qed

lemma compiled_fields [simp]:
  "g_Partition (compile_ref part mapping role r) = part" "g_Role (compile_ref part mapping role r) = role"
  by (simp_all add: compile_ref_def)

subsection \<open>Ancestor directories\<close>

lemma LastIndexByte_None: "LastIndexByte s c = None \<longleftrightarrow> c \<notin> set s"
  by (simp add: LastIndexByte_def)

lemma last_sep_prefix:
  assumes "c \<notin> set v"
  shows "HasPrefix (u @ c # v) (d @ [c]) \<longleftrightarrow> d = u \<or> HasPrefix u (d @ [c])"
proof
  assume "HasPrefix (u @ c # v) (d @ [c])"
  then obtain t where "u @ c # v = d @ c # t" by (auto simp: HasPrefix_iff)
  then obtain us where "u = d @ us \<and> us @ c # v = c # t \<or> u @ us = d \<and> c # v = us @ c # t"
    unfolding append_eq_append_conv2 by blast
  then show "d = u \<or> HasPrefix u (d @ [c])"
  proof (elim disjE conjE)
    assume "u = d @ us" "us @ c # v = c # t"
    then show ?thesis by (cases us) (auto simp: HasPrefix_iff)
  next
    assume "u @ us = d" "c # v = us @ c # t"
    then show ?thesis using assms by (cases us) auto
  qed
qed (auto simp: HasPrefix_iff)

lemma ancestors_Nil [simp]: "ancestors [] = [[]]"
  by (subst ancestors.simps) simp

lemma ancestors_split:
  "p \<noteq> [] \<Longrightarrow> ancestors p = p # (if CHR ''/'' \<in> set p then ancestors (take (the (LastIndexByte p CHR ''/'')) p) else [[]])"
  by (subst ancestors.simps) (simp add: LastIndexByte_def)

lemma ancestors_iff: "d \<in> set (ancestors p) \<longleftrightarrow> d = [] \<or> d = p \<or> HasPrefix p (d @ ''/'')"
proof (induction p rule: length_induct)
  case (1 p)
  consider (nil) "p = []" | (none) "p \<noteq> []" "CHR ''/'' \<notin> set p" | (some) i where "LastIndexByte p CHR ''/'' = Some i"
    by (meson LastIndexByte_None option.exhaust_sel)
  then show ?case
  proof cases
    case nil
    then show ?thesis by (auto simp: HasPrefix_iff)
  next
    case none
    then have "\<not> HasPrefix p (d @ ''/'')" by (auto simp: HasPrefix_iff)
    with none show ?thesis by (auto simp: ancestors_split)
  next
    case (some i)
    note p = LastIndexByte_Some [OF some]
    have "p \<noteq> []" using p(1) by auto
    moreover have "CHR ''/'' \<in> set p" using p(1,2) nth_mem by fastforce
    ultimately have "ancestors p = p # ancestors (take i p)" using some by (simp add: ancestors_split)
    moreover have "d \<in> set (ancestors (take i p)) \<longleftrightarrow> d = [] \<or> d = take i p \<or> HasPrefix (take i p) (d @ ''/'')"
      using "1.IH" p(1) by simp
    moreover have "HasPrefix p (d @ ''/'') \<longleftrightarrow> d = take i p \<or> HasPrefix (take i p) (d @ ''/'')"
      using last_sep_prefix [OF p(3), of "take i p" d] p(4) by metis
    ultimately show ?thesis by auto
  qed
qed

subsection \<open>What the resolver computes\<close>

text \<open>No load fails while a path is resolved.\<close>

definition loads_ok :: "OwnershipResolver \<Rightarrow> string \<Rightarrow> bool" where
  "loads_ok r pth \<longleftrightarrow>
     list_all (\<lambda>d. case r_source r d of Inl _ \<Rightarrow> False | Inr _ \<Rightarrow> True) (ancestorDirs pth) \<and>
     (case r_codeowners r of Some (Inl _) \<Rightarrow> False | _ \<Rightarrow> True)"

definition owners_at :: "OwnershipResolver \<Rightarrow> string \<Rightarrow> OwnersFile option" where
  "owners_at r d = (case r_source r d of Inl _ \<Rightarrow> None | Inr f \<Rightarrow> f)"

definition codeowners_doc :: "OwnershipResolver \<Rightarrow> CodeownersRule list option" where
  "codeowners_doc r = (case r_codeowners r of Some (Inr f) \<Rightarrow> f | _ \<Rightarrow> None)"

text \<open>The owners of a path: the maintainers of all OWNERS files from its directory up to the root
  or, if there is no such file, the CODEOWNERS entry.\<close>

definition governing_refs :: "OwnershipResolver \<Rightarrow> string \<Rightarrow> OwnerRef list" where
  "governing_refs r pth =
     (if list_ex (\<lambda>d. owners_at r d \<noteq> None) (ancestorDirs pth)
      then concat (map (\<lambda>d. case owners_at r d of None \<Rightarrow> [] | Some f \<Rightarrow> of_Maintainers f) (ancestorDirs pth))
      else OwnersFor (codeowners_doc r) pth)"

definition granting :: "OwnershipResolver \<Rightarrow> Identity \<Rightarrow> string \<Rightarrow> bool" where
  "granting r ident d = (case owners_at r d of None \<Rightarrow> False
     | Some f \<Rightarrow> list_ex (\<lambda>ref. ownerRefMatchesIdentity ref ident (r_mapping r)) (of_Maintainers f))"

lemma loaded_at: "(case r_source r d of Inl _ \<Rightarrow> False | Inr _ \<Rightarrow> True) \<Longrightarrow> r_source r d = Inr (owners_at r d)"
  by (simp add: owners_at_def split: sum.splits)

lemma owner_loop_eq:
  "list_all (\<lambda>d. case r_source r d of Inl _ \<Rightarrow> False | Inr _ \<Rightarrow> True) dirs \<Longrightarrow>
   owner_loop r ident governed dirs =
     Inr (case find (granting r ident) dirs of
       Some d \<Rightarrow> Inl d | None \<Rightarrow> Inr (governed \<or> list_ex (\<lambda>d. owners_at r d \<noteq> None) dirs))"
proof (induction dirs arbitrary: governed)
  case (Cons d dirs)
  then obtain x where x: "r_source r d = Inr x" "owners_at r d = x" using loaded_at [of r d] by auto
  then show ?case using Cons by (cases x) (simp_all add: granting_def split: option.split)
qed simp

lemma OwnersFor_None [simp]: "OwnersFor None pth = []"
  by (simp add: OwnersFor_def)

lemma OwnersFor_document: "OwnersFor f pth \<noteq> [] \<Longrightarrow> \<exists>rules. f = Some rules"
  by (cases f) simp_all

lemma IsOwner_eq:
  assumes "loads_ok r pth"
  shows "IsOwner r pth ident =
    Inr (case find (granting r ident) (ancestorDirs pth) of
      Some d \<Rightarrow> (True, d)
    | None \<Rightarrow> if \<not> list_ex (\<lambda>d. owners_at r d \<noteq> None) (ancestorDirs pth) \<and>
          list_ex (\<lambda>ref. ownerRefMatchesIdentity ref ident (r_mapping r)) (OwnersFor (codeowners_doc r) pth)
        then (True, ''CODEOWNERS'') else (False, ''''))"
proof -
  have l: "list_all (\<lambda>d. case r_source r d of Inl _ \<Rightarrow> False | Inr _ \<Rightarrow> True) (ancestorDirs pth)"
    using assms by (simp add: loads_ok_def)
  show ?thesis
    using assms unfolding IsOwner_def owner_loop_eq [OF l]
    by (cases "find (granting r ident) (ancestorDirs pth)"; cases "r_codeowners r"; cases "the (r_codeowners r)")
      (simp_all add: loads_ok_def codeowners_doc_def)
qed

lemma find_granting:
  "find (granting r ident) dirs \<noteq> None \<longleftrightarrow>
   list_ex (\<lambda>ref. ownerRefMatchesIdentity ref ident (r_mapping r))
     (concat (map (\<lambda>d. case owners_at r d of None \<Rightarrow> [] | Some f \<Rightarrow> of_Maintainers f) dirs))"
  by (induction dirs) (auto simp: granting_def split: option.splits)

lemma IsOwner_governing:
  assumes "loads_ok r pth"
  shows "\<exists>dir. IsOwner r pth ident =
    Inr (list_ex (\<lambda>ref. ownerRefMatchesIdentity ref ident (r_mapping r)) (governing_refs r pth), dir)"
proof (cases "list_ex (\<lambda>d. owners_at r d \<noteq> None) (ancestorDirs pth)")
  case True
  then show ?thesis
    unfolding IsOwner_eq [OF assms] governing_refs_def using find_granting [where r = r and ident = ident and dirs = "ancestorDirs pth"]
    by (auto split: option.split)
next
  case False
  then have "find (granting r ident) (ancestorDirs pth) = None"
    by (auto simp: find_None_iff list_ex_iff granting_def)
  with False show ?thesis unfolding IsOwner_eq [OF assms] governing_refs_def by simp
qed

lemma governed_loop_eq:
  "list_all (\<lambda>d. case r_source r d of Inl _ \<Rightarrow> False | Inr _ \<Rightarrow> True) dirs \<Longrightarrow>
   governed_loop r dirs = Inr (list_ex (\<lambda>d. owners_at r d \<noteq> None) dirs)"
proof (induction dirs)
  case (Cons d dirs)
  then obtain x where x: "r_source r d = Inr x" "owners_at r d = x" using loaded_at [of r d] by auto
  then show ?case using Cons by (cases x) simp_all
qed simp

lemma Governed_eq:
  assumes "loads_ok r pth"
  shows "Governed r pth = Inr (list_ex (\<lambda>d. owners_at r d \<noteq> None) (ancestorDirs pth) \<or> OwnersFor (codeowners_doc r) pth \<noteq> [])"
proof -
  have l: "list_all (\<lambda>d. case r_source r d of Inl _ \<Rightarrow> False | Inr _ \<Rightarrow> True) (ancestorDirs pth)"
    using assms by (simp add: loads_ok_def)
  show ?thesis
    using assms unfolding Governed_def governed_loop_eq [OF l]
    by (cases "list_ex (\<lambda>d. owners_at r d \<noteq> None) (ancestorDirs pth)"; cases "r_codeowners r"; cases "the (r_codeowners r)")
      (auto simp: loads_ok_def codeowners_doc_def dest: OwnersFor_document)
qed

definition acc_ok :: "string list \<times> OwnerRef list \<Rightarrow> bool" where
  "acc_ok acc \<longleftrightarrow> set (fst acc) = OwnerRef_String ` set (snd acc) \<and> distinct (map OwnerRef_String (snd acc))"

lemma addRefs_ok:
  assumes "acc_ok acc" "list_all ref_ok (snd acc)" "list_all ref_ok cs"
  shows "acc_ok (addRefs acc cs) \<and> set (snd (addRefs acc cs)) = set (snd acc) \<union> set cs"
  using assms
proof (induction cs arbitrary: acc)
  case (Cons c cs)
  obtain seen refs where acc: "acc = (seen, refs)" by (cases acc)
  show ?case
  proof (cases "OwnerRef_String c \<in> set seen")
    case True
    then obtain c' where "c' \<in> set refs" "OwnerRef_String c' = OwnerRef_String c"
      using Cons.prems(1) acc by (auto simp: acc_ok_def)
    then have "c \<in> set refs" using Cons.prems acc ref_ok_String [of c' c] by (auto simp: list_all_iff)
    with Cons True acc show ?thesis by auto
  next
    case False
    then have "acc_ok (OwnerRef_String c # seen, refs @ [c])" using Cons.prems(1) acc by (auto simp: acc_ok_def)
    with Cons.IH [OF this] Cons.prems False acc show ?thesis by auto
  qed
qed simp

lemma owners_of_dirs_eq:
  "list_all (\<lambda>d. case r_source r d of Inl _ \<Rightarrow> False | Inr _ \<Rightarrow> True) dirs \<Longrightarrow>
   owners_of_dirs r governed acc dirs =
     Inr (governed \<or> list_ex (\<lambda>d. owners_at r d \<noteq> None) dirs,
          foldl (\<lambda>acc d. case owners_at r d of None \<Rightarrow> acc | Some f \<Rightarrow> addRefs acc (of_Maintainers f)) acc dirs)"
proof (induction dirs arbitrary: governed acc)
  case (Cons d dirs)
  then obtain x where x: "r_source r d = Inr x" "owners_at r d = x" using loaded_at [of r d] by auto
  then show ?case using Cons by (cases x) simp_all
qed simp

text \<open>All owner references the resolver can load came out of the parsers.\<close>

definition refs_parsed :: "OwnershipResolver \<Rightarrow> string \<Rightarrow> bool" where
  "refs_parsed r pth \<longleftrightarrow>
     list_all (\<lambda>d. case owners_at r d of None \<Rightarrow> True | Some f \<Rightarrow> list_all ref_ok (of_Maintainers f)) (ancestorDirs pth) \<and>
     (case codeowners_doc r of None \<Rightarrow> True | Some rules \<Rightarrow> list_all (\<lambda>c. list_all ref_ok (cr_Owners c)) rules)"

lemma fold_dirs_ok:
  assumes "list_all (\<lambda>d. case owners_at r d of None \<Rightarrow> True | Some f \<Rightarrow> list_all ref_ok (of_Maintainers f)) dirs"
    "acc_ok acc" "list_all ref_ok (snd acc)"
    "res = foldl (\<lambda>acc d. case owners_at r d of None \<Rightarrow> acc | Some f \<Rightarrow> addRefs acc (of_Maintainers f)) acc dirs"
  shows "acc_ok res \<and> set (snd res) = set (snd acc) \<union>
    set (concat (map (\<lambda>d. case owners_at r d of None \<Rightarrow> [] | Some f \<Rightarrow> of_Maintainers f) dirs))"
  using assms
proof (induction dirs arbitrary: acc)
  case (Cons d dirs)
  show ?case
  proof (cases "owners_at r d")
    case None
    then show ?thesis using Cons.IH [of acc] Cons.prems by simp
  next
    case (Some f)
    then have ok: "list_all ref_ok (of_Maintainers f)" using Cons.prems(1) by simp
    note step = addRefs_ok [OF Cons.prems(2,3) ok]
    then have "list_all ref_ok (snd (addRefs acc (of_Maintainers f)))" using Cons.prems(3) ok by (auto simp: list_all_iff)
    then show ?thesis using Cons.IH [of "addRefs acc (of_Maintainers f)"] Cons.prems Some step by auto
  qed
qed simp

lemma governing_refs_ok: "refs_parsed r pth \<Longrightarrow> list_all ref_ok (governing_refs r pth)"
proof -
  assume parsed: "refs_parsed r pth"
  have "list_all (\<lambda>d. case owners_at r d of None \<Rightarrow> True | Some f \<Rightarrow> list_all ref_ok (of_Maintainers f)) dirs \<Longrightarrow>
    list_all ref_ok (concat (map (\<lambda>d. case owners_at r d of None \<Rightarrow> [] | Some f \<Rightarrow> of_Maintainers f) dirs))" for dirs
    by (induction dirs) (auto split: option.splits)
  with parsed show ?thesis
    by (cases "codeowners_doc r") (simp_all add: refs_parsed_def governing_refs_def OwnersFor_ok)
qed

lemma fold_dirs_none:
  "\<not> list_ex (\<lambda>d. owners_at r d \<noteq> None) dirs \<Longrightarrow>
   foldl (\<lambda>acc d. case owners_at r d of None \<Rightarrow> acc | Some f \<Rightarrow> addRefs acc (of_Maintainers f)) acc dirs = acc"
  by (induction dirs) auto

lemma owners_of_paths_eq:
  assumes "list_all (\<lambda>p. loads_ok r p \<and> refs_parsed r p) paths" "acc_ok acc" "list_all ref_ok (snd acc)"
  shows "\<exists>refs. owners_of_paths r (codeowners_doc r) acc paths = Inr refs \<and>
    distinct (map OwnerRef_String refs) \<and> set refs = set (snd acc) \<union> (\<Union>p \<in> set paths. set (governing_refs r p))"
  using assms
proof (induction paths arbitrary: acc)
  case Nil
  then show ?case by (simp add: acc_ok_def)
next
  case (Cons p ps)
  let ?dirs = "ancestorDirs p"
  define acc1 where "acc1 = foldl (\<lambda>acc d. case owners_at r d of None \<Rightarrow> acc | Some f \<Rightarrow> addRefs acc (of_Maintainers f)) acc ?dirs"
  define acc2 where "acc2 = (if list_ex (\<lambda>d. owners_at r d \<noteq> None) ?dirs then acc1 else addRefs acc1 (OwnersFor (codeowners_doc r) p))"
  have ok: "loads_ok r p" "refs_parsed r p" using Cons.prems(1) by simp_all
  then have dirs: "owners_of_dirs r False acc ?dirs = Inr (list_ex (\<lambda>d. owners_at r d \<noteq> None) ?dirs, acc1)"
    unfolding acc1_def by (simp add: owners_of_dirs_eq loads_ok_def)
  have one: "acc_ok acc1 \<and> set (snd acc1) = set (snd acc) \<union>
      set (concat (map (\<lambda>d. case owners_at r d of None \<Rightarrow> [] | Some f \<Rightarrow> of_Maintainers f) ?dirs))"
    using ok(2) Cons.prems(2,3) by (intro fold_dirs_ok [OF _ _ _ acc1_def]) (simp_all add: refs_parsed_def)
  have two: "acc_ok acc2 \<and> set (snd acc2) = set (snd acc) \<union> set (governing_refs r p)"
  proof (cases "list_ex (\<lambda>d. owners_at r d \<noteq> None) ?dirs")
    case True
    then show ?thesis using one by (simp add: acc2_def governing_refs_def)
  next
    case False
    then have "acc1 = acc" unfolding acc1_def by (rule fold_dirs_none)
    moreover have "list_all ref_ok (OwnersFor (codeowners_doc r) p)"
      using governing_refs_ok [OF ok(2)] False by (simp add: governing_refs_def)
    ultimately show ?thesis
      using addRefs_ok Cons.prems(2,3) False by (simp add: acc2_def governing_refs_def)
  qed
  moreover have "list_all ref_ok (snd acc2)"
    using two Cons.prems(3) governing_refs_ok [OF ok(2)] by (auto simp: list_all_iff)
  ultimately show ?case using Cons.IH [of acc2] Cons.prems(1) dirs by (auto simp: acc2_def)
qed

lemma OwnersOf_eq:
  assumes "list_all (\<lambda>p. loads_ok r p \<and> refs_parsed r p) paths" "paths \<noteq> []"
  shows "\<exists>refs. OwnersOf r paths = Inr refs \<and> distinct (map OwnerRef_String refs) \<and>
    set refs = (\<Union>p \<in> set paths. set (governing_refs r p))"
proof -
  have "OwnersOf r paths = owners_of_paths r (codeowners_doc r) ([], []) paths"
    using assms by (cases paths; cases "r_codeowners r"; cases "the (r_codeowners r)")
      (simp_all add: OwnersOf_def codeowners_doc_def loads_ok_def)
  then show ?thesis using owners_of_paths_eq [OF assms(1), of "([], [])"] by (simp add: acc_ok_def)
qed

subsection \<open>Properties\<close>

text \<open>C32: The table-driven CODEOWNERS matcher decides the declarative reading of a pattern: the path
  splits into one piece per pattern segment, where a double star stands for any number of segments
  and any other segment for one, which in turn splits into one piece per rune, where a star stands
  for any runes, a question mark for one rune and every other rune for itself.\<close>

theorem codeownersGlobMatch_correct:
  "codeownersGlobMatch pattern pth \<longleftrightarrow>
     splits_as segment_piece (Split pattern CHR ''/'') (Split pth CHR ''/'')"
  unfolding codeownersGlobMatch_def by (rule codeownersMatchSegments_eq)

text \<open>Of the rules of a CODEOWNERS file the last one that matches decides: the owners of a path are
  those of the last matching rule, and there are none if no rule matches.\<close>

theorem OwnersFor_last_rule:
  "OwnersFor (Some rules) pth =
     (case find (\<lambda>r. CodeownersPatternMatches (cr_Pattern r) (Trim (TrimSpace pth) CHR ''/'')) (rev rules) of
        None \<Rightarrow> [] | Some r \<Rightarrow> cr_Owners r)"
  by (rule OwnersFor_eq)

text \<open>The directories whose OWNERS files the resolver consults for a path are the path itself, the
  root and every directory on the way: exactly the strings that end before a slash of the path.\<close>

theorem ancestorDirs_correct:
  "d \<in> set (ancestorDirs pth) \<longleftrightarrow>
     d = [] \<or> d = Trim (TrimSpace pth) CHR ''/'' \<or> HasPrefix (Trim (TrimSpace pth) CHR ''/'') (d @ ''/'')"
  unfolding ancestorDirs_def by (rule ancestors_iff)

text \<open>Reviewers and owners agree. If no load fails and the loaded references came out of the
  parsers, the references returned for a list of paths are distinct, and an identity matches one of
  them exactly if it owns one of the paths; a path somebody owns counts as governed.\<close>

theorem OwnersOf_IsOwner:
  assumes "list_all (\<lambda>p. loads_ok r p \<and> refs_parsed r p) paths" "paths \<noteq> []"
  shows "\<exists>refs. OwnersOf r paths = Inr refs \<and> distinct (map OwnerRef_String refs) \<and>
    ((\<exists>ref \<in> set refs. ownerRefMatchesIdentity ref ident (r_mapping r)) \<longleftrightarrow>
     (\<exists>p \<in> set paths. \<exists>dir. IsOwner r p ident = Inr (True, dir) \<and> Governed r p = Inr True))"
proof -
  have "(\<exists>dir. IsOwner r p ident = Inr (True, dir) \<and> Governed r p = Inr True) \<longleftrightarrow>
      (\<exists>ref \<in> set (governing_refs r p). ownerRefMatchesIdentity ref ident (r_mapping r))" if "p \<in> set paths" for p
  proof -
    from that assms(1) have l: "loads_ok r p" by (simp add: list_all_iff)
    obtain dir where "IsOwner r p ident =
        Inr (list_ex (\<lambda>ref. ownerRefMatchesIdentity ref ident (r_mapping r)) (governing_refs r p), dir)"
      using IsOwner_governing [OF l] by blast
    moreover have "governing_refs r p \<noteq> [] \<Longrightarrow> Governed r p = Inr True"
      unfolding Governed_eq [OF l] governing_refs_def by (auto split: if_splits)
    ultimately show ?thesis by (fastforce simp: list_ex_iff)
  qed
  with OwnersOf_eq [OF assms] show ?thesis by auto
qed

definition sample_resolver :: OwnershipResolver where
  "sample_resolver = \<lparr>r_source = (\<lambda>d. if d = ''a'' then Inr (Some \<lparr>of_Version = 1, of_Viewers = [], of_Ingesters = [],
       of_Maintainers = [\<lparr>or_Team = '''', or_Subject = ''ann''\<rparr>]\<rparr>) else Inr None),
     r_mapping = Map.empty, r_codeowners = None\<rparr>"

definition ann :: Identity where
  "ann = \<lparr>id_Subject = ''ann'', id_Email = '''', id_Groups = [], id_ClientID = ''''\<rparr>"

theorem OwnersOf_IsOwner_witness:
  "\<exists>refs. OwnersOf sample_resolver [''a/b'', ''c''] = Inr refs \<and> distinct (map OwnerRef_String refs) \<and>
    ((\<exists>ref \<in> set refs. ownerRefMatchesIdentity ref ann (r_mapping sample_resolver)) \<longleftrightarrow>
     (\<exists>p \<in> set [''a/b'', ''c'']. \<exists>dir. IsOwner sample_resolver p ann = Inr (True, dir) \<and> Governed sample_resolver p = Inr True))"
  by (rule OwnersOf_IsOwner) (code_simp, simp)

text \<open>Compiling a parsed OWNERS file gives grants that say what the file says: in a store with these
  grants an identity may perform an action on the partition exactly if a role listed in the file
  allows the action and one of the references under that role matches the identity.\<close>

theorem CompileGrants_correct:
  assumes "ParseOwners decoded = Inr f"
  shows "GrantStore_Can (fst (CompileGrants part (Some f) mapping)) ident part action \<longleftrightarrow>
    (\<exists>role \<in> {RoleViewer, RoleIngester, RoleMaintainer}. role_Allows role action \<and>
       (\<exists>ref \<in> set (ByRole f role). ownerRefMatchesIdentity ref ident mapping))"
proof (cases "IsAnonymous ident")
  case True
  then show ?thesis by (simp add: GrantStore_Can_def ownerRefMatchesIdentity_def)
next
  case False
  have "list_all ref_ok (ByRole f role)" for role
    using ParseOwners_ok [OF assms] by (auto simp: ByRole_def owners_ok_def split: option.splits if_splits)
  then have "matchesIdentity (compile_ref part mapping role r) ident = ownerRefMatchesIdentity r ident mapping"
    if "r \<in> set (ByRole f role)" for r role
    using that matches_compiled [OF _ False] by (simp add: list_all_iff)
  with False show ?thesis
    by (simp add: GrantStore_Can_def CompileGrants_def list_ex_iff matchesPartition_def bex_Un) blast
qed

definition sample_owners :: ownersYAML where
  "sample_owners = \<lparr>oy_Version = 1, oy_Viewers = [''@dev''], oy_Ingesters = [], oy_Maintainers = ['' ann '']\<rparr>"

theorem CompileGrants_correct_witness:
  "\<exists>f. ParseOwners (Inr sample_owners) = Inr f \<and>
    (GrantStore_Can (fst (CompileGrants ''p'' (Some f) Map.empty)) ann ''p'' ActionModify \<longleftrightarrow>
    (\<exists>role \<in> {RoleViewer, RoleIngester, RoleMaintainer}. role_Allows role ActionModify \<and>
       (\<exists>ref \<in> set (ByRole f role). ownerRefMatchesIdentity ref ann Map.empty)))"
proof -
  have "\<exists>f. ParseOwners (Inr sample_owners) = Inr f" by (rule exI, code_simp)
  then show ?thesis using CompileGrants_correct by blast
qed

end
