(* ===== verification/GoNum.thy ===== *)
theory GoNum
  imports Prelude
begin

section \<open>Decimal numbers\<close>

text \<open>
  What the sources use of \<^verbatim>\<open>strconv\<close>: \<open>Itoa\<close>/\<open>FormatInt\<close>/\<open>FormatUint\<close> in base ten and
  \<open>Atoi\<close>, which accepts an optional sign and decimal digits and fails on anything else and on
  values outside the 64-bit range.
\<close>

definition digit_char :: "nat \<Rightarrow> char" where
  "digit_char d = char_of (48 + d)"

definition char_digit :: "char \<Rightarrow> nat option" where
  "char_digit c = (let n = (of_char c :: nat) in if 48 \<le> n \<and> n \<le> 57 then Some (n - 48) else None)"

fun digits :: "nat \<Rightarrow> string" where
  "digits n = (if n < 10 then [digit_char n] else digits (n div 10) @ [digit_char (n mod 10)])"

declare digits.simps [simp del]

definition Itoa :: "int \<Rightarrow> string" where
  "Itoa i = (if i < 0 then CHR ''-'' # digits (nat (- i)) else digits (nat i))"

fun parse_digits :: "nat \<Rightarrow> string \<Rightarrow> nat option" where
  "parse_digits acc [] = Some acc"
| "parse_digits acc (c # cs) = (case char_digit c of None \<Rightarrow> None | Some d \<Rightarrow> parse_digits (10 * acc + d) cs)"

definition Atoi :: "string \<Rightarrow> int option" where
  "Atoi s =
     (let neg = (s \<noteq> [] \<and> hd s = CHR ''-'');
          body = (if s \<noteq> [] \<and> (hd s = CHR ''-'' \<or> hd s = CHR ''+'') then tl s else s)
      in if body = [] then None
         else case parse_digits 0 body of
           None \<Rightarrow> None
         | Some n \<Rightarrow> (let i = (if neg then - int n else int n) in
             if - (2 ^ 63) \<le> i \<and> i < 2 ^ 63 then Some i else None))"

lemma char_digit_char: "d < 10 \<Longrightarrow> char_digit (digit_char d) = Some d"
  by (simp add: char_digit_def digit_char_def Let_def)

lemma parse_digits_append:
  "parse_digits acc (s @ [c]) = (case parse_digits acc s of None \<Rightarrow> None
     | Some n \<Rightarrow> map_option (\<lambda>d. 10 * n + d) (char_digit c))"
  by (induction acc s rule: parse_digits.induct) (auto split: option.split)

lemma parse_digits_digits: "parse_digits 0 (digits n) = Some n"
proof (induction n rule: digits.induct)
  case (1 n)
  show ?case
  proof (cases "n < 10")
    case True
    then show ?thesis by (subst digits.simps) (simp add: char_digit_char)
  next
    case False
    then have "parse_digits 0 (digits (n div 10)) = Some (n div 10)" using 1 by simp
    then show ?thesis using False
      by (subst digits.simps) (simp add: parse_digits_append char_digit_char)
  qed
qed

lemma of_char_digit: "d < 10 \<Longrightarrow> of_char (digit_char d) = (48 + d :: nat)"
  by (simp add: digit_char_def)

lemma digit_not_sign: "d < 10 \<Longrightarrow> digit_char d \<noteq> CHR ''-'' \<and> digit_char d \<noteq> CHR ''+''"
proof -
  assume "d < 10"
  from of_char_digit [OF this] have n: "of_char (digit_char d) \<ge> (48 :: nat)" by simp
  have "of_char (CHR ''-'') = (45 :: nat)" "of_char (CHR ''+'') = (43 :: nat)" by simp_all
  with n show ?thesis by auto
qed

lemma digits_not_sign: "digits n \<noteq> [] \<and> hd (digits n) \<noteq> CHR ''-'' \<and> hd (digits n) \<noteq> CHR ''+''"
proof (induction n rule: digits.induct)
  case (1 n)
  show ?case
  proof (cases "n < 10")
    case True
    then show ?thesis by (subst (1 2 3) digits.simps) (simp add: digit_not_sign)
  next
    case False
    then have "digits n = digits (n div 10) @ [digit_char (n mod 10)]" by (subst digits.simps) simp
    with 1 False show ?thesis by simp
  qed
qed

lemma Atoi_Itoa: "0 \<le> i \<Longrightarrow> i < 2 ^ 63 \<Longrightarrow> Atoi (Itoa i) = Some i"
  using digits_not_sign [of "nat i"] by (simp add: Atoi_def Itoa_def Let_def parse_digits_digits)

end
