(* ===== verification/MergeRequests.thy ===== *)
theory MergeRequests
  imports Authz GoNum
begin

section \<open>Merge requests\<close>

text \<open>
  The native proposal store of \<^verbatim>\<open>src/internal/router/mergerequest/store.go\<close>. The store relies on
  an ownership checker: the locale \<open>ownership_checker\<close> states what it needs, its lemmas show that a
  proposal is merged only after a review by an owner who is not the author, and the interpretation
  discharges the contract for \<open>OwnsAll\<close> of the ownership resolver.

  Every operation takes the time the clock shows. A method holds the mutex throughout, so it is one
  step of the transition relation \<open>mr_step\<close>.
\<close>

datatype State = StateOpen | StateApproved | StateMerged | StateRejected

record Proposal =
  pr_ID :: string
  pr_Partition :: string
  pr_Paths :: "string list"
  pr_Author :: string
  pr_Title :: string
  pr_Description :: string
  pr_State :: State
  pr_Approvals :: "string list"
  pr_CreatedAt :: int
  pr_UpdatedAt :: int

type_synonym checker = "string list \<Rightarrow> Identity \<Rightarrow> (string, bool \<times> string list) result"

record MRStore =
  mr_proposals :: "(string, Proposal) gomap"
  mr_seq :: nat

definition mr_NewStore :: MRStore where
  "mr_NewStore = \<lparr>mr_proposals = [], mr_seq = 0\<rparr>"

datatype mr_error = AuthorRequired | PathRequired | ApproverRequired | NotFound string | NotOpen string State
  | OwnProposal | NotApproved string State | AlreadyMerged string | NoChecker | CheckFailed string
  | NotOwner string "string list"

definition mr_id :: "nat \<Rightarrow> string" where
  "mr_id n = ''mr-'' @ Itoa (int n)"

definition mr_Create ::
  "MRStore \<Rightarrow> int \<Rightarrow> string \<Rightarrow> string \<Rightarrow> string list \<Rightarrow> string \<Rightarrow> string \<Rightarrow> (mr_error, Proposal) result \<times> MRStore"
where
  "mr_Create s now author part paths title description =
     (if author = '''' then (Inl AuthorRequired, s)
      else if paths = [] then (Inl PathRequired, s)
      else let n = Suc (mr_seq s);
               p = \<lparr>pr_ID = mr_id n, pr_Partition = part, pr_Paths = paths, pr_Author = author, pr_Title = title,
                 pr_Description = description, pr_State = StateOpen, pr_Approvals = [], pr_CreatedAt = now, pr_UpdatedAt = now\<rparr>
        in (Inr p, s\<lparr>mr_seq := n, mr_proposals := gm_set (pr_ID p) p (mr_proposals s)\<rparr>))"

definition mr_Get :: "MRStore \<Rightarrow> string \<Rightarrow> Proposal option" where
  "mr_Get s i = gm_get (mr_proposals s) i"

definition mr_List :: "MRStore \<Rightarrow> string \<Rightarrow> Proposal list" where
  "mr_List s part = filter (\<lambda>p. part = '''' \<or> pr_Partition p = part) (map snd (mr_proposals s))"

definition requireOwner :: "checker option \<Rightarrow> Proposal \<Rightarrow> Identity \<Rightarrow> mr_error option" where
  "requireOwner owners p ident =
     (case owners of
        None \<Rightarrow> Some NoChecker
      | Some owns \<Rightarrow>
          (case owns (pr_Paths p) ident of
             Inl e \<Rightarrow> Some (CheckFailed e)
           | Inr (ownsAll, unowned) \<Rightarrow> if \<not> ownsAll then Some (NotOwner (PrincipalID ident) unowned) else None))"

definition put_proposal :: "Proposal \<Rightarrow> MRStore \<Rightarrow> MRStore" where
  "put_proposal p s = s\<lparr>mr_proposals := gm_set (pr_ID p) p (mr_proposals s)\<rparr>"

text \<open>The map holds pointers: updating the found proposal updates the entry under its key.\<close>

definition mr_Approve ::
  "checker option \<Rightarrow> MRStore \<Rightarrow> int \<Rightarrow> string \<Rightarrow> Identity \<Rightarrow> (mr_error, Proposal) result \<times> MRStore"
where
  "mr_Approve owners s now i approver =
     (let approverID = PrincipalID approver in
      if approverID = '''' then (Inl ApproverRequired, s)
      else case gm_get (mr_proposals s) i of
        None \<Rightarrow> (Inl (NotFound i), s)
      | Some p \<Rightarrow>
          if pr_State p \<noteq> StateOpen then (Inl (NotOpen i (pr_State p)), s)
          else if approverID = pr_Author p then (Inl OwnProposal, s)
          else case requireOwner owners p approver of
            Some e \<Rightarrow> (Inl e, s)
          | None \<Rightarrow>
              (let p = p\<lparr>pr_Approvals := (if \<not> list_ex (\<lambda>a. a = approverID) (pr_Approvals p)
                       then pr_Approvals p @ [approverID] else pr_Approvals p),
                     pr_State := StateApproved, pr_UpdatedAt := now\<rparr>
               in (Inr p, s\<lparr>mr_proposals := gm_set i p (mr_proposals s)\<rparr>)))"

definition mr_Merge ::
  "checker option \<Rightarrow> MRStore \<Rightarrow> int \<Rightarrow> string \<Rightarrow> Identity \<Rightarrow> (mr_error, Proposal) result \<times> MRStore"
where
  "mr_Merge owners s now i merger =
     (case gm_get (mr_proposals s) i of
        None \<Rightarrow> (Inl (NotFound i), s)
      | Some p \<Rightarrow>
          if pr_State p \<noteq> StateApproved then (Inl (NotApproved i (pr_State p)), s)
          else case requireOwner owners p merger of
            Some e \<Rightarrow> (Inl e, s)
          | None \<Rightarrow>
              (let p = p\<lparr>pr_State := StateMerged, pr_UpdatedAt := now\<rparr>
               in (Inr p, s\<lparr>mr_proposals := gm_set i p (mr_proposals s)\<rparr>)))"

definition mr_Reject ::
  "checker option \<Rightarrow> MRStore \<Rightarrow> int \<Rightarrow> string \<Rightarrow> Identity \<Rightarrow> (mr_error, Proposal) result \<times> MRStore"
where
  "mr_Reject owners s now i ident =
     (case gm_get (mr_proposals s) i of
        None \<Rightarrow> (Inl (NotFound i), s)
      | Some p \<Rightarrow>
          if pr_State p = StateMerged then (Inl (AlreadyMerged i), s)
          else case requireOwner owners p ident of
            Some e \<Rightarrow> (Inl e, s)
          | None \<Rightarrow>
              (let p = p\<lparr>pr_State := StateRejected, pr_UpdatedAt := now\<rparr>
               in (Inr p, s\<lparr>mr_proposals := gm_set i p (mr_proposals s)\<rparr>)))"

subsection \<open>The state machine\<close>

text \<open>One call of a method of the store, whether it succeeds or not.\<close>

inductive mr_step :: "checker option \<Rightarrow> MRStore \<Rightarrow> MRStore \<Rightarrow> bool" for owners where
  create: "mr_step owners s (snd (mr_Create s now author part paths title description))"
| approve: "mr_step owners s (snd (mr_Approve owners s now i ident))"
| merge: "mr_step owners s (snd (mr_Merge owners s now i ident))"
| reject: "mr_step owners s (snd (mr_Reject owners s now i ident))"

inductive mr_reachable :: "checker option \<Rightarrow> MRStore \<Rightarrow> bool" for owners where
  init: "mr_reachable owners mr_NewStore"
| step: "mr_reachable owners s \<Longrightarrow> mr_step owners s s' \<Longrightarrow> mr_reachable owners s'"

lemma digits_inject: "digits m = digits n \<Longrightarrow> m = n"
  by (metis option.inject parse_digits_digits)

lemma mr_id_inject [simp]: "mr_id m = mr_id n \<longleftrightarrow> m = n"
  using digits_inject by (auto simp: mr_id_def Itoa_def)

lemma PrincipalID_anonymous: "PrincipalID ident = '''' \<longleftrightarrow> IsAnonymous ident"
  by (simp add: PrincipalID_def IsAnonymous_def)

text \<open>Keys are the identifiers handed out so far, and stored proposals name a path and an author.\<close>

definition mr_keys_ok :: "MRStore \<Rightarrow> bool" where
  "mr_keys_ok s \<longleftrightarrow> gm_wf (mr_proposals s) \<and>
     (\<forall>i p. gm_get (mr_proposals s) i = Some p \<longrightarrow>
        pr_ID p = i \<and> pr_Paths p \<noteq> [] \<and> pr_Author p \<noteq> [] \<and> (\<exists>n. 1 \<le> n \<and> n \<le> mr_seq s \<and> i = mr_id n))"

lemma mr_fresh: "mr_keys_ok s \<Longrightarrow> gm_get (mr_proposals s) (mr_id (Suc (mr_seq s))) = None"
  unfolding mr_keys_ok_def by (metis Suc_n_not_le_n mr_id_inject option.exhaust)

text \<open>What a step does to one proposal.\<close>

inductive pr_change :: "checker option \<Rightarrow> Proposal option \<Rightarrow> Proposal option \<Rightarrow> bool" for owners where
  same: "pr_change owners x x"
| created: "pr_State p = StateOpen \<Longrightarrow> pr_Approvals p = [] \<Longrightarrow> pr_change owners None (Some p)"
| approved: "pr_State p = StateOpen \<Longrightarrow> requireOwner owners p ident = None \<Longrightarrow> PrincipalID ident \<noteq> '''' \<Longrightarrow>
    PrincipalID ident \<noteq> pr_Author p \<Longrightarrow> PrincipalID ident \<in> set as \<Longrightarrow> set (pr_Approvals p) \<subseteq> set as \<Longrightarrow>
    pr_change owners (Some p) (Some (p\<lparr>pr_Approvals := as, pr_State := StateApproved, pr_UpdatedAt := t\<rparr>))"
| merged: "pr_State p = StateApproved \<Longrightarrow> requireOwner owners p ident = None \<Longrightarrow>
    pr_change owners (Some p) (Some (p\<lparr>pr_State := StateMerged, pr_UpdatedAt := t\<rparr>))"
| rejected: "pr_State p \<noteq> StateMerged \<Longrightarrow> requireOwner owners p ident = None \<Longrightarrow>
    pr_change owners (Some p) (Some (p\<lparr>pr_State := StateRejected, pr_UpdatedAt := t\<rparr>))"

lemma mr_step_change:
  assumes "mr_step owners s s'" "mr_keys_ok s"
  shows "pr_change owners (gm_get (mr_proposals s) i) (gm_get (mr_proposals s') i)"
  using assms(1)
proof cases
  case (create now author part paths title description)
  then show ?thesis using mr_fresh [OF assms(2)] by (auto simp: mr_Create_def Let_def intro!: pr_change.intros)
next
  case (approve now k ident)
  define new where "new p = (if \<not> list_ex (\<lambda>a. a = PrincipalID ident) (pr_Approvals p)
    then pr_Approvals p @ [PrincipalID ident] else pr_Approvals p)" for p :: Proposal
  have "PrincipalID ident \<in> set (new p)" "set (pr_Approvals p) \<subseteq> set (new p)" for p
    by (auto simp: new_def list_ex_iff)
  then show ?thesis using approve new_def [symmetric]
    by (cases "gm_get (mr_proposals s) k"; cases "requireOwner owners (the (gm_get (mr_proposals s) k)) ident")
      (auto simp: mr_Approve_def Let_def intro!: pr_change.intros simp del: list_ex_iff)
next
  case (merge now k ident)
  then show ?thesis
    by (cases "gm_get (mr_proposals s) k"; cases "requireOwner owners (the (gm_get (mr_proposals s) k)) ident")
      (auto simp: mr_Merge_def Let_def intro!: pr_change.intros)
next
  case (reject now k ident)
  then show ?thesis
    by (cases "gm_get (mr_proposals s) k"; cases "requireOwner owners (the (gm_get (mr_proposals s) k)) ident")
      (auto simp: mr_Reject_def Let_def intro!: pr_change.intros)
qed

lemma mr_step_keys [inv_intro]:
  assumes "mr_step owners s s'" "mr_keys_ok s" shows "mr_keys_ok s'"
  using assms(1)
proof cases
  case (create now author part paths title description)
  then show ?thesis using assms(2)
    by (auto simp: mr_Create_def Let_def mr_keys_ok_def) (metis Suc_leI le_SucI le_Suc_eq order.refl zero_less_Suc)+
next
  case (approve now k ident)
  then show ?thesis using assms(2)
    by (cases "gm_get (mr_proposals s) k"; cases "requireOwner owners (the (gm_get (mr_proposals s) k)) ident")
      (auto simp: mr_Approve_def Let_def mr_keys_ok_def)
next
  case (merge now k ident)
  then show ?thesis using assms(2)
    by (cases "gm_get (mr_proposals s) k"; cases "requireOwner owners (the (gm_get (mr_proposals s) k)) ident")
      (auto simp: mr_Merge_def Let_def mr_keys_ok_def)
next
  case (reject now k ident)
  then show ?thesis using assms(2)
    by (cases "gm_get (mr_proposals s) k"; cases "requireOwner owners (the (gm_get (mr_proposals s) k)) ident")
      (auto simp: mr_Reject_def Let_def mr_keys_ok_def)
qed

lemma mr_reachable_keys: "mr_reachable owners s \<Longrightarrow> mr_keys_ok s"
proof (induction rule: mr_reachable.induct)
  case init
  show ?case by (simp add: mr_NewStore_def mr_keys_ok_def)
next
  case (step s s')
  then show ?case using mr_step_keys by blast
qed

subsection \<open>The contract of an ownership checker\<close>

locale ownership_checker =
  fixes owns :: checker
  assumes owns_all: "owns paths ident = Inr (True, unowned) \<Longrightarrow> unowned = []"
    and owns_named: "owns paths ident = Inr (True, unowned) \<Longrightarrow> paths \<noteq> [] \<Longrightarrow> \<not> IsAnonymous ident"
begin

lemma requireOwner_None: "requireOwner (Some owns) p ident = None \<longleftrightarrow> owns (pr_Paths p) ident = Inr (True, [])"
  using owns_all by (auto simp: requireOwner_def split: sum.splits prod.splits if_splits)

text \<open>An approval by an owner of all paths who is not the author.\<close>

definition reviewed :: "Proposal \<Rightarrow> bool" where
  "reviewed p \<longleftrightarrow> (\<exists>ident. \<not> IsAnonymous ident \<and> PrincipalID ident \<in> set (pr_Approvals p) \<and>
     PrincipalID ident \<noteq> pr_Author p \<and> owns (pr_Paths p) ident = Inr (True, []))"

definition proposal_ok :: "Proposal \<Rightarrow> bool" where
  "proposal_ok p \<longleftrightarrow> (pr_State p = StateOpen \<longrightarrow> pr_Approvals p = []) \<and>
     (pr_State p \<in> {StateApproved, StateMerged} \<longrightarrow> reviewed p)"

lemma pr_change_ok:
  assumes "pr_change (Some owns) x (Some p')" "\<And>p. x = Some p \<Longrightarrow> proposal_ok p" shows "proposal_ok p'"
  using assms(1)
proof cases
  case (approved p ident as t)
  then have "\<not> IsAnonymous ident" by (metis PrincipalID_anonymous)
  then have "reviewed p'" using approved unfolding requireOwner_None reviewed_def by auto
  with approved show ?thesis by (simp add: proposal_ok_def)
next
  case (merged p ident t)
  then have "reviewed p" using assms(2) by (simp add: proposal_ok_def)
  with merged show ?thesis by (simp add: proposal_ok_def reviewed_def)
qed (use assms(2) in \<open>auto simp: proposal_ok_def\<close>)

lemma reachable_ok:
  "mr_reachable (Some owns) s \<Longrightarrow> gm_get (mr_proposals s) i = Some p \<Longrightarrow> proposal_ok p"
proof (induction arbitrary: i p rule: mr_reachable.induct)
  case (step s s')
  from mr_step_change [OF step.hyps(2) mr_reachable_keys [OF step.hyps(1)], of i] step.prems step.IH
  show ?case by (metis pr_change_ok)
qed (simp add: mr_NewStore_def)

lemma merged_reviewed:
  assumes "mr_reachable (Some owns) s" "gm_get (mr_proposals s) i = Some p" "pr_State p \<in> {StateApproved, StateMerged}"
  shows "\<exists>ident. \<not> IsAnonymous ident \<and> PrincipalID ident \<in> set (pr_Approvals p) \<and>
    PrincipalID ident \<noteq> pr_Author p \<and> owns (pr_Paths p) ident = Inr (True, [])"
  using reachable_ok [OF assms(1,2)] assms(3) unfolding proposal_ok_def reviewed_def by blast

lemma merge_step_owner:
  assumes "mr_reachable (Some owns) s" "snd (mr_Merge (Some owns) s now i ident) \<noteq> s"
  shows "\<exists>p. gm_get (mr_proposals s) i = Some p \<and> owns (pr_Paths p) ident = Inr (True, []) \<and> \<not> IsAnonymous ident"
proof -
  obtain p where p: "gm_get (mr_proposals s) i = Some p" "requireOwner (Some owns) p ident = None"
    using assms(2) by (auto simp: mr_Merge_def Let_def split: option.splits if_splits)
  moreover have "pr_Paths p \<noteq> []" using mr_reachable_keys [OF assms(1)] p(1) by (simp add: mr_keys_ok_def)
  ultimately show ?thesis using owns_named requireOwner_None by blast
qed

end

subsection \<open>The resolver is an ownership checker\<close>

lemma anonymous_no_owner: "IsAnonymous ident \<Longrightarrow> IsOwner r p ident \<noteq> Inr (True, dir)"
proof -
  assume anon: "IsAnonymous ident"
  then have no: "\<not> ownerRefMatchesIdentity ref ident m" for ref m by (simp add: ownerRefMatchesIdentity_def)
  then have none: "\<not> list_ex (\<lambda>ref. ownerRefMatchesIdentity ref ident m) refs" for m refs by (simp add: list_ex_iff)
  have "owner_loop r ident governed dirs \<noteq> Inr (Inl d)" for governed dirs d
    by (induction dirs arbitrary: governed) (auto simp: none split: sum.splits option.splits)
  then show ?thesis by (auto simp: IsOwner_def none split: sum.splits option.splits if_splits)
qed

lemma OwnsAll_named: "OwnsAll r paths ident = Inr (True, unowned) \<Longrightarrow> paths \<noteq> [] \<Longrightarrow> \<not> IsAnonymous ident"
proof
  assume o: "OwnsAll r paths ident = Inr (True, unowned)" "paths \<noteq> []" and anon: "IsAnonymous ident"
  obtain p ps where "paths = p # ps" using o(2) by (cases paths) auto
  then show False using o(1) anonymous_no_owner [OF anon, of r p]
    by (auto simp: OwnsAll_def split: sum.splits prod.splits if_splits)
qed

interpretation resolver: ownership_checker "OwnsAll r" for r
  using OwnsAll_named by unfold_locales (auto simp: OwnsAll_def split: sum.splits)

subsection \<open>Properties\<close>

text \<open>C17: In every reachable state of the proposal store a proposal that is approved or merged carries the
  approval of an authenticated principal other than its author who owns all of its paths.\<close>

theorem merged_only_after_review:
  assumes "mr_reachable (Some (OwnsAll r)) s" "gm_get (mr_proposals s) i = Some p"
    "pr_State p \<in> {StateApproved, StateMerged}"
  shows "\<exists>ident. \<not> IsAnonymous ident \<and> PrincipalID ident \<in> set (pr_Approvals p) \<and>
    PrincipalID ident \<noteq> pr_Author p \<and> OwnsAll r (pr_Paths p) ident = Inr (True, [])"
  using assms by (rule resolver.merged_reviewed)

text \<open>A step of the proposal store never changes the identity, author or paths of a proposal and
  never removes one; it moves an open proposal to approved, an approved one to merged and any that is
  not merged to rejected, and leaves merged proposals as they are.\<close>

theorem proposal_lifecycle:
  assumes "mr_reachable owners s" "mr_step owners s s'" "gm_get (mr_proposals s) i = Some p"
  shows "\<exists>p'. gm_get (mr_proposals s') i = Some p' \<and>
    pr_ID p' = pr_ID p \<and> pr_Author p' = pr_Author p \<and> pr_Paths p' = pr_Paths p \<and>
    (p' = p \<or> (pr_State p, pr_State p') \<in> {(StateOpen, StateApproved), (StateApproved, StateMerged),
       (StateOpen, StateRejected), (StateApproved, StateRejected), (StateRejected, StateRejected)})"
proof -
  have "pr_change owners (Some p) (gm_get (mr_proposals s') i)"
    using mr_step_change [OF assms(2) mr_reachable_keys [OF assms(1)], of i] assms(3) by simp
  then show ?thesis by cases (cases "pr_State p"; auto)+
qed

definition sample_created :: MRStore where
  "sample_created = snd (mr_Create mr_NewStore 1 ''bob'' ''p'' [''a/b''] ''t'' '''')"

definition sample_approved :: MRStore where
  "sample_approved = snd (mr_Approve (Some (OwnsAll sample_resolver)) sample_created 2 ''mr-1'' ann)"

lemma sample_reachable: "mr_reachable (Some (OwnsAll sample_resolver)) sample_created"
  "mr_reachable (Some (OwnsAll sample_resolver)) sample_approved"
proof -
  show c: "mr_reachable (Some (OwnsAll sample_resolver)) sample_created"
    unfolding sample_created_def by (rule mr_reachable.step [OF mr_reachable.init mr_step.create])
  show "mr_reachable (Some (OwnsAll sample_resolver)) sample_approved"
    unfolding sample_approved_def by (rule mr_reachable.step [OF c mr_step.approve])
qed

theorem merged_only_after_review_witness:
  "\<exists>p. gm_get (mr_proposals sample_approved) ''mr-1'' = Some p \<and> pr_State p = StateApproved \<and>
    (\<exists>ident. \<not> IsAnonymous ident \<and> PrincipalID ident \<in> set (pr_Approvals p) \<and>
       PrincipalID ident \<noteq> pr_Author p \<and> OwnsAll sample_resolver (pr_Paths p) ident = Inr (True, []))"
proof -
  have "case gm_get (mr_proposals sample_approved) ''mr-1'' of None \<Rightarrow> False | Some p \<Rightarrow> pr_State p = StateApproved" by code_simp
  then obtain p where p: "gm_get (mr_proposals sample_approved) ''mr-1'' = Some p" "pr_State p = StateApproved"
    by (auto split: option.splits)
  with merged_only_after_review [OF sample_reachable(2) p(1)] show ?thesis by simp
qed

theorem proposal_lifecycle_witness:
  "\<exists>p p'. gm_get (mr_proposals sample_created) ''mr-1'' = Some p \<and> gm_get (mr_proposals sample_approved) ''mr-1'' = Some p' \<and>
    pr_ID p' = pr_ID p \<and> pr_Author p' = pr_Author p \<and> pr_Paths p' = pr_Paths p"
proof -
  have "gm_get (mr_proposals sample_created) ''mr-1'' \<noteq> None" by code_simp
  then obtain p where p: "gm_get (mr_proposals sample_created) ''mr-1'' = Some p" by blast
  have "mr_step (Some (OwnsAll sample_resolver)) sample_created sample_approved"
    unfolding sample_approved_def by (rule mr_step.approve)
  from proposal_lifecycle [OF sample_reachable(1) this p] p show ?thesis by blast
qed

end
