(* ===== verification/GoPath.thy ===== *)
theory GoPath
  imports GoStrings
begin

section \<open>The Go path library\<close>

text \<open>
  \<^verbatim>\<open>path.Clean\<close> and what the sources use of it: the shortest path equivalent to the argument by
  lexical processing. A path is cut at slashes; empty and dot segments go, a dot-dot segment
  removes the segment before it, and a rooted path never climbs above its root.
\<close>

abbreviation slash :: char where "slash \<equiv> CHR ''/''"

fun clean_segs :: "bool \<Rightarrow> string list \<Rightarrow> string list \<Rightarrow> string list" where
  "clean_segs rooted st [] = rev st"
| "clean_segs rooted st (s # ss) =
     (if s = '''' \<or> s = ''.'' then clean_segs rooted st ss
      else if s = ''..'' then
        (case st of
           [] \<Rightarrow> clean_segs rooted (if rooted then [] else [''..'']) ss
         | t # ts \<Rightarrow> if t = ''..'' then clean_segs rooted (''..'' # st) ss
                     else clean_segs rooted ts ss)
      else clean_segs rooted (s # st) ss)"

definition path_Clean :: "string \<Rightarrow> string" where
  "path_Clean p =
     (if p = '''' then ''.''
      else if hd p = slash then ''/'' @ Join (clean_segs True [] (Split p slash)) ''/''
      else let segs = clean_segs False [] (Split p slash)
        in if segs = [] then ''.'' else Join segs ''/'')"

subsection \<open>Cleaned segments\<close>

definition plain_seg :: "string \<Rightarrow> bool" where
  "plain_seg s \<longleftrightarrow> s \<noteq> '''' \<and> s \<noteq> ''.'' \<and> s \<noteq> ''..'' \<and> slash \<notin> set s"

lemma seg_cases:
  assumes "slash \<notin> set s"
  obtains "s = [] \<or> s = ''.''" | "s = ''..''" | "plain_seg s"
  using assms unfolding plain_seg_def by blast

lemma clean_segs_push: "plain_seg s \<Longrightarrow> clean_segs r st (s # ss) = clean_segs r (s # st) ss"
  by (simp add: plain_seg_def)

lemma plain_seg_not_dotdot: "plain_seg s \<Longrightarrow> s \<noteq> ''..''"
  by (simp add: plain_seg_def)

lemma clean_segs_plain:
  assumes "\<forall>s \<in> set st. plain_seg s" "\<forall>s \<in> set ss. slash \<notin> set s"
  shows "\<forall>s \<in> set (clean_segs True st ss). plain_seg s"
  using assms
proof (induction ss arbitrary: st)
  case (Cons s ss)
  note IH = Cons.IH and st = Cons.prems(1)
  have ss: "\<forall>s \<in> set ss. slash \<notin> set s" and s: "slash \<notin> set s" using Cons.prems(2) by simp_all
  from s show ?case
  proof (cases s rule: seg_cases)
    case 1
    then have "clean_segs True st (s # ss) = clean_segs True st ss" by (elim disjE) simp_all
    with IH [OF st ss] show ?thesis by (simp only:)
  next
    case 2
    show ?thesis
    proof (cases st)
      case Nil
      then have "clean_segs True st (s # ss) = clean_segs True [] ss" using 2 by simp
      moreover have "\<forall>s \<in> set []. plain_seg s" by simp
      ultimately show ?thesis using IH [of "[]", OF _ ss] by (simp only:)
    next
      case (Cons t ts)
      then have "clean_segs True st (s # ss) = clean_segs True ts ss"
        using 2 st plain_seg_not_dotdot [of t] by simp
      moreover have "\<forall>s \<in> set ts. plain_seg s" using st Cons by simp
      ultimately show ?thesis using IH [of ts] ss by (simp only:)
    qed
  next
    case 3
    then have "\<forall>s \<in> set (s # st). plain_seg s" using st by simp
    from IH [OF this ss] show ?thesis unfolding clean_segs_push [OF 3] .
  qed
qed simp

lemma clean_segs_id:
  "\<forall>s \<in> set ss. plain_seg s \<Longrightarrow> clean_segs r st ss = rev st @ ss"
  by (induction ss arbitrary: st) (simp_all add: clean_segs_push del: clean_segs.simps(2))

text \<open>A cleaned rooted path is a slash followed by plain segments.\<close>

lemma path_Clean_rooted:
  assumes "p \<noteq> ''''" "hd p = slash"
  obtains segs where "path_Clean p = ''/'' @ Join segs ''/''" "\<forall>s \<in> set segs. plain_seg s"
proof -
  have "\<forall>s \<in> set (clean_segs True [] (Split p slash)). plain_seg s"
    by (rule clean_segs_plain) (simp, meson Split_no_sep)
  with that assms show ?thesis by (simp add: path_Clean_def)
qed

lemma Split_Join_plain:
  "segs \<noteq> [] \<Longrightarrow> \<forall>s \<in> set segs. plain_seg s \<Longrightarrow> Split (Join segs ''/'') slash = segs"
  by (intro Split_Join) (simp_all add: plain_seg_def)

lemma path_Clean_segs:
  assumes "\<forall>s \<in> set segs. plain_seg s"
  shows "path_Clean (''/'' @ Join segs ''/'') = ''/'' @ Join segs ''/''"
proof (cases "segs = []")
  case False
  then show ?thesis
    using Split_Join_plain [OF False assms] clean_segs_id [OF assms, of True "[]"] by (simp add: path_Clean_def)
qed (simp add: path_Clean_def)

lemma path_Clean_idem_rooted:
  assumes "p \<noteq> ''''" "hd p = slash"
  shows "path_Clean (path_Clean p) = path_Clean p"
  using assms by (metis path_Clean_rooted path_Clean_segs)

lemma Join_plain_hd:
  assumes "segs \<noteq> []" "\<forall>s \<in> set segs. plain_seg s"
  shows "Join segs ''/'' \<noteq> [] \<and> hd (Join segs ''/'') \<noteq> slash"
proof -
  obtain s rest where segs: "segs = s # rest" using assms(1) by (cases segs) auto
  then have "s \<noteq> []" "slash \<notin> set s" using assms(2) by (simp_all add: plain_seg_def)
  then have "s \<noteq> [] \<and> hd s \<noteq> slash" using hd_in_set by metis
  then show ?thesis by (cases rest) (simp_all add: segs)
qed

lemma path_Clean_rel_segs:
  assumes "segs \<noteq> []" "\<forall>s \<in> set segs. plain_seg s"
  shows "path_Clean (Join segs ''/'') = Join segs ''/''"
  using Split_Join_plain [OF assms] Join_plain_hd [OF assms] assms(1) clean_segs_id [OF assms(2), of False "[]"]
  by (simp add: path_Clean_def)

text \<open>Cleaning introduces no new characters but slashes and dots.\<close>

lemma clean_segs_subset: "set (clean_segs r st ss) \<subseteq> set st \<union> set ss \<union> {''..''}"
proof (induction ss arbitrary: st)
  case (Cons s ss)
  have *: "clean_segs r st (s # ss) \<in> {clean_segs r st ss, clean_segs r (tl st) ss, clean_segs r (''..'' # st) ss,
      clean_segs r [] ss, clean_segs r [''..''] ss, clean_segs r (s # st) ss}"
    by (cases st) simp_all
  have "set (tl st) \<subseteq> set st" by (cases st) auto
  then show ?case
    using * Cons.IH [of st] Cons.IH [of "tl st"] Cons.IH [of "''..'' # st"] Cons.IH [of "[]"]
      Cons.IH [of "[''..'']"] Cons.IH [of "s # st"]
    unfolding insert_iff empty_iff list.set by (elim disjE FalseE) (simp only:, blast)+
qed auto

lemma Split_chars: "w \<in> set (Split s c) \<Longrightarrow> set w \<subseteq> set s"
proof (induction s arbitrary: w)
  case (Cons x s)
  show ?case
  proof (cases "x = c")
    case True
    then show ?thesis using Cons by auto
  next
    case False
    obtain v vs where "Split s c = v # vs" by (cases "Split s c") auto
    then show ?thesis using Cons False by fastforce
  qed
qed simp

lemma path_Clean_chars:
  assumes "p \<noteq> ''''" "hd p = slash" "c \<in> set (path_Clean p)"
  shows "c \<in> set p \<or> c = slash \<or> c = CHR ''.''"
proof -
  have J: "set (Join ws sep) \<subseteq> \<Union> (set ` set ws) \<union> set sep" for ws :: "string list" and sep
    by (induction ws rule: induct_list012) (auto simp: Join_Cons)
  have "c = slash \<or> (\<exists>w \<in> set (clean_segs True [] (Split p slash)). c \<in> set w)"
    using assms J [of "clean_segs True [] (Split p slash)" "''/''"] by (auto simp: path_Clean_def)
  moreover have "w \<in> set (Split p slash) \<or> w = ''..''" if "w \<in> set (clean_segs True [] (Split p slash))" for w
    using that clean_segs_subset [of True "[]" "Split p slash"] by auto
  ultimately show ?thesis using Split_chars [of _ p slash] by fastforce
qed

text \<open>\<open>path.Dir\<close>, and \<open>path.Join\<close> of two elements.\<close>

definition path_Dir :: "string \<Rightarrow> string" where
  "path_Dir p = path_Clean (case LastIndexByte p CHR ''/'' of None \<Rightarrow> '''' | Some i \<Rightarrow> take (Suc i) p)"

definition path_Join :: "string \<Rightarrow> string \<Rightarrow> string" where
  "path_Join a b = (if a = '''' \<and> b = '''' then '''' else path_Clean (if a = '''' then b else if b = '''' then a else a @ ''/'' @ b))"

end
