(* ===== verification/WorkspaceBundle.thy ===== *)
theory WorkspaceBundle
  imports GoPath
begin

section \<open>Workspace bundles\<close>

text \<open>
  The package \<^verbatim>\<open>src/internal/workspacebundle\<close>: the bundles of file operations that a client
  publishes (\<^verbatim>\<open>bundle.go\<close>) or pushes as commits (\<^verbatim>\<open>commit_bundle.go\<close>), and their
  validation. JSON decoding is not modelled: \<open>Parse\<close> is the validation of a decoded bundle.
\<close>

definition OperationUpsert :: string where "OperationUpsert = ''upsert''"
definition OperationDelete :: string where "OperationDelete = ''delete''"
definition OperationMkdir :: string where "OperationMkdir = ''mkdir''"
definition OperationRmdir :: string where "OperationRmdir = ''rmdir''"
definition OperationSymlink :: string where "OperationSymlink = ''symlink''"
definition OperationRename :: string where "OperationRename = ''rename''"
definition OperationChmod :: string where "OperationChmod = ''chmod''"

record Operation =
  op_Kind :: string
  op_Path :: string
  op_Mode :: int
  op_Content :: bytes
  op_Target :: string

text \<open>\<open>RepositoryBundle\<close> and \<open>SourceCommitRepository\<close> have the same fields.\<close>

record RepositoryBundle =
  rb_StorageID :: string
  rb_DisplayPath :: string
  rb_RepoURL :: string
  rb_Branch :: string
  rb_BaseCommit :: string
  rb_Operations :: "Operation list"

record WsBundle =
  wb_WorkspaceID :: string
  wb_Repositories :: "RepositoryBundle list"

record SourceCommit =
  sc_ID :: string
  sc_ParentID :: string
  sc_Message :: string
  sc_AuthorName :: string
  sc_AuthorEmail :: string
  sc_PrincipalID :: string
  sc_CreatedAtUnix :: int
  sc_Repositories :: "RepositoryBundle list"

record SourceCommitBundle =
  scb_WorkspaceID :: string
  scb_PrincipalID :: string
  scb_LogicalBranch :: string
  scb_Commits :: "SourceCommit list"

record WorkspaceRepositoryRef =
  wr_StorageId :: string
  wr_DisplayPath :: string
  wr_RepoUrl :: string
  wr_Branch :: string
  wr_BaseCommit :: string

subsection \<open>Operations\<close>

definition isSafeRelativePath :: "string \<Rightarrow> bool" where
  "isSafeRelativePath p =
     (if p = ''.'' \<or> p = '''' then False
      else if HasPrefix p ''/'' then False
      else let clean = path_Clean p in
        if clean = ''.'' \<or> clean = ''..'' \<or> HasPrefix clean ''../'' then False
        else \<not> list_ex (\<lambda>part. EqualFold part ''.git'') (Split clean slash))"

datatype op_error = UnsupportedKind string nat string | PathRequired string nat | PathInvalid string nat string
  | SymlinkTargetRequired string nat | RenameTargetRequired string nat | RenameTargetInvalid string nat string

definition validateOperation :: "string \<Rightarrow> nat \<Rightarrow> Operation \<Rightarrow> op_error option" where
  "validateOperation storageID idx oper =
     (if op_Kind oper \<notin> {OperationUpsert, OperationDelete, OperationMkdir, OperationRmdir, OperationSymlink,
           OperationRename, OperationChmod} then Some (UnsupportedKind storageID idx (op_Kind oper))
      else if TrimSpace (op_Path oper) = '''' then Some (PathRequired storageID idx)
      else if \<not> isSafeRelativePath (op_Path oper) then Some (PathInvalid storageID idx (op_Path oper))
      else if op_Kind oper = OperationSymlink \<and> TrimSpace (op_Target oper) = '''' then Some (SymlinkTargetRequired storageID idx)
      else if op_Kind oper = OperationRename \<and> TrimSpace (op_Target oper) = '''' then Some (RenameTargetRequired storageID idx)
      else if op_Kind oper = OperationRename \<and> \<not> isSafeRelativePath (op_Target oper)
        then Some (RenameTargetInvalid storageID idx (op_Target oper))
      else None)"

fun validate_ops :: "string \<Rightarrow> nat \<Rightarrow> Operation list \<Rightarrow> op_error option" where
  "validate_ops storageID idx [] = None"
| "validate_ops storageID idx (x # xs) =
     (case validateOperation storageID idx x of Some e \<Rightarrow> Some e | None \<Rightarrow> validate_ops storageID (Suc idx) xs)"

subsection \<open>Bundles\<close>

datatype bundle_error = BundleRequired | WorkspaceIDRequired | NoRepositories | StorageIDRequired nat
  | DuplicateRepository string | DisplayPathRequired string | RepoURLRequired string | BadOperation op_error
  | NoCommits | CommitIDRequired nat | DuplicateCommit string | CommitWithoutRepository string
  | BranchRequired string | BaseCommitRequired string | InCommit string bundle_error

fun validate_repos :: "nat \<Rightarrow> string list \<Rightarrow> RepositoryBundle list \<Rightarrow> bundle_error option" where
  "validate_repos i seen [] = None"
| "validate_repos i seen (repo # repos) =
     (if TrimSpace (rb_StorageID repo) = '''' then Some (StorageIDRequired i)
      else if rb_StorageID repo \<in> set seen then Some (DuplicateRepository (rb_StorageID repo))
      else if TrimSpace (rb_DisplayPath repo) = '''' then Some (DisplayPathRequired (rb_StorageID repo))
      else if TrimSpace (rb_RepoURL repo) = '''' then Some (RepoURLRequired (rb_StorageID repo))
      else case validate_ops (rb_StorageID repo) 0 (rb_Operations repo) of
        Some e \<Rightarrow> Some (BadOperation e)
      | None \<Rightarrow> validate_repos (Suc i) (rb_StorageID repo # seen) repos)"

definition bundle_Validate :: "WsBundle option \<Rightarrow> bundle_error option" where
  "bundle_Validate b =
     (case b of
        None \<Rightarrow> Some BundleRequired
      | Some b \<Rightarrow>
          if TrimSpace (wb_WorkspaceID b) = '''' then Some WorkspaceIDRequired
          else if wb_Repositories b = [] then Some NoRepositories
          else validate_repos 0 [] (wb_Repositories b))"

definition repo_ref :: "RepositoryBundle \<Rightarrow> WorkspaceRepositoryRef" where
  "repo_ref repo = \<lparr>wr_StorageId = rb_StorageID repo, wr_DisplayPath = rb_DisplayPath repo, wr_RepoUrl = rb_RepoURL repo,
     wr_Branch = rb_Branch repo, wr_BaseCommit = rb_BaseCommit repo\<rparr>"

definition bundle_RepositoryRefs :: "WsBundle option \<Rightarrow> WorkspaceRepositoryRef list" where
  "bundle_RepositoryRefs b = (case b of None \<Rightarrow> [] | Some b \<Rightarrow> map repo_ref (wb_Repositories b))"

definition bundle_RepositoryByStorageID :: "WsBundle option \<Rightarrow> string \<Rightarrow> RepositoryBundle option" where
  "bundle_RepositoryByStorageID b storageID =
     (case b of None \<Rightarrow> None | Some b \<Rightarrow> find (\<lambda>r. rb_StorageID r = storageID) (wb_Repositories b))"

subsection \<open>Source commit bundles\<close>

fun validate_commit_repos :: "nat \<Rightarrow> string list \<Rightarrow> RepositoryBundle list \<Rightarrow> bundle_error option" where
  "validate_commit_repos j seen [] = None"
| "validate_commit_repos j seen (repo # repos) =
     (if TrimSpace (rb_StorageID repo) = '''' then Some (StorageIDRequired j)
      else if rb_StorageID repo \<in> set seen then Some (DuplicateRepository (rb_StorageID repo))
      else if TrimSpace (rb_DisplayPath repo) = '''' then Some (DisplayPathRequired (rb_StorageID repo))
      else if TrimSpace (rb_RepoURL repo) = '''' then Some (RepoURLRequired (rb_StorageID repo))
      else if TrimSpace (rb_Branch repo) = '''' then Some (BranchRequired (rb_StorageID repo))
      else if TrimSpace (rb_BaseCommit repo) = '''' then Some (BaseCommitRequired (rb_StorageID repo))
      else case validate_ops (rb_StorageID repo) 0 (rb_Operations repo) of
        Some e \<Rightarrow> Some (BadOperation e)
      | None \<Rightarrow> validate_commit_repos (Suc j) (rb_StorageID repo # seen) repos)"

fun validate_commits :: "nat \<Rightarrow> string list \<Rightarrow> SourceCommit list \<Rightarrow> bundle_error option" where
  "validate_commits i seen [] = None"
| "validate_commits i seen (c # cs) =
     (if TrimSpace (sc_ID c) = '''' then Some (CommitIDRequired i)
      else if sc_ID c \<in> set seen then Some (DuplicateCommit (sc_ID c))
      else if sc_Repositories c = [] then Some (CommitWithoutRepository (sc_ID c))
      else case validate_commit_repos 0 [] (sc_Repositories c) of
        Some (BadOperation e) \<Rightarrow> Some (BadOperation e)
      | Some e \<Rightarrow> Some (InCommit (sc_ID c) e)
      | None \<Rightarrow> validate_commits (Suc i) (sc_ID c # seen) cs)"

definition commit_bundle_Validate :: "SourceCommitBundle option \<Rightarrow> bundle_error option" where
  "commit_bundle_Validate b =
     (case b of
        None \<Rightarrow> Some BundleRequired
      | Some b \<Rightarrow>
          if TrimSpace (scb_WorkspaceID b) = '''' then Some WorkspaceIDRequired
          else if scb_Commits b = [] then Some NoCommits
          else validate_commits 0 [] (scb_Commits b))"

fun first_refs :: "string list \<Rightarrow> RepositoryBundle list \<Rightarrow> WorkspaceRepositoryRef list" where
  "first_refs seen [] = []"
| "first_refs seen (r # rs) =
     (if rb_StorageID r \<in> set seen then first_refs seen rs else repo_ref r # first_refs (rb_StorageID r # seen) rs)"

definition commit_bundle_RepositoryRefs :: "SourceCommitBundle option \<Rightarrow> WorkspaceRepositoryRef list" where
  "commit_bundle_RepositoryRefs b =
     (case b of None \<Rightarrow> [] | Some b \<Rightarrow> first_refs [] (concat (map sc_Repositories (scb_Commits b))))"

definition LocalCommitIDs :: "SourceCommitBundle option \<Rightarrow> string list" where
  "LocalCommitIDs b = (case b of None \<Rightarrow> [] | Some b \<Rightarrow> filter (\<lambda>i. TrimSpace i \<noteq> '''') (map sc_ID (scb_Commits b)))"

definition commit_bundle_RepositoryByStorageID :: "SourceCommitBundle option \<Rightarrow> string \<Rightarrow> RepositoryBundle option" where
  "commit_bundle_RepositoryByStorageID b storageID =
     (case b of None \<Rightarrow> None
      | Some b \<Rightarrow> find (\<lambda>r. rb_StorageID r = storageID) (concat (map sc_Repositories (scb_Commits b))))"

subsection \<open>Safe paths\<close>

text \<open>The cleaned form of a relative path: some dot-dot segments and then plain ones.\<close>

lemma clean_segs_rel:
  assumes "rev st = replicate n ''..'' @ ps" "\<forall>s \<in> set ps. plain_seg s" "\<forall>s \<in> set ss. slash \<notin> set s"
  shows "\<exists>m qs. clean_segs False st ss = replicate m ''..'' @ qs \<and> (\<forall>s \<in> set qs. plain_seg s)"
  using assms
proof (induction ss arbitrary: st n ps)
  case Nil
  then show ?case by auto
next
  case (Cons s ss)
  have ss: "\<forall>s \<in> set ss. slash \<notin> set s" and s: "slash \<notin> set s" using Cons.prems(3) by simp_all
  from s show ?case
  proof (cases s rule: seg_cases)
    case 1
    then have "clean_segs False st (s # ss) = clean_segs False st ss" by (elim disjE) simp_all
    with Cons.IH [OF Cons.prems(1,2) ss] show ?thesis by (simp only:)
  next
    case 2
    show ?thesis
    proof (cases ps rule: rev_cases)
      case Nil
      then have st: "st = replicate n ''..''" using Cons.prems(1) by (metis append_Nil2 rev_replicate rev_rev_ident)
      then have "clean_segs False st (s # ss) = clean_segs False (replicate (Suc n) ''..'') ss"
        using 2 by (cases n) simp_all
      moreover have "rev (replicate (Suc n) ''..'') = replicate (Suc n) ''..'' @ []" by (simp only: rev_replicate append_Nil2)
      ultimately show ?thesis using Cons.IH [of "replicate (Suc n) ''..''" "Suc n" "[]"] ss by simp
    next
      case (snoc qs q)
      then have st: "st = q # rev (replicate n ''..'' @ qs)" using Cons.prems(1) by (metis append_assoc rev_eq_Cons_iff rev_rev_ident)
      moreover have "q \<noteq> ''..''" using Cons.prems(2) snoc plain_seg_not_dotdot by simp
      ultimately have "clean_segs False st (s # ss) = clean_segs False (rev (replicate n ''..'' @ qs)) ss" using 2 by simp
      then show ?thesis using Cons.IH [of "rev (replicate n ''..'' @ qs)" n qs] Cons.prems(2) snoc ss by simp
    qed
  next
    case 3
    have "rev (s # st) = replicate n ''..'' @ (ps @ [s])" using Cons.prems(1) by simp
    moreover have "\<forall>x \<in> set (ps @ [s]). plain_seg x" using Cons.prems(2) 3 by simp
    ultimately show ?thesis using Cons.IH ss unfolding clean_segs_push [OF 3] by blast
  qed
qed

definition inside_repo :: "string \<Rightarrow> bool" where
  "inside_repo p \<longleftrightarrow> (\<exists>segs. segs \<noteq> [] \<and> path_Clean p = Join segs ''/'' \<and>
     (\<forall>s \<in> set segs. plain_seg s \<and> \<not> EqualFold s ''.git''))"

lemma isSafeRelativePath_inside:
  assumes "isSafeRelativePath p" shows "inside_repo p"
proof -
  have p: "p \<noteq> []" "\<not> HasPrefix p ''/''" and clean: "path_Clean p \<noteq> ''.''" "path_Clean p \<noteq> ''..''" "\<not> HasPrefix (path_Clean p) ''../''"
    and git: "\<not> list_ex (\<lambda>part. EqualFold part ''.git'') (Split (path_Clean p) slash)"
    using assms unfolding isSafeRelativePath_def Let_def by (auto simp only: if_split if_True if_False split: if_splits)
  have "hd p \<noteq> slash" using p by (cases p) (simp_all add: HasPrefix_def)
  define segs where "segs = clean_segs False [] (Split p slash)"
  have "\<forall>s \<in> set (Split p slash). slash \<notin> set s" by (meson Split_no_sep)
  then have "\<exists>n qs. segs = replicate n ''..'' @ qs \<and> (\<forall>s \<in> set qs. plain_seg s)"
    unfolding segs_def by (intro clean_segs_rel [of "[]" 0 "[]"]) simp_all
  then obtain n qs where segs: "segs = replicate n ''..'' @ qs" "\<forall>s \<in> set qs. plain_seg s" by blast
  have c: "path_Clean p = (if segs = [] then ''.'' else Join segs ''/'')"
    using p(1) \<open>hd p \<noteq> slash\<close> by (simp add: path_Clean_def segs_def Let_def)
  with clean(1) have ne: "segs \<noteq> []" by (cases "segs = []") simp_all
  have "n = 0"
  proof (rule ccontr)
    assume "n \<noteq> 0"
    then obtain rest where "segs = ''..'' # rest" using segs(1) by (cases n) simp_all
    with c clean(2,3) show False by (cases rest) (simp_all add: HasPrefix_def)
  qed
  then have plain: "\<forall>s \<in> set segs. plain_seg s" using segs by simp
  moreover have "Split (path_Clean p) slash = segs" using c ne Split_Join_plain [OF ne plain] by simp
  ultimately show ?thesis using c ne git unfolding inside_repo_def by (intro exI [of _ segs]) (simp add: list_ex_iff)
qed

lemma validate_ops_None:
  "validate_ops sid i xs = None \<Longrightarrow> x \<in> set xs \<Longrightarrow>
   inside_repo (op_Path x) \<and> (op_Kind x = OperationRename \<longrightarrow> inside_repo (op_Target x))"
proof (induction xs arbitrary: i)
  case (Cons y ys)
  then have "validateOperation sid i y = None" and rest: "validate_ops sid (Suc i) ys = None"
    by (simp_all split: option.splits)
  then have "isSafeRelativePath (op_Path y)" "op_Kind y = OperationRename \<longrightarrow> isSafeRelativePath (op_Target y)"
    by (simp_all add: validateOperation_def split: if_splits)
  with Cons rest show ?case using isSafeRelativePath_inside by auto
qed simp

lemma validate_commit_repos_None:
  "validate_commit_repos j seen repos = None \<Longrightarrow>
   distinct (map rb_StorageID repos) \<and> set seen \<inter> rb_StorageID ` set repos = {} \<and>
   list_all (\<lambda>r. validate_ops (rb_StorageID r) 0 (rb_Operations r) = None) repos"
proof (induction repos arbitrary: j seen)
  case (Cons r rs)
  then have "rb_StorageID r \<notin> set seen" "validate_ops (rb_StorageID r) 0 (rb_Operations r) = None"
    "validate_commit_repos (Suc j) (rb_StorageID r # seen) rs = None"
    by (simp_all split: if_splits option.splits)
  with Cons.IH [of "Suc j" "rb_StorageID r # seen"] show ?case by auto
qed simp

lemma validate_commits_None:
  "validate_commits i seen cs = None \<Longrightarrow>
   distinct (map sc_ID cs) \<and> set seen \<inter> sc_ID ` set cs = {} \<and>
   list_all (\<lambda>c. validate_commit_repos 0 [] (sc_Repositories c) = None) cs"
proof (induction cs arbitrary: i seen)
  case (Cons c cs)
  then have "sc_ID c \<notin> set seen" "validate_commit_repos 0 [] (sc_Repositories c) = None"
    "validate_commits (Suc i) (sc_ID c # seen) cs = None"
    by (simp_all split: if_splits option.splits bundle_error.splits)
  with Cons.IH [of "Suc i" "sc_ID c # seen"] show ?case by auto
qed simp

subsection \<open>Properties\<close>

text \<open>C31: A source commit bundle that passes validation has distinct commit IDs, distinct repositories per
  commit, and only operations whose paths, once cleaned, stay inside the repository: a non-empty
  sequence of plain segments, none of them a variant of \<open>.git\<close>; the same holds for the target of
  a rename.\<close>

theorem commit_bundle_Validate_safe:
  assumes "commit_bundle_Validate (Some b) = None"
  shows "distinct (map sc_ID (scb_Commits b)) \<and>
    (\<forall>c \<in> set (scb_Commits b). distinct (map rb_StorageID (sc_Repositories c)) \<and>
       (\<forall>r \<in> set (sc_Repositories c). \<forall>x \<in> set (rb_Operations r).
          inside_repo (op_Path x) \<and> (op_Kind x = OperationRename \<longrightarrow> inside_repo (op_Target x))))"
proof -
  from assms have "validate_commits 0 [] (scb_Commits b) = None"
    by (simp add: commit_bundle_Validate_def split: if_splits)
  from validate_commits_None [OF this] validate_commit_repos_None validate_ops_None
  show ?thesis unfolding list_all_iff by blast
qed

definition sample_commit_bundle :: SourceCommitBundle where
  "sample_commit_bundle = \<lparr>scb_WorkspaceID = ''w'', scb_PrincipalID = '''', scb_LogicalBranch = '''',
     scb_Commits = [\<lparr>sc_ID = ''c1'', sc_ParentID = '''', sc_Message = '''', sc_AuthorName = '''', sc_AuthorEmail = '''',
       sc_PrincipalID = '''', sc_CreatedAtUnix = 0, sc_Repositories = [\<lparr>rb_StorageID = ''s'', rb_DisplayPath = ''guardian/p'',
         rb_RepoURL = ''u'', rb_Branch = ''main'', rb_BaseCommit = ''0'', rb_Operations = [
           \<lparr>op_Kind = ''upsert'', op_Path = ''a/../b/f'', op_Mode = 0, op_Content = [], op_Target = ''''\<rparr>,
           \<lparr>op_Kind = ''rename'', op_Path = ''a/g'', op_Mode = 0, op_Content = [], op_Target = ''b/g''\<rparr>]\<rparr>]\<rparr>]\<rparr>"

theorem commit_bundle_Validate_safe_witness:
  "commit_bundle_Validate (Some sample_commit_bundle) = None \<and>
   inside_repo ''a/../b/f'' \<and> inside_repo ''a/g'' \<and> inside_repo ''b/g''"
proof -
  have v: "commit_bundle_Validate (Some sample_commit_bundle) = None" by code_simp
  from commit_bundle_Validate_safe [OF v] show ?thesis
    by (simp add: v, simp add: sample_commit_bundle_def OperationRename_def)
qed

end
