(* ===== verification/OwnershipGate.thy ===== *)
theory OwnershipGate
  imports MergeRequests WorkspaceBundle
begin

section \<open>The ownership gate\<close>

text \<open>
  The review gate of the router: \<^verbatim>\<open>src/internal/router/authz_merge_gate.go\<close> with the wiring of
  \<^verbatim>\<open>src/internal/router/ownership.go\<close>. The identity of the caller is an argument; the context is
  otherwise not used. Errors keep the values the messages quote.
\<close>

datatype MergeDecision = MergeDecisionDirect | MergeDecisionMergeRequest

definition MergeDecision_String :: "MergeDecision \<Rightarrow> string" where
  "MergeDecision_String d = (case d of MergeDecisionDirect \<Rightarrow> ''direct'' | MergeDecisionMergeRequest \<Rightarrow> ''merge_request'')"

text \<open>The fields of the router that the gate uses.\<close>

record gate_router =
  gr_OwnershipGateEnabled :: bool
  gr_ownershipResolver :: "checker option"
  gr_ownershipResolverFull :: "OwnershipResolver option"
  gr_mergeRequests :: "(checker option \<times> MRStore) option"

definition SetOwnershipResolver :: "gate_router \<Rightarrow> checker option \<Rightarrow> gate_router" where
  "SetOwnershipResolver r c = r\<lparr>gr_ownershipResolver := c\<rparr>"

definition ConfigureOwnership :: "gate_router \<Rightarrow> OwnershipResolver option \<Rightarrow> gate_router" where
  "ConfigureOwnership r resolver =
     (case resolver of
        None \<Rightarrow> r\<lparr>gr_ownershipResolver := None, gr_ownershipResolverFull := None, gr_mergeRequests := None\<rparr>
      | Some res \<Rightarrow> r\<lparr>gr_ownershipResolver := Some (OwnsAll res), gr_ownershipResolverFull := Some res,
          gr_mergeRequests := Some (Some (OwnsAll res), mr_NewStore)\<rparr>)"

text \<open>\<open>splitManagedDisplayPath\<close>: \<open>None\<close> when the path is not in a managed namespace.\<close>

definition splitManagedDisplayPath :: "string \<Rightarrow> (string \<times> string) option" where
  "splitManagedDisplayPath full =
     (let full = Trim (TrimSpace full) slash in
      if full = '''' then None
      else let parts = Split full slash in
        if hd parts = ''guardian'' then
          (if length parts < 2 then None else Some (''guardian/'' @ parts ! 1, Join (drop 2 parts) ''/''))
        else if hd parts = ''doctor'' then
          (if length parts < 2 then None else Some (''doctor/'' @ parts ! 1, Join (drop 2 parts) ''/''))
        else if hd parts = ''guardian-system'' then Some (''guardian-system'', Join (drop 1 parts) ''/'')
        else None)"

subsection \<open>The changed paths\<close>

definition full_path :: "string \<Rightarrow> Operation \<Rightarrow> string" where
  "full_path base oper =
     (let p = Trim (op_Path oper) slash in
      if p \<noteq> '''' then (if base \<noteq> '''' then base @ ''/'' @ p else p) else base)"

definition all_paths :: "SourceCommitBundle \<Rightarrow> string list" where
  "all_paths bu = concat (map (\<lambda>c. concat (map (\<lambda>r. map (full_path (Trim (rb_DisplayPath r) slash)) (rb_Operations r))
     (sc_Repositories c))) (scb_Commits bu))"

fun add_distinct :: "string list \<Rightarrow> string list \<Rightarrow> string list" where
  "add_distinct seen [] = []"
| "add_distinct seen (p # ps) =
     (if p \<noteq> '''' \<and> p \<notin> set seen then p # add_distinct (p # seen) ps else add_distinct seen ps)"

definition changedPathsFromSourceBundle :: "SourceCommitBundle option \<Rightarrow> string list" where
  "changedPathsFromSourceBundle bu = (case bu of None \<Rightarrow> [] | Some b \<Rightarrow> add_distinct [] (all_paths b))"

subsection \<open>The decision\<close>

definition evaluateSubtreeOwnership ::
  "gate_router \<Rightarrow> Identity \<Rightarrow> string list \<Rightarrow> (string, MergeDecision \<times> string list) result"
where
  "evaluateSubtreeOwnership r ident paths =
     (case gr_ownershipResolver r of
        None \<Rightarrow> Inr (MergeDecisionDirect, [])
      | Some owns \<Rightarrow>
          if paths = [] then Inr (MergeDecisionDirect, [])
          else case owns paths ident of
            Inl e \<Rightarrow> Inl e
          | Inr (ownsAll, unowned) \<Rightarrow>
              if ownsAll then Inr (MergeDecisionDirect, []) else Inr (MergeDecisionMergeRequest, unowned))"

definition reviewersFromOwnerRefs :: "OwnerRef list \<Rightarrow> string list" where
  "reviewersFromOwnerRefs refs = map OwnerRef_String refs"

definition ownersForUnowned :: "gate_router \<Rightarrow> string list \<Rightarrow> string list" where
  "ownersForUnowned r paths =
     (case gr_ownershipResolverFull r of
        None \<Rightarrow> []
      | Some res \<Rightarrow> (case OwnersOf res paths of Inl e \<Rightarrow> [] | Inr refs \<Rightarrow> reviewersFromOwnerRefs refs))"

datatype gate_error = NoResolverConfigured | OwnershipUnverified string | ReviewRequired "string list" "string list"

text \<open>A governance check that fails counts as governed.\<close>

definition counts_governed :: "OwnershipResolver \<Rightarrow> string \<Rightarrow> bool" where
  "counts_governed res p = (case Governed res p of Inl e \<Rightarrow> True | Inr g \<Rightarrow> g)"

definition enforceOwnershipGate ::
  "gate_router \<Rightarrow> Identity \<Rightarrow> string \<Rightarrow> SourceCommitBundle option \<Rightarrow> gate_error option"
where
  "enforceOwnershipGate r ident logicalBranch bu =
     (if \<not> gr_OwnershipGateEnabled r then None
      else if bu = None then None
      else if TrimSpace logicalBranch \<noteq> '''' then None
      else let paths = changedPathsFromSourceBundle bu in
        if paths = [] then None
        else case gr_ownershipResolverFull r of
          None \<Rightarrow> Some NoResolverConfigured
        | Some res \<Rightarrow>
            (case evaluateSubtreeOwnership r ident paths of
               Inl e \<Rightarrow> Some (OwnershipUnverified e)
             | Inr (decision, unowned) \<Rightarrow>
                 if decision = MergeDecisionDirect then None
                 else let governed = filter (counts_governed res) unowned in
                   if governed = [] then None else Some (ReviewRequired governed (ownersForUnowned r governed))))"

subsection \<open>Clients of an ownership checker\<close>

context ownership_checker
begin

lemma evaluate_direct:
  assumes "gr_ownershipResolver r = Some owns" "paths \<noteq> []"
    "evaluateSubtreeOwnership r ident paths = Inr (MergeDecisionDirect, unowned)"
  shows "owns paths ident = Inr (True, []) \<and> \<not> IsAnonymous ident"
proof -
  have "owns paths ident = Inr (True, [])"
    using assms owns_all by (auto simp: evaluateSubtreeOwnership_def split: sum.splits prod.splits if_splits)
  then show ?thesis using owns_named assms(2) by blast
qed

end

lemma unowned_paths_eq:
  assumes "list_all (loads_ok r) ps"
  shows "unowned_paths r ident ps = Inr (filter (\<lambda>p. \<forall>dir. IsOwner r p ident \<noteq> Inr (True, dir)) ps)"
  using assms
proof (induction ps)
  case (Cons p ps)
  from Cons.prems obtain b dir where o: "IsOwner r p ident = Inr (b, dir)"
    using IsOwner_governing [of r p ident] by auto
  with Cons show ?case by (cases b) auto
qed simp

lemma set_add_distinct: "set (add_distinct seen ps) = {p \<in> set ps. p \<noteq> []} - set seen"
  by (induction seen ps rule: add_distinct.induct) auto

lemma distinct_add_distinct: "distinct (add_distinct seen ps)"
  by (induction seen ps rule: add_distinct.induct) (auto simp: set_add_distinct)

subsection \<open>Properties\<close>

text \<open>C27: With the resolver configured, the gate enabled, no logical branch and no failing load, a push is
  refused exactly if one of the paths it names (display path and operation path) is governed by an
  OWNERS or CODEOWNERS rule and not owned by the caller; the refusal lists exactly these paths and the
  owners to ask. Whenever ownership cannot be determined the push is refused.\<close>

theorem enforceOwnershipGate_correct:
  assumes "gr_OwnershipGateEnabled g" "TrimSpace branch = ''''"
  shows "(list_all (loads_ok r) (changedPathsFromSourceBundle (Some bu)) \<longrightarrow>
      (let blocked = filter (\<lambda>p. Governed r p = Inr True \<and> (\<forall>dir. IsOwner r p ident \<noteq> Inr (True, dir)))
         (changedPathsFromSourceBundle (Some bu))
       in enforceOwnershipGate (ConfigureOwnership g (Some r)) ident branch (Some bu) =
         (if blocked = [] then None
          else Some (ReviewRequired blocked (ownersForUnowned (ConfigureOwnership g (Some r)) blocked))))) \<and>
    (\<forall>e. OwnsAll r (changedPathsFromSourceBundle (Some bu)) ident = Inl e \<longrightarrow>
      enforceOwnershipGate (ConfigureOwnership g (Some r)) ident branch (Some bu) = Some (OwnershipUnverified e))"
proof -
  let ?paths = "changedPathsFromSourceBundle (Some bu)" and ?g = "ConfigureOwnership g (Some r)"
  have cfg: "gr_OwnershipGateEnabled ?g" "gr_ownershipResolver ?g = Some (OwnsAll r)" "gr_ownershipResolverFull ?g = Some r"
    using assms(1) by (simp_all add: ConfigureOwnership_def)
  have fail: "enforceOwnershipGate ?g ident branch (Some bu) = Some (OwnershipUnverified e)" if "OwnsAll r ?paths ident = Inl e" for e
  proof -
    have "?paths \<noteq> []" using that by (auto simp: OwnsAll_def)
    then show ?thesis using that cfg assms(2) by (simp add: enforceOwnershipGate_def evaluateSubtreeOwnership_def)
  qed
  have ok: "enforceOwnershipGate ?g ident branch (Some bu) = (if blocked = [] then None else Some (ReviewRequired blocked (ownersForUnowned ?g blocked)))"
    if loads: "list_all (loads_ok r) ?paths" and blocked: "blocked = filter (\<lambda>p. Governed r p = Inr True \<and> (\<forall>dir. IsOwner r p ident \<noteq> Inr (True, dir))) ?paths"
    for blocked
  proof -
    let ?un = "filter (\<lambda>p. \<forall>dir. IsOwner r p ident \<noteq> Inr (True, dir)) ?paths"
    have o: "OwnsAll r ?paths ident = Inr (?un = [], ?un)" using unowned_paths_eq [OF loads] by (simp add: OwnsAll_def)
    have "counts_governed r p \<longleftrightarrow> Governed r p = Inr True" if "p \<in> set ?paths" for p
      using that loads Governed_eq by (simp add: list_all_iff counts_governed_def)
    then have "filter (counts_governed r) ?un = blocked"
      unfolding blocked filter_filter by (intro filter_cong) auto
    then show ?thesis
      using o cfg assms(2) unfolding blocked
      by (cases "?paths = []"; cases "?un = []") (simp_all add: enforceOwnershipGate_def evaluateSubtreeOwnership_def Let_def)
  qed
  from ok fail show ?thesis unfolding Let_def by blast
qed

definition two_owners :: OwnershipResolver where
  "two_owners = \<lparr>r_source = (\<lambda>d. Inr (map_option (\<lambda>who. \<lparr>of_Version = 1, of_Viewers = [], of_Ingesters = [],
       of_Maintainers = [\<lparr>or_Team = '''', or_Subject = who\<rparr>]\<rparr>)
       (map_of [(''guardian/p/a'', ''ann''), (''guardian/p/b'', ''bob'')] d))),
     r_mapping = Map.empty, r_codeowners = None\<rparr>"

definition open_gate :: gate_router where
  "open_gate = \<lparr>gr_OwnershipGateEnabled = True, gr_ownershipResolver = None, gr_ownershipResolverFull = None,
     gr_mergeRequests = None\<rparr>"

definition bob :: Identity where
  "bob = \<lparr>id_Subject = ''bob'', id_Email = '''', id_Groups = [], id_ClientID = ''''\<rparr>"

theorem enforceOwnershipGate_correct_witness:
  "let blocked = filter (\<lambda>p. Governed two_owners p = Inr True \<and> (\<forall>dir. IsOwner two_owners p bob \<noteq> Inr (True, dir)))
       (changedPathsFromSourceBundle (Some sample_commit_bundle))
   in enforceOwnershipGate (ConfigureOwnership open_gate (Some two_owners)) bob '''' (Some sample_commit_bundle) =
     (if blocked = [] then None
      else Some (ReviewRequired blocked (ownersForUnowned (ConfigureOwnership open_gate (Some two_owners)) blocked)))"
proof -
  have "list_all (loads_ok two_owners) (changedPathsFromSourceBundle (Some sample_commit_bundle))" by code_simp
  moreover have "gr_OwnershipGateEnabled open_gate" by (simp add: open_gate_def)
  ultimately show ?thesis using enforceOwnershipGate_correct [of open_gate "''''"] by simp
qed

text \<open>The paths that applying an operation writes (\<open>applyRepositoryOperations\<close> of the fetcher): the
  cleaned path and, for a rename, the cleaned target.\<close>

definition applied_paths :: "Operation \<Rightarrow> string list" where
  "applied_paths oper =
     (if op_Kind oper = OperationRename then [path_Clean (op_Path oper), path_Clean (op_Target oper)]
      else [path_Clean (op_Path oper)])"

text \<open>C33: The gate looks at the raw path of an operation and never at a rename target. Therefore a valid
  bundle passes the gate although applying it writes below a directory that is governed by another
  owner: once through a path with a dot-dot segment that starts in a directory the caller owns, and
  once through the target of a rename.\<close>

theorem gate_misses_applied_paths:
  "commit_bundle_Validate (Some sample_commit_bundle) = None \<and>
   enforceOwnershipGate (ConfigureOwnership open_gate (Some two_owners)) ann '''' (Some sample_commit_bundle) = None \<and>
   map applied_paths (concat (map rb_Operations (concat (map sc_Repositories (scb_Commits sample_commit_bundle))))) =
     [[''b/f''], [''a/g'', ''b/g'']] \<and>
   Governed two_owners ''guardian/p/b/f'' = Inr True \<and> IsOwner two_owners ''guardian/p/b/f'' ann = Inr (False, '''') \<and>
   Governed two_owners ''guardian/p/b/g'' = Inr True \<and> IsOwner two_owners ''guardian/p/b/g'' ann = Inr (False, '''')"
proof (intro conjI)
  show "commit_bundle_Validate (Some sample_commit_bundle) = None" by code_simp
  show "enforceOwnershipGate (ConfigureOwnership open_gate (Some two_owners)) ann '''' (Some sample_commit_bundle) = None"
    by code_simp
  show "map applied_paths (concat (map rb_Operations (concat (map sc_Repositories (scb_Commits sample_commit_bundle))))) =
     [[''b/f''], [''a/g'', ''b/g'']]" by code_simp
  show "Governed two_owners ''guardian/p/b/f'' = Inr True" "Governed two_owners ''guardian/p/b/g'' = Inr True" by code_simp+
  show "IsOwner two_owners ''guardian/p/b/f'' ann = Inr (False, '''')" "IsOwner two_owners ''guardian/p/b/g'' ann = Inr (False, '''')"
    by code_simp+
qed

end
