(* ===== verification/WorkspaceStore.thy ===== *)
theory WorkspaceStore
  imports GoStrings GoNum "HOL-Library.Multiset" "HOL-Library.Countable"
begin

section \<open>The durable workspace store\<close>

text \<open>
  The store of workspace jobs, bundles, audit events and ledger entries
  (\<^verbatim>\<open>src/internal/storage/workspacestore/store.go\<close>) over a write-ahead log in segments (\<^verbatim>\<open>wal.go\<close>)
  with compaction into snapshots.

  The state directory is a value: the segments of the log by their number, as bytes, and the files of the
  checkpoint directory by their name. Jobs are messages of generated code, \<open>'j\<close>; the JSON codec is a
  parameter, \<open>'d\<close> being raw JSON values. Opening, reading, renaming and removing files is taken to succeed; a write to the log
  can fail after some bytes, \<open>WriteFails n\<close>. A crash is one of the process: the operating system keeps what was written, with \<open>fsync\<close> or
  without. Sequence numbers are natural numbers: a counter of 64 bits
  does not wrap in the life of a store. The time is an argument.
\<close>

datatype EntityKind = KindJob | KindBundle | KindAudit | KindLedger | KindOther string

datatype WalOp = OpUpsert | OpInsert | OpOther string

record 'd WALEntry =
  we_Seq :: nat
  we_TS :: int
  we_Op :: WalOp
  we_Kind :: EntityKind
  we_Data :: 'd

record BundleMetadata =
  bm_BundleID :: string
  bm_WorkspaceID :: string
  bm_Kind :: string
  bm_ByteSize :: int
  bm_RepoCount :: int
  bm_LocalCommitIDs :: "string list"
  bm_CreatedAtUnix :: int
  bm_ExpiresAtUnix :: int
  bm_DiscardReason :: string
  bm_JobID :: string

record AuditEvent =
  ae_WorkspaceID :: string
  ae_JobID :: string
  ae_BundleID :: string
  ae_LocalCommitID :: string
  ae_ActorPrincipalID :: string
  ae_Decision :: string
  ae_ReasonCode :: string
  ae_Timestamp :: int
  ae_CorrelationID :: string
  ae_Seq :: nat

record Checkpoint =
  cp_LastCompactedSeq :: nat
  cp_SnapshotFile :: string

record 'd compactedSnapshot =
  sn_Version :: int
  sn_CreatedAtUnix :: int
  sn_CheckpointSeq :: nat
  sn_Jobs :: "'d list"
  sn_Bundles :: "BundleMetadata list"
  sn_AuditEvents :: "AuditEvent list"
  sn_LedgerEntries :: "'d list"

text \<open>The JSON codec of each kind of value.\<close>

record ('j, 'd) ws_codec =
  wc_job_id :: "'j \<Rightarrow> string"
  wc_job :: "'j \<Rightarrow> (string, 'd) result"
  wc_unjob :: "'d \<Rightarrow> 'j option"
  wc_bundle :: "BundleMetadata \<Rightarrow> (string, 'd) result"
  wc_unbundle :: "'d \<Rightarrow> BundleMetadata option"
  wc_audit :: "AuditEvent \<Rightarrow> (string, 'd) result"
  wc_unaudit :: "'d \<Rightarrow> AuditEvent option"
  wc_entry :: "'d WALEntry \<Rightarrow> (string, bytes) result"
  wc_unentry :: "bytes \<Rightarrow> 'd WALEntry option"
  wc_snapshot :: "'d compactedSnapshot \<Rightarrow> (string, bytes) result"
  wc_unsnapshot :: "bytes \<Rightarrow> 'd compactedSnapshot option"
  wc_checkpoint :: "Checkpoint \<Rightarrow> (string, bytes) result"
  wc_uncheckpoint :: "bytes \<Rightarrow> Checkpoint option"

record disk =
  dk_segments :: "(nat, bytes) gomap"
  dk_checkpoints :: "(string, bytes) gomap"

record StoreConfig =
  sc_StateDir :: string
  sc_CompactionInterval :: int
  sc_CompactionSizeThreshold :: int
  sc_JobRetentionDays :: int
  sc_MaxJobsPerWorkspace :: int
  sc_LocalRetentionDays :: int
  sc_FsyncEnabled :: bool

text \<open>The interval is in nanoseconds.\<close>

definition DefaultStoreConfig :: "string \<Rightarrow> StoreConfig" where
  "DefaultStoreConfig stateDir =
     \<lparr>sc_StateDir = stateDir, sc_CompactionInterval = 5 * 60 * 1000000000, sc_CompactionSizeThreshold = 256 * 1024 * 1024,
      sc_JobRetentionDays = 30, sc_MaxJobsPerWorkspace = 1000, sc_LocalRetentionDays = 30, sc_FsyncEnabled = False\<rparr>"

subsection \<open>The write-ahead log\<close>

text \<open>\<open>ww_activeFile\<close> tells whether the file of the active segment is open.\<close>

record walWriter =
  ww_activeFile :: bool
  ww_segmentIdx :: nat
  ww_segmentSize :: int

definition maxSegmentSize :: int where "maxSegmentSize = 64 * 1024 * 1024"

definition listSegments :: "disk \<Rightarrow> nat list" where
  "listSegments dk = sort_slice (<) (map fst (dk_segments dk))"

definition segment :: "disk \<Rightarrow> nat \<Rightarrow> bytes" where
  "segment dk idx = (case gm_get (dk_segments dk) idx of None \<Rightarrow> [] | Some c \<Rightarrow> c)"

text \<open>A segment is opened for appending and created when it does not exist: every caller passes \<open>create\<close>.\<close>

definition openSegment :: "nat \<Rightarrow> disk \<Rightarrow> walWriter \<times> disk" where
  "openSegment idx dk =
     (\<lparr>ww_activeFile = True, ww_segmentIdx = idx, ww_segmentSize = int (length (segment dk idx))\<rparr>,
      dk\<lparr>dk_segments := gm_set idx (segment dk idx) (dk_segments dk)\<rparr>)"

definition newWALWriter :: "disk \<Rightarrow> walWriter \<times> disk" where
  "newWALWriter dk =
     (let existing = listSegments dk in openSegment (if existing \<noteq> [] then last existing else 1) dk)"

definition rotateSegmentLocked :: "walWriter \<Rightarrow> disk \<Rightarrow> walWriter \<times> disk" where
  "rotateSegmentLocked w dk = openSegment (ww_segmentIdx w + 1) dk"

datatype write_outcome = WriteOk | WriteFails nat

datatype ws_error =
    MarshalFailed string
  | WriteFailed
  | SnapshotMissing string
  | SnapshotCorrupt string
  | SnapshotVersion int

text \<open>A write to a file that is not open fails and writes nothing.\<close>

definition append_bytes :: "nat \<Rightarrow> bytes \<Rightarrow> disk \<Rightarrow> disk" where
  "append_bytes idx data dk = dk\<lparr>dk_segments := gm_set idx (segment dk idx @ data) (dk_segments dk)\<rparr>"

definition wal_Append ::
  "('j, 'd) ws_codec \<Rightarrow> write_outcome \<Rightarrow> 'd WALEntry \<Rightarrow> walWriter \<times> disk \<Rightarrow> ws_error option \<times> walWriter \<times> disk"
where
  "wal_Append cd io entry = (\<lambda>(w, dk).
     case wc_entry cd entry of
       Inl e \<Rightarrow> (Some (MarshalFailed e), w, dk)
     | Inr line \<Rightarrow>
         let data = line @ [10] in
         case (if ww_segmentSize w > 0 \<and> ww_segmentSize w + int (length data) > maxSegmentSize then rotateSegmentLocked w dk else (w, dk)) of
           (w, dk) \<Rightarrow>
             (case (if ww_activeFile w then io else WriteFails 0) of
                WriteFails n \<Rightarrow> (Some WriteFailed, w, append_bytes (ww_segmentIdx w) (take n data) dk)
              | WriteOk \<Rightarrow>
                  (None, w\<lparr>ww_segmentSize := ww_segmentSize w + int (length data)\<rparr>, append_bytes (ww_segmentIdx w) data dk)))"

definition wal_Close :: "walWriter \<Rightarrow> walWriter" where
  "wal_Close w = w\<lparr>ww_activeFile := False\<rparr>"

definition TotalSize :: "disk \<Rightarrow> int" where
  "TotalSize dk = sum_list (map (\<lambda>seg. int (length (segment dk seg))) (listSegments dk))"

text \<open>
  \<open>bufio.Scanner\<close> over the lines of a file with a buffer of at most 16 MiB: a line that does not fit ends the
  scan with \<open>ErrTooLong\<close>, the second component. A final carriage return is dropped from a line.
\<close>

definition maxToken :: int where "maxToken = 16 * 1024 * 1024"

definition drop_cr :: "bytes \<Rightarrow> bytes" where
  "drop_cr line = (if line \<noteq> [] \<and> last line = 13 then butlast line else line)"

lemma drop_dropWhile_less: "s \<noteq> [] \<Longrightarrow> length (dropWhile P s) - Suc 0 < length s"
proof -
  assume "s \<noteq> []"
  then have "length (dropWhile P s) \<le> length s" "length s > 0" using length_dropWhile_le [of P s] by simp_all
  then show ?thesis by linarith
qed

function scan_lines :: "bytes \<Rightarrow> bytes list \<times> bool" where
  "scan_lines s =
     (if s = [] then ([], False)
      else
        let line = takeWhile (\<lambda>b. b \<noteq> 10) s; rest = dropWhile (\<lambda>b. b \<noteq> 10) s in
        if int (length line) \<ge> maxToken then ([], True)
        else case scan_lines (drop 1 rest) of (ls, tooLong) \<Rightarrow> (drop_cr line # ls, tooLong))"
  by pat_completeness auto

termination
  by (relation "measure length") (auto intro: drop_dropWhile_less)

declare scan_lines.simps [simp del]

definition readSegmentEntries :: "('j, 'd) ws_codec \<Rightarrow> bytes \<Rightarrow> 'd WALEntry list \<times> bool" where
  "readSegmentEntries cd content =
     (case scan_lines content of (ls, tooLong) \<Rightarrow>
        (List.map_filter (\<lambda>line. if line = [] then None else wc_unentry cd line) ls, tooLong))"

text \<open>The only error of a scan counts as recoverable: the entries before it are used.\<close>

definition ReplayEntries :: "('j, 'd) ws_codec \<Rightarrow> disk \<Rightarrow> nat \<Rightarrow> 'd WALEntry list" where
  "ReplayEntries cd dk aboveSeq =
     sort_slice (\<lambda>a b. we_Seq a < we_Seq b)
       (concat (map (\<lambda>seg. filter (\<lambda>entry. we_Seq entry > aboveSeq) (fst (readSegmentEntries cd (segment dk seg)))) (listSegments dk)))"

definition delete_segment :: "('j, 'd) ws_codec \<Rightarrow> nat \<Rightarrow> nat \<Rightarrow> nat \<Rightarrow> disk \<Rightarrow> disk" where
  "delete_segment cd active belowSeq seg dk =
     (if seg = active then dk
      else case readSegmentEntries cd (segment dk seg) of
        (entries, tooLong) \<Rightarrow>
          if tooLong then dk
          else if list_all (\<lambda>entry. \<not> we_Seq entry > belowSeq) entries \<and> entries \<noteq> [] then dk\<lparr>dk_segments := gm_del seg (dk_segments dk)\<rparr>
          else dk)"

definition DeleteSegmentsBelow :: "('j, 'd) ws_codec \<Rightarrow> walWriter \<Rightarrow> nat \<Rightarrow> disk \<Rightarrow> disk" where
  "DeleteSegmentsBelow cd w belowSeq dk = fold (delete_segment cd (ww_segmentIdx w) belowSeq) (listSegments dk) dk"

subsection \<open>The store\<close>

record ('j, 'd) WsStore =
  ws_cfg :: StoreConfig
  ws_nextSeq :: nat
  ws_jobs :: "(string, 'j) gomap"
  ws_bundles :: "(string, BundleMetadata) gomap"
  ws_auditEvents :: "AuditEvent list"
  ws_ledgerEntries :: "'d list"
  ws_wal :: "walWriter option"
  ws_checkpoint :: "Checkpoint option"
  ws_closed :: bool

text \<open>
  Each mutation changes the memory under the lock of the store and makes an entry of the log, the first part; the entry is appended
  after the lock is released, the second part.
\<close>

definition new_entry :: "int \<Rightarrow> WalOp \<Rightarrow> EntityKind \<Rightarrow> 'd \<Rightarrow> ('j, 'd) WsStore \<Rightarrow> 'd WALEntry" where
  "new_entry now op kind data s = \<lparr>we_Seq = ws_nextSeq s, we_TS = now, we_Op = op, we_Kind = kind, we_Data = data\<rparr>"

definition job_part :: "('j, 'd) ws_codec \<Rightarrow> int \<Rightarrow> 'j \<Rightarrow> ('j, 'd) WsStore \<Rightarrow> (ws_error, 'd WALEntry \<times> ('j, 'd) WsStore) result" where
  "job_part cd now job s =
     (case wc_job cd job of
        Inl e \<Rightarrow> Inl (MarshalFailed e)
      | Inr data \<Rightarrow> Inr (new_entry now OpUpsert KindJob data s,
          s\<lparr>ws_nextSeq := ws_nextSeq s + 1, ws_jobs := gm_set (wc_job_id cd job) job (ws_jobs s)\<rparr>))"

definition bundle_part :: "('j, 'd) ws_codec \<Rightarrow> int \<Rightarrow> BundleMetadata \<Rightarrow> ('j, 'd) WsStore \<Rightarrow> (ws_error, 'd WALEntry \<times> ('j, 'd) WsStore) result" where
  "bundle_part cd now b s =
     (case wc_bundle cd b of
        Inl e \<Rightarrow> Inl (MarshalFailed e)
      | Inr data \<Rightarrow> Inr (new_entry now OpUpsert KindBundle data s,
          s\<lparr>ws_nextSeq := ws_nextSeq s + 1, ws_bundles := gm_set (bm_BundleID b) b (ws_bundles s)\<rparr>))"

definition audit_part :: "('j, 'd) ws_codec \<Rightarrow> int \<Rightarrow> AuditEvent \<Rightarrow> ('j, 'd) WsStore \<Rightarrow> (ws_error, 'd WALEntry \<times> ('j, 'd) WsStore) result" where
  "audit_part cd now event s =
     (case wc_audit cd event of
        Inl e \<Rightarrow> Inl (MarshalFailed e)
      | Inr data \<Rightarrow> Inr (new_entry now OpInsert KindAudit data s,
          s\<lparr>ws_nextSeq := ws_nextSeq s + 1, ws_auditEvents := ws_auditEvents s @ [event\<lparr>ae_Seq := ws_nextSeq s\<rparr>]\<rparr>))"

definition ledger_part :: "int \<Rightarrow> 'd \<Rightarrow> ('j, 'd) WsStore \<Rightarrow> (ws_error, 'd WALEntry \<times> ('j, 'd) WsStore) result" where
  "ledger_part now data s =
     Inr (new_entry now OpInsert KindLedger data s,
       s\<lparr>ws_nextSeq := ws_nextSeq s + 1, ws_ledgerEntries := ws_ledgerEntries s @ [data]\<rparr>)"

definition append_part ::
  "('j, 'd) ws_codec \<Rightarrow> write_outcome \<Rightarrow> 'd WALEntry \<Rightarrow> ('j, 'd) WsStore \<times> disk \<Rightarrow> ws_error option \<times> ('j, 'd) WsStore \<times> disk"
where
  "append_part cd io entry = (\<lambda>(s, dk).
     case ws_wal s of
       None \<Rightarrow> (None, s, dk)
     | Some w \<Rightarrow> (case wal_Append cd io entry (w, dk) of (err, w, dk) \<Rightarrow> (err, s\<lparr>ws_wal := Some w\<rparr>, dk)))"

definition mutate ::
  "('j, 'd) ws_codec \<Rightarrow> write_outcome \<Rightarrow> (('j, 'd) WsStore \<Rightarrow> (ws_error, 'd WALEntry \<times> ('j, 'd) WsStore) result) \<Rightarrow>
    ('j, 'd) WsStore \<times> disk \<Rightarrow> ws_error option \<times> ('j, 'd) WsStore \<times> disk"
where
  "mutate cd io part = (\<lambda>(s, dk). case part s of Inl e \<Rightarrow> (Some e, s, dk) | Inr (entry, s) \<Rightarrow> append_part cd io entry (s, dk))"

definition UpsertJob where "UpsertJob cd io now job = mutate cd io (job_part cd now job)"
definition UpsertBundle where "UpsertBundle cd io now b = mutate cd io (bundle_part cd now b)"
definition InsertAudit where "InsertAudit cd io now event = mutate cd io (audit_part cd now event)"
definition InsertLedger where "InsertLedger cd io now data = mutate cd io (ledger_part now data)"

definition GetJob :: "('j, 'd) WsStore \<Rightarrow> string \<Rightarrow> 'j option" where
  "GetJob s jobID = gm_get (ws_jobs s) jobID"

definition ListJobs :: "('j, 'd) WsStore \<Rightarrow> ('j \<Rightarrow> bool) option \<Rightarrow> 'j list" where
  "ListJobs s flt = filter (\<lambda>job. case flt of None \<Rightarrow> True | Some f \<Rightarrow> f job) (map snd (ws_jobs s))"

definition JobCount :: "('j, 'd) WsStore \<Rightarrow> nat" where
  "JobCount s = length (ws_jobs s)"

definition GetBundle :: "('j, 'd) WsStore \<Rightarrow> string \<Rightarrow> BundleMetadata option" where
  "GetBundle s bundleID = gm_get (ws_bundles s) bundleID"

definition ListAuditEvents :: "('j, 'd) WsStore \<Rightarrow> AuditEvent list" where
  "ListAuditEvents s = ws_auditEvents s"

text \<open>The callback is called on the entries until it fails; the error carries the index.\<close>

fun replay_ledger :: "nat \<Rightarrow> ('d \<Rightarrow> 'x \<Rightarrow> (string, 'x) result) \<Rightarrow> 'd list \<Rightarrow> 'x \<Rightarrow> (nat \<times> string, 'x) result" where
  "replay_ledger i callback [] x = Inr x"
| "replay_ledger i callback (entry # entries) x =
     (case callback entry x of Inl e \<Rightarrow> Inl (i, e) | Inr x \<Rightarrow> replay_ledger (i + 1) callback entries x)"

definition ReplayLedgerEntries :: "('j, 'd) WsStore \<Rightarrow> ('d \<Rightarrow> 'x \<Rightarrow> (string, 'x) result) \<Rightarrow> 'x \<Rightarrow> (nat \<times> string, 'x) result" where
  "ReplayLedgerEntries s callback x = replay_ledger 0 callback (ws_ledgerEntries s) x"

subsection \<open>Recovery\<close>

definition snapshot_file :: "nat \<Rightarrow> string" where
  "snapshot_file n = (let d = digits n in ''snapshot-'' @ replicate (20 - length d) CHR ''0'' @ d @ ''.json'')"

definition loadCheckpoint :: "('j, 'd) ws_codec \<Rightarrow> disk \<Rightarrow> ('j, 'd) WsStore \<Rightarrow> ('j, 'd) WsStore" where
  "loadCheckpoint cd dk s =
     (case gm_get (dk_checkpoints dk) ''checkpoint.json'' of
        None \<Rightarrow> s
      | Some data \<Rightarrow> s\<lparr>ws_checkpoint := wc_uncheckpoint cd data\<rparr>)"

definition load_jobs :: "('j, 'd) ws_codec \<Rightarrow> 'd list \<Rightarrow> (string, 'j) gomap" where
  "load_jobs cd ds = fold (\<lambda>d jobs. case wc_unjob cd d of None \<Rightarrow> jobs | Some job \<Rightarrow> gm_set (wc_job_id cd job) job jobs) ds []"

definition load_from :: "('j, 'd) ws_codec \<Rightarrow> 'd compactedSnapshot \<Rightarrow> ('j, 'd) WsStore \<Rightarrow> ('j, 'd) WsStore" where
  "load_from cd sn s =
     s\<lparr>ws_jobs := load_jobs cd (sn_Jobs sn),
       ws_bundles := fold (\<lambda>b. gm_set (bm_BundleID b) b) (sn_Bundles sn) [],
       ws_auditEvents := sn_AuditEvents sn,
       ws_ledgerEntries := sn_LedgerEntries sn,
       ws_nextSeq := (if sn_CheckpointSeq sn \<ge> ws_nextSeq s then sn_CheckpointSeq sn + 1 else ws_nextSeq s)\<rparr>"

definition loadSnapshot :: "('j, 'd) ws_codec \<Rightarrow> disk \<Rightarrow> ('j, 'd) WsStore \<Rightarrow> (ws_error, ('j, 'd) WsStore) result" where
  "loadSnapshot cd dk s =
     (case ws_checkpoint s of
        None \<Rightarrow> Inr s
      | Some chk \<Rightarrow>
          if cp_LastCompactedSeq chk = 0 then Inr s
          else
            let snapshotFile = (if cp_SnapshotFile chk = '''' then snapshot_file (cp_LastCompactedSeq chk) else cp_SnapshotFile chk) in
            case gm_get (dk_checkpoints dk) snapshotFile of
              None \<Rightarrow> Inl (SnapshotMissing snapshotFile)
            | Some data \<Rightarrow>
                (case wc_unsnapshot cd data of
                   None \<Rightarrow> Inl (SnapshotCorrupt snapshotFile)
                 | Some sn \<Rightarrow> if sn_Version sn \<noteq> 1 then Inl (SnapshotVersion (sn_Version sn)) else Inr (load_from cd sn s)))"

text \<open>An entry with the wrong operation or data that cannot be decoded is skipped with \<open>continue\<close>, so it does not
  move the sequence number either.\<close>

definition replay_entry :: "('j, 'd) ws_codec \<Rightarrow> 'd WALEntry \<Rightarrow> ('j, 'd) WsStore \<Rightarrow> ('j, 'd) WsStore option" where
  "replay_entry cd entry s =
     (case we_Kind entry of
        KindJob \<Rightarrow>
          if we_Op entry \<noteq> OpUpsert then None
          else map_option (\<lambda>job. s\<lparr>ws_jobs := gm_set (wc_job_id cd job) job (ws_jobs s)\<rparr>) (wc_unjob cd (we_Data entry))
      | KindBundle \<Rightarrow>
          if we_Op entry \<noteq> OpUpsert then None
          else map_option (\<lambda>b. s\<lparr>ws_bundles := gm_set (bm_BundleID b) b (ws_bundles s)\<rparr>) (wc_unbundle cd (we_Data entry))
      | KindAudit \<Rightarrow>
          if we_Op entry \<noteq> OpInsert then None
          else map_option (\<lambda>ae. s\<lparr>ws_auditEvents := ws_auditEvents s @ [ae\<lparr>ae_Seq := we_Seq entry\<rparr>]\<rparr>) (wc_unaudit cd (we_Data entry))
      | KindLedger \<Rightarrow>
          if we_Op entry \<noteq> OpInsert then None
          else Some (s\<lparr>ws_ledgerEntries := ws_ledgerEntries s @ [we_Data entry]\<rparr>)
      | KindOther _ \<Rightarrow> Some s)"

definition recover_entry :: "('j, 'd) ws_codec \<Rightarrow> 'd WALEntry \<Rightarrow> ('j, 'd) WsStore \<Rightarrow> ('j, 'd) WsStore" where
  "recover_entry cd entry s =
     (case replay_entry cd entry s of
        None \<Rightarrow> s
      | Some s \<Rightarrow> if we_Seq entry \<ge> ws_nextSeq s then s\<lparr>ws_nextSeq := we_Seq entry + 1\<rparr> else s)"

definition ws_recover :: "('j, 'd) ws_codec \<Rightarrow> disk \<Rightarrow> ('j, 'd) WsStore \<Rightarrow> (ws_error, ('j, 'd) WsStore) result" where
  "ws_recover cd dk s =
     (case (case ws_checkpoint s of
              None \<Rightarrow> Inr (0, s)
            | Some chk \<Rightarrow>
                (case loadSnapshot cd dk s of
                   Inl e \<Rightarrow> Inl e
                 | Inr s \<Rightarrow> Inr (cp_LastCompactedSeq chk,
                     if ws_nextSeq s \<le> cp_LastCompactedSeq chk then s\<lparr>ws_nextSeq := cp_LastCompactedSeq chk + 1\<rparr> else s))) of
        Inl e \<Rightarrow> Inl e
      | Inr (fromSeq, s) \<Rightarrow> Inr (fold (recover_entry cd) (ReplayEntries cd dk fromSeq) s))"

definition empty_store :: "StoreConfig \<Rightarrow> ('j, 'd) WsStore" where
  "empty_store cfg = \<lparr>ws_cfg = cfg, ws_nextSeq = 1, ws_jobs = [], ws_bundles = [], ws_auditEvents = [], ws_ledgerEntries = [],
     ws_wal = None, ws_checkpoint = None, ws_closed = False\<rparr>"

definition ws_New :: "('j, 'd) ws_codec \<Rightarrow> StoreConfig \<Rightarrow> disk \<Rightarrow> (ws_error, ('j, 'd) WsStore \<times> disk) result" where
  "ws_New cd cfg dk =
     (if sc_StateDir cfg = '''' then Inr (empty_store cfg, dk)
      else
        case newWALWriter dk of (w, dk') \<Rightarrow>
        (case ws_recover cd dk' ((loadCheckpoint cd dk (empty_store cfg))\<lparr>ws_wal := Some w\<rparr>) of
           Inl e \<Rightarrow> Inl e
         | Inr s \<Rightarrow> Inr (s, dk')))"


subsection \<open>Compaction\<close>

definition right_option :: "('e, 'a) result \<Rightarrow> 'a option" where
  "right_option r = (case r of Inl _ \<Rightarrow> None | Inr x \<Rightarrow> Some x)"

definition take_snapshot :: "('j, 'd) ws_codec \<Rightarrow> int \<Rightarrow> ('j, 'd) WsStore \<Rightarrow> 'd compactedSnapshot" where
  "take_snapshot cd now s =
     \<lparr>sn_Version = 1, sn_CreatedAtUnix = now, sn_CheckpointSeq = ws_nextSeq s - 1,
      sn_Jobs = List.map_filter (\<lambda>(_, job). right_option (wc_job cd job)) (ws_jobs s),
      sn_Bundles = map snd (ws_bundles s), sn_AuditEvents = ws_auditEvents s, sn_LedgerEntries = ws_ledgerEntries s\<rparr>"

text \<open>The part of \<open>compact\<close> under the lock of the store: \<open>None\<close> when there is nothing to do.\<close>

definition compact_begin :: "('j, 'd) ws_codec \<Rightarrow> int \<Rightarrow> ('j, 'd) WsStore \<Rightarrow> disk \<Rightarrow> 'd compactedSnapshot option" where
  "compact_begin cd now s dk =
     (if ws_wal s = None then None
      else if TotalSize dk < sc_CompactionSizeThreshold (ws_cfg s) then None
      else if ws_nextSeq s - 1 < 1 then None
      else Some (take_snapshot cd now s))"

text \<open>Files are written under a temporary name and renamed, which replaces them at once.\<close>

definition writeSnapshot :: "('j, 'd) ws_codec \<Rightarrow> 'd compactedSnapshot \<Rightarrow> disk \<Rightarrow> (ws_error, string \<times> disk) result" where
  "writeSnapshot cd sn dk =
     (let snapshotFile = snapshot_file (sn_CheckpointSeq sn) in
      case wc_snapshot cd sn of
        Inl e \<Rightarrow> Inl (MarshalFailed e)
      | Inr data \<Rightarrow> Inr (snapshotFile, dk\<lparr>dk_checkpoints := gm_set snapshotFile data (dk_checkpoints dk)\<rparr>))"

definition write_checkpoint :: "('j, 'd) ws_codec \<Rightarrow> nat \<Rightarrow> string \<Rightarrow> disk \<Rightarrow> (ws_error, disk) result" where
  "write_checkpoint cd checkpointSeq snapshotFile dk =
     (case wc_checkpoint cd \<lparr>cp_LastCompactedSeq = checkpointSeq, cp_SnapshotFile = snapshotFile\<rparr> of
        Inl e \<Rightarrow> Inl (MarshalFailed e)
      | Inr data \<Rightarrow> Inr (dk\<lparr>dk_checkpoints := gm_set ''checkpoint.json'' data (dk_checkpoints dk)\<rparr>))"

definition cleanupOldSnapshots :: "string \<Rightarrow> disk \<Rightarrow> disk" where
  "cleanupOldSnapshots current dk =
     dk\<lparr>dk_checkpoints := filter (\<lambda>(name, _). \<not> (HasPrefix name ''snapshot-'' \<and> HasSuffix name ''.json'') \<or> name = current) (dk_checkpoints dk)\<rparr>"

definition ws_compact :: "('j, 'd) ws_codec \<Rightarrow> int \<Rightarrow> ('j, 'd) WsStore \<Rightarrow> disk \<Rightarrow> ws_error option \<times> disk" where
  "ws_compact cd now s dk =
     (case compact_begin cd now s dk of
        None \<Rightarrow> (None, dk)
      | Some sn \<Rightarrow>
          (case writeSnapshot cd sn dk of
             Inl e \<Rightarrow> (Some e, dk)
           | Inr (snapshotFile, dk) \<Rightarrow>
               (case write_checkpoint cd (sn_CheckpointSeq sn) snapshotFile dk of
                  Inl e \<Rightarrow> (Some e, dk)
                | Inr dk \<Rightarrow>
                    (None, cleanupOldSnapshots snapshotFile
                       (case ws_wal s of None \<Rightarrow> dk | Some w \<Rightarrow> DeleteSegmentsBelow cd w (sn_CheckpointSeq sn) dk)))))"

definition ws_Close :: "('j, 'd) ws_codec \<Rightarrow> int \<Rightarrow> ('j, 'd) WsStore \<Rightarrow> disk \<Rightarrow> ('j, 'd) WsStore \<times> disk" where
  "ws_Close cd now s dk =
     (if ws_closed s then (s, dk)
      else case ws_wal s of
        None \<Rightarrow> (s\<lparr>ws_closed := True\<rparr>, dk)
      | Some w \<Rightarrow> (s\<lparr>ws_closed := True, ws_wal := Some (wal_Close w)\<rparr>, snd (ws_compact cd now s dk)))"

subsection \<open>The codec, and reading back what was written\<close>

definition strip :: "AuditEvent \<Rightarrow> AuditEvent" where
  "strip a = a\<lparr>ae_Seq := 0\<rparr>"

text \<open>The values for which JSON is known to give back what was encoded: text that is valid UTF-8, raw values in compact form. The sequence
  number of an audit event is not encoded.\<close>

record ('j, 'd) ws_valid =
  wv_job :: "'j \<Rightarrow> bool"
  wv_bundle :: "BundleMetadata \<Rightarrow> bool"
  wv_audit :: "AuditEvent \<Rightarrow> bool"
  wv_entry :: "'d WALEntry \<Rightarrow> bool"

definition strip_snapshot :: "'d compactedSnapshot \<Rightarrow> 'd compactedSnapshot" where
  "strip_snapshot sn = sn\<lparr>sn_AuditEvents := map strip (sn_AuditEvents sn)\<rparr>"

definition codec_ok :: "('j, 'd) ws_codec \<Rightarrow> ('j, 'd) ws_valid \<Rightarrow> bool" where
  "codec_ok cd V \<longleftrightarrow>
     (\<forall>j. wv_job V j \<longrightarrow> (\<exists>d. wc_job cd j = Inr d \<and> wc_unjob cd d = Some j)) \<and>
     (\<forall>b. wv_bundle V b \<longrightarrow> (\<exists>d. wc_bundle cd b = Inr d \<and> wc_unbundle cd d = Some b)) \<and>
     (\<forall>a. wv_audit V (strip a) \<longrightarrow> (\<exists>d. wc_audit cd a = Inr d \<and> wc_unaudit cd d = Some (strip a))) \<and>
     (\<forall>e. wv_entry V e \<longrightarrow> (\<exists>l. wc_entry cd e = Inr l \<and> l \<noteq> [] \<and> 10 \<notin> set l \<and> last l \<noteq> 13 \<and> wc_unentry cd l = Some e)) \<and>
     (\<forall>sn. list_all (wv_bundle V) (sn_Bundles sn) \<longrightarrow> list_all (\<lambda>a. wv_audit V (strip a)) (sn_AuditEvents sn) \<longrightarrow>
        (\<exists>c. wc_snapshot cd sn = Inr c \<and> wc_unsnapshot cd c = Some (strip_snapshot sn))) \<and>
     (\<forall>n. \<exists>c. wc_checkpoint cd \<lparr>cp_LastCompactedSeq = n, cp_SnapshotFile = snapshot_file n\<rparr> = Inr c \<and>
        wc_uncheckpoint cd c = Some \<lparr>cp_LastCompactedSeq = n, cp_SnapshotFile = snapshot_file n\<rparr>)"

definition wal_line :: "('j, 'd) ws_codec \<Rightarrow> 'd WALEntry \<Rightarrow> bytes" where
  "wal_line cd e = (case wc_entry cd e of Inl _ \<Rightarrow> [] | Inr l \<Rightarrow> l @ [10])"

text \<open>An entry that is encoded faithfully and fits the buffer of the scanner.\<close>

definition good_entry :: "('j, 'd) ws_codec \<Rightarrow> ('j, 'd) ws_valid \<Rightarrow> 'd WALEntry \<Rightarrow> bool" where
  "good_entry cd V e \<longleftrightarrow> wv_entry V e \<and> int (length (wal_line cd e)) \<le> maxToken"

lemma scan_line:
  assumes "10 \<notin> set l" "int (length l) < maxToken" "l \<noteq> []" "last l \<noteq> 13"
  shows "scan_lines (l @ 10 # s) = (case scan_lines s of (ls, t) \<Rightarrow> (l # ls, t))"
proof -
  have t: "takeWhile (\<lambda>b. b \<noteq> 10) (l @ 10 # s) = l" "dropWhile (\<lambda>b. b \<noteq> 10) (l @ 10 # s) = 10 # s"
    using assms(1) by (induction l) auto
  show ?thesis by (subst scan_lines.simps) (use assms t in \<open>simp add: drop_cr_def split: prod.splits\<close>)
qed

lemma good_line:
  assumes "codec_ok cd V" "good_entry cd V e"
  obtains l where "wal_line cd e = l @ [10]" "wc_entry cd e = Inr l" "10 \<notin> set l" "int (length l) < maxToken" "l \<noteq> []" "last l \<noteq> 13" "wc_unentry cd l = Some e"
proof -
  have "wv_entry V e" using assms(2) by (simp add: good_entry_def)
  then obtain l where l: "wc_entry cd e = Inr l" "l \<noteq> []" "10 \<notin> set l" "last l \<noteq> 13" "wc_unentry cd l = Some e"
    using assms(1) unfolding codec_ok_def by blast
  then have "wal_line cd e = l @ [10]" by (simp add: wal_line_def)
  moreover have "int (length l) < maxToken" using assms(2) calculation by (simp add: good_entry_def)
  ultimately show ?thesis using l that by blast
qed

lemma scan_entries:
  assumes "codec_ok cd V" "list_all (good_entry cd V) es"
  shows "readSegmentEntries cd (concat (map (wal_line cd) es)) = (es, False)"
proof -
  have "\<exists>ls. scan_lines (concat (map (wal_line cd) es)) = (ls, False) \<and> List.map_filter (\<lambda>line. if line = [] then None else wc_unentry cd line) ls = es"
    using assms(2)
  proof (induction es)
    case Nil
    have "scan_lines [] = ([], False)" by (subst scan_lines.simps) simp
    then show ?case by (simp add: List.map_filter_simps)
  next
    case (Cons e es)
    obtain l where l: "wal_line cd e = l @ [10]" "wc_entry cd e = Inr l" "10 \<notin> set l" "int (length l) < maxToken" "l \<noteq> []" "last l \<noteq> 13" "wc_unentry cd l = Some e"
      by (rule good_line [OF assms(1), of e]) (use Cons.prems in simp)
    obtain ls where ls: "scan_lines (concat (map (wal_line cd) es)) = (ls, False)"
        "List.map_filter (\<lambda>line. if line = [] then None else wc_unentry cd line) ls = es" using Cons by auto
    have "scan_lines (concat (map (wal_line cd) (e # es))) = (l # ls, False)"
      using scan_line [OF l(3-6), of "concat (map (wal_line cd) es)"] ls(1) l(1) by simp
    then show ?case using ls(2) l(5,7) by (intro exI [of _ "l # ls"]) (simp add: List.map_filter_simps)
  qed
  then show ?thesis by (auto simp: readSegmentEntries_def)
qed

text \<open>The segments hold entries and nothing else; \<open>all_entries\<close> are the entries of the log.\<close>

definition seg_ok :: "('j, 'd) ws_codec \<Rightarrow> ('j, 'd) ws_valid \<Rightarrow> bytes \<Rightarrow> bool" where
  "seg_ok cd V c \<longleftrightarrow> (\<exists>es. c = concat (map (wal_line cd) es) \<and> list_all (good_entry cd V) es)"

definition seg_entries :: "('j, 'd) ws_codec \<Rightarrow> bytes \<Rightarrow> 'd WALEntry list" where
  "seg_entries cd c = fst (readSegmentEntries cd c)"

definition all_entries :: "('j, 'd) ws_codec \<Rightarrow> disk \<Rightarrow> 'd WALEntry list" where
  "all_entries cd dk = concat (map (\<lambda>(_, c). seg_entries cd c) (dk_segments dk))"

definition wal_ok :: "('j, 'd) ws_codec \<Rightarrow> ('j, 'd) ws_valid \<Rightarrow> disk \<Rightarrow> bool" where
  "wal_ok cd V dk \<longleftrightarrow> gm_wf (dk_segments dk) \<and> (\<forall>(k, c) \<in> set (dk_segments dk). seg_ok cd V c) \<and> distinct (map we_Seq (all_entries cd dk))"

lemma seg_entries_ok: "codec_ok cd V \<Longrightarrow> list_all (good_entry cd V) es \<Longrightarrow> seg_entries cd (concat (map (wal_line cd) es)) = es"
  by (simp add: seg_entries_def scan_entries)

lemma seg_ok_append:
  assumes "codec_ok cd V" "seg_ok cd V c" "good_entry cd V e"
  shows "seg_ok cd V (c @ wal_line cd e)" "seg_entries cd (c @ wal_line cd e) = seg_entries cd c @ [e]"
proof -
  obtain es where es: "c = concat (map (wal_line cd) es)" "list_all (good_entry cd V) es" using assms(2) by (auto simp: seg_ok_def)
  have c: "c @ wal_line cd e = concat (map (wal_line cd) (es @ [e]))" "list_all (good_entry cd V) (es @ [e])" using es assms(3) by simp_all
  then show "seg_ok cd V (c @ wal_line cd e)" unfolding seg_ok_def by blast
  show "seg_entries cd (c @ wal_line cd e) = seg_entries cd c @ [e]"
    unfolding c(1) using seg_entries_ok [OF assms(1) c(2)] seg_entries_ok [OF assms(1) es(2)] es(1) by simp
qed

lemma mset_gm_set:
  "gm_wf m \<Longrightarrow> mset (concat (map (\<lambda>(_, c). f c) (gm_set k v m))) + (case gm_get m k of None \<Rightarrow> {#} | Some c \<Rightarrow> mset (f c)) =
    mset (concat (map (\<lambda>(_, c). f c) m)) + mset (f v)"
  by (induction m) (auto simp: union_ac split: option.splits)


lemma seg_entries_Nil [simp]: "seg_entries cd [] = []"
proof -
  have "scan_lines [] = ([], False)" by (subst scan_lines.simps) simp
  then show ?thesis by (simp add: seg_entries_def readSegmentEntries_def List.map_filter_simps)
qed

lemma seg_ok_Nil [simp]: "seg_ok cd V []"
  unfolding seg_ok_def by (rule exI [of _ "[]"]) simp

lemma seg_ok_segment: "wal_ok cd V dk \<Longrightarrow> seg_ok cd V (segment dk k)"
  by (auto simp: segment_def wal_ok_def split: option.splits dest!: map_of_SomeD)

text \<open>Replacing the content of one segment.\<close>

lemma set_segment:
  assumes "wal_ok cd V dk" "seg_ok cd V c" "distinct (map we_Seq (seg_entries cd (segment dk k) @ X))"
    and c: "mset (seg_entries cd c) = mset (seg_entries cd (segment dk k)) + mset X" and X: "set (map we_Seq X) \<inter> we_Seq ` set (all_entries cd dk) = {}"
    "distinct (map we_Seq X)"
  shows "wal_ok cd V (dk\<lparr>dk_segments := gm_set k c (dk_segments dk)\<rparr>)"
    "mset (all_entries cd (dk\<lparr>dk_segments := gm_set k c (dk_segments dk)\<rparr>)) = mset (all_entries cd dk) + mset X"
proof -
  let ?dk = "dk\<lparr>dk_segments := gm_set k c (dk_segments dk)\<rparr>"
  have wf: "gm_wf (dk_segments dk)" using assms(1) by (simp add: wal_ok_def)
  have old: "(case gm_get (dk_segments dk) k of None \<Rightarrow> {#} | Some c \<Rightarrow> mset (seg_entries cd c)) = mset (seg_entries cd (segment dk k))"
    by (simp add: segment_def split: option.splits)
  have "mset (all_entries cd ?dk) + mset (seg_entries cd (segment dk k)) = mset (all_entries cd dk) + mset (seg_entries cd c)"
    using mset_gm_set [OF wf, of "seg_entries cd" k c] unfolding old by (simp add: all_entries_def)
  then show m: "mset (all_entries cd ?dk) = mset (all_entries cd dk) + mset X" unfolding c by simp
  have "mset (map we_Seq (all_entries cd ?dk)) = mset (map we_Seq (all_entries cd dk @ X))" using m by simp
  then have "distinct (map we_Seq (all_entries cd ?dk)) = distinct (map we_Seq (all_entries cd dk @ X))" by (rule mset_eq_imp_distinct_iff)
  then have d: "distinct (map we_Seq (all_entries cd ?dk))" using assms(1) X by (auto simp: wal_ok_def)
  have "seg_ok cd V c'" if "(k', c') \<in> set (gm_set k c (dk_segments dk))" for k' c'
  proof -
    have "gm_get (gm_set k c (dk_segments dk)) k' = Some c'" using that wf by (intro map_of_is_SomeI) simp_all
    then have "k' = k \<and> c' = c \<or> gm_get (dk_segments dk) k' = Some c'" by (auto split: if_splits)
    then show ?thesis using assms(1,2) by (auto simp: wal_ok_def dest!: map_of_SomeD)
  qed
  then show "wal_ok cd V ?dk" using wf d unfolding wal_ok_def by auto
qed

lemma segment_part:
  assumes "wal_ok cd V dk"
  shows "set (seg_entries cd (segment dk k)) \<subseteq> set (all_entries cd dk)" "distinct (map we_Seq (seg_entries cd (segment dk k)))"
proof -
  have "set (seg_entries cd (segment dk k)) \<subseteq> set (all_entries cd dk) \<and> distinct (map we_Seq (seg_entries cd (segment dk k)))"
  proof (cases "gm_get (dk_segments dk) k")
    case (Some c)
    then have "(k, c) \<in> set (dk_segments dk)" by (rule map_of_SomeD)
    then obtain as bs where "dk_segments dk = as @ (k, c) # bs" by (meson split_list)
    then have "all_entries cd dk = concat (map (\<lambda>(_, c). seg_entries cd c) as) @ seg_entries cd c @ concat (map (\<lambda>(_, c). seg_entries cd c) bs)"
      by (simp add: all_entries_def)
    moreover have "segment dk k = c" using Some by (simp add: segment_def)
    moreover have "distinct (map we_Seq (all_entries cd dk))" using assms by (simp add: wal_ok_def)
    ultimately show ?thesis by auto
  qed (simp add: segment_def)
  then show "set (seg_entries cd (segment dk k)) \<subseteq> set (all_entries cd dk)" "distinct (map we_Seq (seg_entries cd (segment dk k)))" by blast+
qed

lemma openSegment_ok:
  assumes "wal_ok cd V dk" "openSegment k dk = (w, dk')"
  shows "wal_ok cd V dk'" "mset (all_entries cd dk') = mset (all_entries cd dk)" "dk_checkpoints dk' = dk_checkpoints dk"
proof -
  have dk': "dk' = dk\<lparr>dk_segments := gm_set k (segment dk k) (dk_segments dk)\<rparr>" using assms(2) by (simp add: openSegment_def)
  have "distinct (map we_Seq (seg_entries cd (segment dk k)))" by (rule segment_part(2) [OF assms(1)])
  then show "wal_ok cd V dk'" "mset (all_entries cd dk') = mset (all_entries cd dk)"
    using set_segment [OF assms(1) seg_ok_segment [OF assms(1)], of k "[]" k] unfolding dk' by simp_all
  show "dk_checkpoints dk' = dk_checkpoints dk" by (simp add: dk')
qed

lemma wal_Append_ok:
  assumes cd: "codec_ok cd V" and ok: "wal_ok cd V dk" and e: "good_entry cd V e" "we_Seq e \<notin> we_Seq ` set (all_entries cd dk)"
    and act: "ww_activeFile w"
  obtains w' dk' where "wal_Append cd WriteOk e (w, dk) = (None, w', dk')" "ww_activeFile w'" "wal_ok cd V dk'"
    "mset (all_entries cd dk') = add_mset e (mset (all_entries cd dk))" "dk_checkpoints dk' = dk_checkpoints dk"
proof -
  obtain l where l: "wal_line cd e = l @ [10]" "wc_entry cd e = Inr l" by (rule good_line [OF cd e(1)]) (rule that)
  let ?full = "ww_segmentSize w > 0 \<and> ww_segmentSize w + int (length (l @ [10])) > maxSegmentSize"
  obtain w1 dk1 where r: "(if ?full then rotateSegmentLocked w dk else (w, dk)) = (w1, dk1)" by (rule prod.exhaust)
  have 1: "wal_ok cd V dk1" "mset (all_entries cd dk1) = mset (all_entries cd dk)" "dk_checkpoints dk1 = dk_checkpoints dk"
  proof -
    have "wal_ok cd V dk1 \<and> mset (all_entries cd dk1) = mset (all_entries cd dk) \<and> dk_checkpoints dk1 = dk_checkpoints dk"
    proof (cases ?full)
      case True
      then have "openSegment (ww_segmentIdx w + 1) dk = (w1, dk1)" using r by (simp add: rotateSegmentLocked_def)
      then show ?thesis using openSegment_ok [OF ok] by blast
    next
      case False
      then have "dk1 = dk" using r by auto
      then show ?thesis using ok by simp
    qed
    then show "wal_ok cd V dk1" "mset (all_entries cd dk1) = mset (all_entries cd dk)" "dk_checkpoints dk1 = dk_checkpoints dk" by blast+
  qed
  have act1: "ww_activeFile w1" using r act by (auto simp: rotateSegmentLocked_def openSegment_def split: if_splits)
  let ?k = "ww_segmentIdx w1"
  let ?c = "segment dk1 ?k @ wal_line cd e"
  note app = seg_ok_append [OF cd seg_ok_segment [OF 1(1), of ?k] e(1)]
  have seqs: "we_Seq e \<notin> we_Seq ` set (all_entries cd dk1)" using e(2) mset_eq_setD [OF 1(2)] by simp
  have dist: "distinct (map we_Seq (seg_entries cd (segment dk1 ?k) @ [e]))" using seqs segment_part [OF 1(1), of ?k] by auto
  have m: "mset (seg_entries cd ?c) = mset (seg_entries cd (segment dk1 ?k)) + mset [e]" using app(2) by simp
  note S = set_segment [OF 1(1) app(1) dist m]
  have "wal_ok cd V (append_bytes ?k (wal_line cd e) dk1)" "mset (all_entries cd (append_bytes ?k (wal_line cd e) dk1)) = mset (all_entries cd dk1) + mset [e]"
    using S seqs by (simp_all add: append_bytes_def)
  moreover have "wal_Append cd WriteOk e (w, dk) = (None, w1\<lparr>ww_segmentSize := ww_segmentSize w1 + int (length (l @ [10]))\<rparr>, append_bytes ?k (wal_line cd e) dk1)"
    unfolding wal_Append_def prod.case l(2) sum.case Let_def r l(1) using act1 by simp
  moreover have "dk_checkpoints (append_bytes ?k (wal_line cd e) dk1) = dk_checkpoints dk" using 1(3) by (simp add: append_bytes_def)
  ultimately show ?thesis
    using 1(2) act1 by (intro that [of "w1\<lparr>ww_segmentSize := ww_segmentSize w1 + int (length (l @ [10]))\<rparr>" "append_bytes ?k (wal_line cd e) dk1"]) simp_all
qed


lemma gm_del_filter: "gm_wf m \<Longrightarrow> gm_del k m = filter (\<lambda>p. fst p \<noteq> k) m"
  unfolding AList.delete_eq by (rule filter_cong) auto

lemma delete_segment_ok:
  assumes "codec_ok cd V" "wal_ok cd V dk"
  shows "wal_ok cd V (delete_segment cd active n seg dk)" "set (all_entries cd (delete_segment cd active n seg dk)) \<subseteq> set (all_entries cd dk)"
    "\<And>e. e \<in> set (all_entries cd dk) \<Longrightarrow> n < we_Seq e \<Longrightarrow> e \<in> set (all_entries cd (delete_segment cd active n seg dk))"
    "dk_checkpoints (delete_segment cd active n seg dk) = dk_checkpoints dk"
proof -
  let ?dk = "dk\<lparr>dk_segments := gm_del seg (dk_segments dk)\<rparr>"
  have wf: "gm_wf (dk_segments dk)" using assms(2) by (simp add: wal_ok_def)
  have "delete_segment cd active n seg dk = dk \<or>
      delete_segment cd active n seg dk = ?dk \<and> (\<forall>e \<in> set (seg_entries cd (segment dk seg)). \<not> n < we_Seq e)"
    by (auto simp: delete_segment_def seg_entries_def list_all_iff split: prod.splits)
  moreover have del: "dk_segments ?dk = filter (\<lambda>p. fst p \<noteq> seg) (dk_segments dk)" using gm_del_filter [OF wf] by simp
  have sub: "set (all_entries cd ?dk) \<subseteq> set (all_entries cd dk)" unfolding all_entries_def del by auto
  have ok: "wal_ok cd V ?dk"
  proof -
    have "distinct (map we_Seq (concat (map (\<lambda>(_, c). seg_entries cd c) (filter P m))))"
      if "distinct (map we_Seq (concat (map (\<lambda>(_, c). seg_entries cd c) m)))" for P m
      using that by (induction m) (auto, fastforce)
    then have "distinct (map we_Seq (all_entries cd ?dk))" using assms(2) unfolding all_entries_def del wal_ok_def by blast
    moreover have "gm_wf (dk_segments ?dk)" unfolding del using wf by (simp add: distinct_map_filter)
    moreover have "\<forall>(k, c) \<in> set (dk_segments ?dk). seg_ok cd V c" using assms(2) unfolding del wal_ok_def by auto
    ultimately show ?thesis unfolding wal_ok_def by blast
  qed
  have keep: "e \<in> set (all_entries cd ?dk)"
    if e: "e \<in> set (all_entries cd dk)" "n < we_Seq e" and low: "\<forall>e \<in> set (seg_entries cd (segment dk seg)). \<not> n < we_Seq e" for e
  proof -
    obtain k c where k: "(k, c) \<in> set (dk_segments dk)" "e \<in> set (seg_entries cd c)" using e(1) by (auto simp: all_entries_def)
    have "segment dk k = c" using k(1) wf by (simp add: segment_def map_of_is_SomeI)
    then have "k \<noteq> seg" using low e(2) k(2) by auto
    then have "(k, c) \<in> set (dk_segments ?dk)" unfolding del using k(1) by simp
    then show ?thesis using k(2) unfolding all_entries_def by force
  qed
  ultimately show "wal_ok cd V (delete_segment cd active n seg dk)" "set (all_entries cd (delete_segment cd active n seg dk)) \<subseteq> set (all_entries cd dk)"
    "\<And>e. e \<in> set (all_entries cd dk) \<Longrightarrow> n < we_Seq e \<Longrightarrow> e \<in> set (all_entries cd (delete_segment cd active n seg dk))"
    "dk_checkpoints (delete_segment cd active n seg dk) = dk_checkpoints dk"
    using assms(2) sub ok keep by (elim disjE; auto)+
qed

lemma DeleteSegmentsBelow_ok:
  assumes "codec_ok cd V" "wal_ok cd V dk"
  shows "wal_ok cd V (DeleteSegmentsBelow cd w n dk)" "set (all_entries cd (DeleteSegmentsBelow cd w n dk)) \<subseteq> set (all_entries cd dk)"
    "\<And>e. e \<in> set (all_entries cd dk) \<Longrightarrow> n < we_Seq e \<Longrightarrow> e \<in> set (all_entries cd (DeleteSegmentsBelow cd w n dk))"
    "dk_checkpoints (DeleteSegmentsBelow cd w n dk) = dk_checkpoints dk"
proof -
  let ?P = "\<lambda>dk'. wal_ok cd V dk' \<and> set (all_entries cd dk') \<subseteq> set (all_entries cd dk) \<and>
      (\<forall>e \<in> set (all_entries cd dk). n < we_Seq e \<longrightarrow> e \<in> set (all_entries cd dk')) \<and> dk_checkpoints dk' = dk_checkpoints dk"
  have "?P (fold (delete_segment cd (ww_segmentIdx w) n) segs dk')" if "?P dk'" for segs dk'
    using that
  proof (induction segs arbitrary: dk')
    case (Cons seg segs)
    have "?P (delete_segment cd (ww_segmentIdx w) n seg dk')"
      using Cons.prems delete_segment_ok [OF assms(1), where dk = dk' and active = "ww_segmentIdx w" and n = n and seg = seg] by auto
    then show ?case using Cons.IH by simp
  qed simp
  from this [of dk "listSegments dk"] have "?P (DeleteSegmentsBelow cd w n dk)" using assms(2) unfolding DeleteSegmentsBelow_def by simp
  then show "wal_ok cd V (DeleteSegmentsBelow cd w n dk)" "set (all_entries cd (DeleteSegmentsBelow cd w n dk)) \<subseteq> set (all_entries cd dk)"
    "\<And>e. e \<in> set (all_entries cd dk) \<Longrightarrow> n < we_Seq e \<Longrightarrow> e \<in> set (all_entries cd (DeleteSegmentsBelow cd w n dk))"
    "dk_checkpoints (DeleteSegmentsBelow cd w n dk) = dk_checkpoints dk"
    by blast+
qed


lemma mset_concat_perm: "mset xs = mset ys \<Longrightarrow> mset (concat (map g xs)) = mset (concat (map g ys))"
proof -
  assume "mset xs = mset ys"
  then have "mset (map (\<lambda>x. mset (g x)) xs) = mset (map (\<lambda>x. mset (g x)) ys)" by simp
  then have "sum_mset (mset (map (\<lambda>x. mset (g x)) xs)) = sum_mset (mset (map (\<lambda>x. mset (g x)) ys))" by (rule arg_cong)
  then show ?thesis unfolding sum_mset_sum_list by (simp add: mset_concat comp_def)
qed

lemma listSegments_mset: "gm_wf (dk_segments dk) \<Longrightarrow> mset (listSegments dk) = mset (map fst (dk_segments dk))"
  unfolding listSegments_def by (subst set_eq_iff_mset_eq_distinct [symmetric]) simp_all

text \<open>The replayed entries are those above the checkpoint, in the order of their sequence numbers.\<close>

lemma ReplayEntries_ok:
  assumes "wal_ok cd V dk"
  shows "set (ReplayEntries cd dk n) = {e \<in> set (all_entries cd dk). n < we_Seq e}" "sorted (map we_Seq (ReplayEntries cd dk n))"
    "distinct (map we_Seq (ReplayEntries cd dk n))"
proof -
  have wf: "gm_wf (dk_segments dk)" using assms by (simp add: wal_ok_def)
  let ?g = "\<lambda>seg. filter (\<lambda>e. n < we_Seq e) (seg_entries cd (segment dk seg))"
  have seg: "segment dk k = c" if "(k, c) \<in> set (dk_segments dk)" for k c using that wf by (simp add: segment_def map_of_is_SomeI)
  have "concat (map ?g (map fst (dk_segments dk))) = concat (map (\<lambda>(_, c). filter (\<lambda>e. n < we_Seq e) (seg_entries cd c)) (dk_segments dk))"
    unfolding map_map using seg by (intro arg_cong [where f = concat] map_cong) auto
  also have "\<dots> = filter (\<lambda>e. n < we_Seq e) (all_entries cd dk)"
    by (simp add: all_entries_def filter_concat comp_def case_prod_unfold)
  finally have f: "concat (map ?g (map fst (dk_segments dk))) = filter (\<lambda>e. n < we_Seq e) (all_entries cd dk)" .
  have r: "ReplayEntries cd dk n = sort_slice (\<lambda>a b. we_Seq a < we_Seq b) (concat (map ?g (listSegments dk)))"
    by (simp add: ReplayEntries_def seg_entries_def)
  have m: "mset (concat (map ?g (listSegments dk))) = mset (filter (\<lambda>e. n < we_Seq e) (all_entries cd dk))"
    using mset_concat_perm [OF listSegments_mset [OF wf], of ?g] unfolding f .
  show set: "set (ReplayEntries cd dk n) = {e \<in> set (all_entries cd dk). n < we_Seq e}"
    unfolding r set_sort_slice mset_eq_setD [OF m] by simp
  show "sorted (map we_Seq (ReplayEntries cd dk n))" unfolding r by (rule sorted_sort_slice_key)
  have d: "distinct (map we_Seq (filter (\<lambda>e. n < we_Seq e) (all_entries cd dk)))" using assms by (simp add: wal_ok_def distinct_map_filter)
  then have "distinct (filter (\<lambda>e. n < we_Seq e) (all_entries cd dk))" by (simp add: distinct_map)
  then have "distinct (concat (map ?g (listSegments dk)))" using mset_eq_imp_distinct_iff [OF m] by blast
  then have "distinct (ReplayEntries cd dk n)" unfolding r by simp
  moreover have "inj_on we_Seq (set (ReplayEntries cd dk n))" using d unfolding set by (simp add: distinct_map)
  ultimately show "distinct (map we_Seq (ReplayEntries cd dk n))" by (simp add: distinct_map)
qed

subsection \<open>What the store holds\<close>

text \<open>The contents of the store without the sequence numbers of the audit events, and the effect of an entry on them.\<close>

type_synonym ('j, 'd) ws_view = "(string \<rightharpoonup> 'j) \<times> (string \<rightharpoonup> BundleMetadata) \<times> AuditEvent list \<times> 'd list"

definition view :: "('j, 'd) WsStore \<Rightarrow> ('j, 'd) ws_view" where
  "view s = (gm_get (ws_jobs s), gm_get (ws_bundles s), map strip (ws_auditEvents s), ws_ledgerEntries s)"

definition empty_view :: "('j, 'd) ws_view" where
  "empty_view = (Map.empty, Map.empty, [], [])"

definition apply_entry :: "('j, 'd) ws_codec \<Rightarrow> 'd WALEntry \<Rightarrow> ('j, 'd) ws_view \<Rightarrow> ('j, 'd) ws_view" where
  "apply_entry cd e = (\<lambda>(jobs, bundles, audits, ledger).
     case we_Kind e of
       KindJob \<Rightarrow> (case wc_unjob cd (we_Data e) of Some j \<Rightarrow> (jobs(wc_job_id cd j \<mapsto> j), bundles, audits, ledger) | None \<Rightarrow> (jobs, bundles, audits, ledger))
     | KindBundle \<Rightarrow> (case wc_unbundle cd (we_Data e) of Some b \<Rightarrow> (jobs, bundles(bm_BundleID b \<mapsto> b), audits, ledger) | None \<Rightarrow> (jobs, bundles, audits, ledger))
     | KindAudit \<Rightarrow> (case wc_unaudit cd (we_Data e) of Some a \<Rightarrow> (jobs, bundles, audits @ [strip a], ledger) | None \<Rightarrow> (jobs, bundles, audits, ledger))
     | KindLedger \<Rightarrow> (jobs, bundles, audits, ledger @ [we_Data e])
     | KindOther _ \<Rightarrow> (jobs, bundles, audits, ledger))"

text \<open>An entry that recovery does not skip, with values that can be written again.\<close>

definition replayable :: "('j, 'd) ws_codec \<Rightarrow> ('j, 'd) ws_valid \<Rightarrow> 'd WALEntry \<Rightarrow> bool" where
  "replayable cd V e =
     (case we_Kind e of
        KindJob \<Rightarrow> we_Op e = OpUpsert \<and> (case wc_unjob cd (we_Data e) of None \<Rightarrow> False | Some j \<Rightarrow> wv_job V j)
      | KindBundle \<Rightarrow> we_Op e = OpUpsert \<and> (case wc_unbundle cd (we_Data e) of None \<Rightarrow> False | Some b \<Rightarrow> wv_bundle V b)
      | KindAudit \<Rightarrow> we_Op e = OpInsert \<and> (case wc_unaudit cd (we_Data e) of None \<Rightarrow> False | Some a \<Rightarrow> wv_audit V (strip a))
      | KindLedger \<Rightarrow> we_Op e = OpInsert
      | KindOther _ \<Rightarrow> False)"

text \<open>The maps are keyed by the identifiers of their values, and the values can be written.\<close>

definition mem_ok :: "('j, 'd) ws_codec \<Rightarrow> ('j, 'd) ws_valid \<Rightarrow> ('j, 'd) WsStore \<Rightarrow> bool" where
  "mem_ok cd V s \<longleftrightarrow>
     gm_wf (ws_jobs s) \<and> (\<forall>k j. gm_get (ws_jobs s) k = Some j \<longrightarrow> k = wc_job_id cd j \<and> wv_job V j) \<and>
     gm_wf (ws_bundles s) \<and> (\<forall>k b. gm_get (ws_bundles s) k = Some b \<longrightarrow> k = bm_BundleID b \<and> wv_bundle V b) \<and>
     list_all (\<lambda>a. wv_audit V (strip a)) (ws_auditEvents s)"

lemma mem_ok_fields [simp]: "mem_ok cd V (s\<lparr>ws_nextSeq := n\<rparr>) = mem_ok cd V s" "mem_ok cd V (s\<lparr>ws_wal := w\<rparr>) = mem_ok cd V s"
    "mem_ok cd V (s\<lparr>ws_checkpoint := c\<rparr>) = mem_ok cd V s"
  by (simp_all add: mem_ok_def)

lemma mem_ok_set:
  assumes "mem_ok cd V s"
  shows "wv_job V j \<Longrightarrow> mem_ok cd V (s\<lparr>ws_jobs := gm_set (wc_job_id cd j) j (ws_jobs s)\<rparr>)"
    "wv_bundle V b \<Longrightarrow> mem_ok cd V (s\<lparr>ws_bundles := gm_set (bm_BundleID b) b (ws_bundles s)\<rparr>)"
    "wv_audit V (strip a) \<Longrightarrow> mem_ok cd V (s\<lparr>ws_auditEvents := ws_auditEvents s @ [a]\<rparr>)"
    "mem_ok cd V (s\<lparr>ws_ledgerEntries := l\<rparr>)"
  using assms by (auto simp: mem_ok_def)

lemma strip_strip [simp]: "strip (a\<lparr>ae_Seq := n\<rparr>) = strip a" "strip (strip a) = strip a"
  by (simp_all add: strip_def)

lemma view_fields [simp]: "view (s\<lparr>ws_nextSeq := n\<rparr>) = view s" "view (s\<lparr>ws_wal := w\<rparr>) = view s" "view (s\<lparr>ws_checkpoint := c\<rparr>) = view s"
  by (simp_all add: view_def)

lemma recover_entry_step:
  assumes "replayable cd V e"
  shows "view (recover_entry cd e s) = apply_entry cd e (view s)" "ws_nextSeq (recover_entry cd e s) = max (ws_nextSeq s) (Suc (we_Seq e))"
    "ws_wal (recover_entry cd e s) = ws_wal s" "ws_checkpoint (recover_entry cd e s) = ws_checkpoint s" "ws_cfg (recover_entry cd e s) = ws_cfg s"
  using assms
  by (auto simp: replayable_def recover_entry_def replay_entry_def apply_entry_def view_def fun_eq_iff split: EntityKind.splits option.splits)

lemma recover_entry_mem:
  assumes "replayable cd V e" "mem_ok cd V s"
  shows "mem_ok cd V (recover_entry cd e s)"
proof -
  have "\<exists>s'. replay_entry cd e s = Some s' \<and> mem_ok cd V s'"
    using assms(1) mem_ok_set [OF assms(2)]
    by (auto simp: replayable_def replay_entry_def split: EntityKind.splits option.splits)
  then show ?thesis by (auto simp: recover_entry_def)
qed

lemma recover_entries_mem: "list_all (replayable cd V) es \<Longrightarrow> mem_ok cd V s \<Longrightarrow> mem_ok cd V (fold (recover_entry cd) es s)"
  by (induction es arbitrary: s) (simp_all add: recover_entry_mem)

lemma recover_entries:
  assumes "list_all (replayable cd V) es"
  shows "view (fold (recover_entry cd) es s) = fold (apply_entry cd) es (view s)"
    "\<forall>e \<in> set es. we_Seq e < ws_nextSeq (fold (recover_entry cd) es s)" "ws_nextSeq s \<le> ws_nextSeq (fold (recover_entry cd) es s)"
    "ws_wal (fold (recover_entry cd) es s) = ws_wal s"
proof -
  have "view (fold (recover_entry cd) es s) = fold (apply_entry cd) es (view s) \<and>
      (\<forall>e \<in> set es. we_Seq e < ws_nextSeq (fold (recover_entry cd) es s)) \<and> ws_nextSeq s \<le> ws_nextSeq (fold (recover_entry cd) es s) \<and>
      ws_wal (fold (recover_entry cd) es s) = ws_wal s"
    using assms
  proof (induction es arbitrary: s)
    case (Cons e es)
    note st = recover_entry_step [of cd V e s]
    have IH: "view (fold (recover_entry cd) es (recover_entry cd e s)) = fold (apply_entry cd) es (view (recover_entry cd e s))"
      "\<forall>x \<in> set es. we_Seq x < ws_nextSeq (fold (recover_entry cd) es (recover_entry cd e s))"
      "ws_nextSeq (recover_entry cd e s) \<le> ws_nextSeq (fold (recover_entry cd) es (recover_entry cd e s))"
      "ws_wal (fold (recover_entry cd) es (recover_entry cd e s)) = ws_wal (recover_entry cd e s)"
      using Cons.IH [of "recover_entry cd e s"] Cons.prems by simp_all
    then show ?case using st Cons.prems by auto
  qed simp
  then show "view (fold (recover_entry cd) es s) = fold (apply_entry cd) es (view s)"
    "\<forall>e \<in> set es. we_Seq e < ws_nextSeq (fold (recover_entry cd) es s)" "ws_nextSeq s \<le> ws_nextSeq (fold (recover_entry cd) es s)"
    "ws_wal (fold (recover_entry cd) es s) = ws_wal s" by blast+
qed


text \<open>A mutation has on the contents the effect of its entry.\<close>

datatype ('j, 'd) payload = PJob 'j | PBundle BundleMetadata | PAudit AuditEvent | PLedger 'd

fun begin_part :: "('j, 'd) ws_codec \<Rightarrow> int \<Rightarrow> ('j, 'd) payload \<Rightarrow> ('j, 'd) WsStore \<Rightarrow> (ws_error, 'd WALEntry \<times> ('j, 'd) WsStore) result" where
  "begin_part cd now (PJob j) = job_part cd now j"
| "begin_part cd now (PBundle b) = bundle_part cd now b"
| "begin_part cd now (PAudit a) = audit_part cd now a"
| "begin_part cd now (PLedger d) = ledger_part now d"

fun valid_payload :: "('j, 'd) ws_valid \<Rightarrow> ('j, 'd) payload \<Rightarrow> bool" where
  "valid_payload V (PJob j) = wv_job V j"
| "valid_payload V (PBundle b) = wv_bundle V b"
| "valid_payload V (PAudit a) = wv_audit V (strip a)"
| "valid_payload V (PLedger d) = True"

lemma begin_part_ok:
  assumes cd: "codec_ok cd V" and p: "valid_payload V p" and b: "begin_part cd now p s = Inr (e, s')"
  shows "replayable cd V e \<and> view s' = apply_entry cd e (view s) \<and> we_Seq e = ws_nextSeq s \<and> ws_nextSeq s' = Suc (ws_nextSeq s) \<and>
    ws_wal s' = ws_wal s \<and> ws_cfg s' = ws_cfg s \<and> (mem_ok cd V s \<longrightarrow> mem_ok cd V s')"
proof (cases p)
  case (PJob j)
  then obtain d where d: "wc_job cd j = Inr d" "wc_unjob cd d = Some j" using cd p unfolding codec_ok_def by auto
  then have "e = new_entry now OpUpsert KindJob d s" "s' = s\<lparr>ws_nextSeq := ws_nextSeq s + 1, ws_jobs := gm_set (wc_job_id cd j) j (ws_jobs s)\<rparr>"
    using b PJob by (simp_all add: job_part_def)
  then show ?thesis using d p PJob mem_ok_set(1) [of cd V "s\<lparr>ws_nextSeq := ws_nextSeq s + 1\<rparr>" j]
    by (auto simp: new_entry_def replayable_def apply_entry_def view_def fun_eq_iff)
next
  case (PBundle x)
  then obtain d where d: "wc_bundle cd x = Inr d" "wc_unbundle cd d = Some x" using cd p unfolding codec_ok_def by auto
  then have "e = new_entry now OpUpsert KindBundle d s" "s' = s\<lparr>ws_nextSeq := ws_nextSeq s + 1, ws_bundles := gm_set (bm_BundleID x) x (ws_bundles s)\<rparr>"
    using b PBundle by (simp_all add: bundle_part_def)
  then show ?thesis using d p PBundle mem_ok_set(2) [of cd V "s\<lparr>ws_nextSeq := ws_nextSeq s + 1\<rparr>" x]
    by (auto simp: new_entry_def replayable_def apply_entry_def view_def fun_eq_iff)
next
  case (PAudit a)
  then obtain d where d: "wc_audit cd a = Inr d" "wc_unaudit cd d = Some (strip a)" using cd p unfolding codec_ok_def by auto
  then have "e = new_entry now OpInsert KindAudit d s"
      "s' = s\<lparr>ws_nextSeq := ws_nextSeq s + 1, ws_auditEvents := ws_auditEvents s @ [a\<lparr>ae_Seq := ws_nextSeq s\<rparr>]\<rparr>"
    using b PAudit by (simp_all add: audit_part_def)
  then show ?thesis using d p PAudit mem_ok_set(3) [of cd V "s\<lparr>ws_nextSeq := ws_nextSeq s + 1\<rparr>" "a\<lparr>ae_Seq := ws_nextSeq s\<rparr>"]
    by (auto simp: new_entry_def replayable_def apply_entry_def view_def)
next
  case (PLedger d)
  then have "e = new_entry now OpInsert KindLedger d s" "s' = s\<lparr>ws_nextSeq := ws_nextSeq s + 1, ws_ledgerEntries := ws_ledgerEntries s @ [d]\<rparr>"
    using b by (simp_all add: ledger_part_def)
  then show ?thesis using mem_ok_set(4) [of cd V "s\<lparr>ws_nextSeq := ws_nextSeq s + 1\<rparr>"]
    by (auto simp: new_entry_def replayable_def apply_entry_def view_def)
qed

text \<open>A snapshot that is read back has the contents of the store it was taken of.\<close>

lemma fold_gm_set: "gm_wf xs \<Longrightarrow> gm_get (fold (\<lambda>(k, v). gm_set k v) xs m) k = (case gm_get xs k of None \<Rightarrow> gm_get m k | Some v \<Rightarrow> Some v)"
proof (induction xs arbitrary: m)
  case (Cons x xs)
  obtain a b where x: "x = (a, b)" by (rule prod.exhaust)
  then have "gm_get xs a = None" "gm_wf xs" using Cons.prems by (simp_all add: map_of_eq_None_iff)
  then show ?case using Cons.IH [of "gm_set a b m"] x by (cases "k = a") (simp_all split: option.splits)
qed simp

lemma fold_gm_set_wf: "gm_wf m \<Longrightarrow> gm_wf (fold (\<lambda>(k, v). gm_set k v) xs m)"
  by (induction xs arbitrary: m) auto

lemma load_snapshot_ok:
  assumes cd: "codec_ok cd V" and s: "mem_ok cd V s"
  shows "view (load_from cd (strip_snapshot (take_snapshot cd now s)) s0) = view s" "mem_ok cd V (load_from cd (strip_snapshot (take_snapshot cd now s)) s0)"
proof -
  have wf: "gm_wf (ws_jobs s)" "gm_wf (ws_bundles s)" using s by (simp_all add: mem_ok_def)
  have jobs: "fold (\<lambda>d jobs. case wc_unjob cd d of None \<Rightarrow> jobs | Some job \<Rightarrow> gm_set (wc_job_id cd job) job jobs)
      (List.map_filter (\<lambda>(_, job). right_option (wc_job cd job)) xs) m = fold (\<lambda>(k, v). gm_set k v) xs m"
    if "\<forall>(k, j) \<in> set xs. k = wc_job_id cd j \<and> wv_job V j" for xs m
    using that
  proof (induction xs arbitrary: m)
    case (Cons x xs)
    obtain k j where x: "x = (k, j)" by (rule prod.exhaust)
    then have j: "k = wc_job_id cd j" "wv_job V j" using Cons.prems by auto
    then obtain d where "wc_job cd j = Inr d" "wc_unjob cd d = Some j" using cd unfolding codec_ok_def by blast
    then show ?case using Cons x j by (simp add: List.map_filter_simps right_option_def)
  qed (simp add: List.map_filter_simps)
  have J: "load_jobs cd (sn_Jobs (strip_snapshot (take_snapshot cd now s))) = fold (\<lambda>(k, v). gm_set k v) (ws_jobs s) []"
    using s jobs [of "ws_jobs s" "[]"] wf by (auto simp: load_jobs_def strip_snapshot_def take_snapshot_def mem_ok_def)
  have bundles: "fold (\<lambda>b. gm_set (bm_BundleID b) b) (map snd xs) m = fold (\<lambda>(k, v). gm_set k v) xs m"
    if "\<forall>(k, b) \<in> set xs. k = bm_BundleID b" for xs m
    using that by (induction xs arbitrary: m) auto
  have B: "fold (\<lambda>b. gm_set (bm_BundleID b) b) (sn_Bundles (strip_snapshot (take_snapshot cd now s))) [] = fold (\<lambda>(k, v). gm_set k v) (ws_bundles s) []"
    using s bundles [of "ws_bundles s" "[]"] wf by (auto simp: strip_snapshot_def take_snapshot_def mem_ok_def)
  have get: "gm_get (fold (\<lambda>(k, v). gm_set k v) (ws_jobs s) []) = gm_get (ws_jobs s)" "gm_get (fold (\<lambda>(k, v). gm_set k v) (ws_bundles s) []) = gm_get (ws_bundles s)"
    using wf by (auto simp: fun_eq_iff fold_gm_set split: option.splits)
  have wf': "gm_wf (fold (\<lambda>(k, v). gm_set k v) (ws_jobs s) [])" "gm_wf (fold (\<lambda>(k, v). gm_set k v) (ws_bundles s) [])"
    by (rule fold_gm_set_wf, simp)+
  have A: "sn_AuditEvents (strip_snapshot (take_snapshot cd now s)) = map strip (ws_auditEvents s)" "sn_LedgerEntries (strip_snapshot (take_snapshot cd now s)) = ws_ledgerEntries s"
    by (simp_all add: strip_snapshot_def take_snapshot_def)
  show "view (load_from cd (strip_snapshot (take_snapshot cd now s)) s0) = view s"
    unfolding view_def load_from_def J B A using get by simp
  show "mem_ok cd V (load_from cd (strip_snapshot (take_snapshot cd now s)) s0)"
    using s get wf' unfolding mem_ok_def load_from_def J B A by (simp add: list_all_iff)
qed


subsection \<open>Recovering from a state directory\<close>

definition checkpoint_seq :: "('j, 'd) ws_codec \<Rightarrow> disk \<Rightarrow> nat" where
  "checkpoint_seq cd dk =
     (case gm_get (dk_checkpoints dk) ''checkpoint.json'' of
        None \<Rightarrow> 0
      | Some data \<Rightarrow> (case wc_uncheckpoint cd data of None \<Rightarrow> 0 | Some chk \<Rightarrow> cp_LastCompactedSeq chk))"

text \<open>A snapshot with number \<open>n\<close> that stands for the entries of a history up to \<open>n\<close>.\<close>

definition snap_ok :: "('j, 'd) ws_codec \<Rightarrow> ('j, 'd) ws_valid \<Rightarrow> 'd WALEntry list \<Rightarrow> nat \<Rightarrow> 'd compactedSnapshot \<Rightarrow> bool" where
  "snap_ok cd V H n sn \<longleftrightarrow>
     0 < n \<and> sn_Version sn = 1 \<and> sn_CheckpointSeq sn = n \<and>
     (\<forall>s0. view (load_from cd sn s0) = fold (apply_entry cd) (filter (\<lambda>e. we_Seq e \<le> n) H) empty_view \<and> mem_ok cd V (load_from cd sn s0))"

definition has_snapshot :: "('j, 'd) ws_codec \<Rightarrow> ('j, 'd) ws_valid \<Rightarrow> 'd WALEntry list \<Rightarrow> disk \<Rightarrow> nat \<Rightarrow> bool" where
  "has_snapshot cd V H dk n \<longleftrightarrow>
     (\<exists>c sn. gm_get (dk_checkpoints dk) (snapshot_file n) = Some c \<and> wc_unsnapshot cd c = Some sn \<and> snap_ok cd V H n sn)"

definition ckpt_ok :: "('j, 'd) ws_codec \<Rightarrow> ('j, 'd) ws_valid \<Rightarrow> 'd WALEntry list \<Rightarrow> disk \<Rightarrow> bool" where
  "ckpt_ok cd V H dk \<longleftrightarrow>
     (case gm_get (dk_checkpoints dk) ''checkpoint.json'' of
        None \<Rightarrow> True
      | Some data \<Rightarrow> (\<exists>n. wc_uncheckpoint cd data = Some \<lparr>cp_LastCompactedSeq = n, cp_SnapshotFile = snapshot_file n\<rparr> \<and> has_snapshot cd V H dk n))"

lemma ckpt_ok_cong: "dk_checkpoints dk' = dk_checkpoints dk \<Longrightarrow> ckpt_ok cd V H dk' = ckpt_ok cd V H dk"
    "dk_checkpoints dk' = dk_checkpoints dk \<Longrightarrow> has_snapshot cd V H dk' n = has_snapshot cd V H dk n"
  unfolding ckpt_ok_def has_snapshot_def by (simp_all split: option.split)

definition by_seq :: "'d WALEntry list \<Rightarrow> bool" where
  "by_seq H \<longleftrightarrow> sorted_wrt (\<lambda>a b. we_Seq a < we_Seq b) H"

lemma by_seq_filter: "by_seq H \<Longrightarrow> by_seq (filter P H)"
  by (simp add: by_seq_def sorted_wrt_filter)

lemma by_seq_unique:
  assumes "by_seq xs" "sorted (map we_Seq ys)" "distinct (map we_Seq ys)" "set xs = set ys"
  shows "ys = xs"
proof -
  have "sorted_wrt (<) (map we_Seq xs)" using assms(1) by (simp add: by_seq_def sorted_wrt_map)
  then have x: "sorted (map we_Seq xs)" "distinct (map we_Seq xs)" by (simp_all add: strict_sorted_iff)
  have "inj_on we_Seq (set ys)" using assms(3) unfolding distinct_map by blast
  then have "inj_on we_Seq (set ys \<union> set xs)" unfolding assms(4) by simp
  then show ?thesis by (rule map_sorted_distinct_set_unique [OF _ assms(2,3) x assms(4) [symmetric]])
qed

lemma by_seq_split:
  "by_seq H \<Longrightarrow> filter (\<lambda>e. we_Seq e \<le> n \<or> Q e) H = filter (\<lambda>e. we_Seq e \<le> n) H @ filter (\<lambda>e. n < we_Seq e \<and> Q e) H"
proof (induction H)
  case (Cons e H)
  then have IH: "filter (\<lambda>e. we_Seq e \<le> n \<or> Q e) H = filter (\<lambda>e. we_Seq e \<le> n) H @ filter (\<lambda>e. n < we_Seq e \<and> Q e) H"
    by (simp add: by_seq_def)
  show ?case
  proof (cases "we_Seq e \<le> n")
    case False
    then have "filter (\<lambda>e. we_Seq e \<le> n) H = []" using Cons.prems by (auto simp: by_seq_def filter_empty_conv)
    then show ?thesis using IH False by simp
  qed (use IH in simp)
qed simp

text \<open>The entries of a history that are in the state directory.\<close>

definition on_disk :: "('j, 'd) ws_codec \<Rightarrow> disk \<Rightarrow> 'd WALEntry list \<Rightarrow> 'd WALEntry list" where
  "on_disk cd dk H = filter (\<lambda>e. we_Seq e \<le> checkpoint_seq cd dk \<or> e \<in> set (all_entries cd dk)) H"

lemma replay_history:
  assumes "wal_ok cd V dk" "by_seq H" "set (all_entries cd dk) \<subseteq> set H"
  shows "ReplayEntries cd dk n = filter (\<lambda>e. n < we_Seq e \<and> e \<in> set (all_entries cd dk)) H"
proof (rule by_seq_unique)
  show "set (filter (\<lambda>e. n < we_Seq e \<and> e \<in> set (all_entries cd dk)) H) = set (ReplayEntries cd dk n)"
    unfolding ReplayEntries_ok(1) [OF assms(1)] using assms(3) by auto
qed (use ReplayEntries_ok(2,3) [OF assms(1)] assms(2) in \<open>simp_all add: by_seq_filter\<close>)

lemma checkpoint_seq_cong: "dk_checkpoints dk' = dk_checkpoints dk \<Longrightarrow> checkpoint_seq cd dk' = checkpoint_seq cd dk"
  by (simp add: checkpoint_seq_def)

lemma empty_store_ok [simp]: "view (empty_store cfg) = empty_view" "mem_ok cd V (empty_store cfg)" "ws_nextSeq (empty_store cfg) = 1"
    "ws_checkpoint (empty_store cfg) = None" "ws_cfg (empty_store cfg) = cfg"
  by (simp_all add: empty_store_def view_def empty_view_def mem_ok_def fun_eq_iff)

text \<open>The first part of \<open>recover\<close>: the state of the checkpoint.\<close>

lemma recover_checkpoint:
  assumes ck: "ckpt_ok cd V H dk'" and dk: "dk_checkpoints dk = dk_checkpoints dk'" and H: "\<forall>e \<in> set H. 0 < we_Seq e"
  obtains s1 where "ws_recover cd dk' ((loadCheckpoint cd dk (empty_store cfg))\<lparr>ws_wal := Some w\<rparr>) =
      Inr (fold (recover_entry cd) (ReplayEntries cd dk' (checkpoint_seq cd dk')) s1)"
    "view s1 = fold (apply_entry cd) (filter (\<lambda>e. we_Seq e \<le> checkpoint_seq cd dk') H) empty_view" "mem_ok cd V s1"
    "checkpoint_seq cd dk' < ws_nextSeq s1" "ws_wal s1 = Some w" "ws_cfg s1 = cfg"
proof (cases "gm_get (dk_checkpoints dk') ''checkpoint.json''")
  case None
  then have s: "(loadCheckpoint cd dk (empty_store cfg)) = empty_store cfg" "checkpoint_seq cd dk' = 0"
    using dk by (simp_all add: loadCheckpoint_def checkpoint_seq_def)
  have "filter (\<lambda>e. we_Seq e \<le> 0) H = []" using H by (auto simp: filter_empty_conv)
  then show ?thesis by (intro that [of "(empty_store cfg)\<lparr>ws_wal := Some w\<rparr>"]) (simp_all add: s ws_recover_def)
next
  case (Some data)
  then obtain n c sn where n: "wc_uncheckpoint cd data = Some \<lparr>cp_LastCompactedSeq = n, cp_SnapshotFile = snapshot_file n\<rparr>"
      "gm_get (dk_checkpoints dk') (snapshot_file n) = Some c" "wc_unsnapshot cd c = Some sn" "snap_ok cd V H n sn"
    using ck by (auto simp: ckpt_ok_def has_snapshot_def)
  have cp: "checkpoint_seq cd dk' = n" using Some n(1) by (simp add: checkpoint_seq_def)
  let ?chk = "\<lparr>cp_LastCompactedSeq = n, cp_SnapshotFile = snapshot_file n\<rparr>"
  let ?s = "(empty_store cfg)\<lparr>ws_checkpoint := Some ?chk, ws_wal := Some w\<rparr>"
  have s: "(loadCheckpoint cd dk (empty_store cfg))\<lparr>ws_wal := Some w\<rparr> = ?s" using Some n(1) dk by (simp add: loadCheckpoint_def)
  have sn: "0 < n" "sn_Version sn = 1" "sn_CheckpointSeq sn = n" using n(4) by (simp_all add: snap_ok_def)
  have ne: "snapshot_file n \<noteq> ''''" by (simp add: snapshot_file_def Let_def)
  have l: "loadSnapshot cd dk' ?s = Inr (load_from cd sn ?s)" using n(2,3) sn ne by (simp add: loadSnapshot_def Let_def)
  have nx: "ws_nextSeq (load_from cd sn ?s) = Suc n" using sn by (simp add: load_from_def)
  have r: "ws_recover cd dk' ?s = Inr (fold (recover_entry cd) (ReplayEntries cd dk' n) (load_from cd sn ?s))"
    using l nx by (simp add: ws_recover_def)
  show ?thesis
  proof (rule that [of "load_from cd sn ?s"])
    show "ws_recover cd dk' ((loadCheckpoint cd dk (empty_store cfg))\<lparr>ws_wal := Some w\<rparr>) =
      Inr (fold (recover_entry cd) (ReplayEntries cd dk' (checkpoint_seq cd dk')) (load_from cd sn ?s))" unfolding s cp by (rule r)
    show "view (load_from cd sn ?s) = fold (apply_entry cd) (filter (\<lambda>e. we_Seq e \<le> checkpoint_seq cd dk') H) empty_view" "mem_ok cd V (load_from cd sn ?s)"
      using n(4) unfolding cp snap_ok_def by blast+
    show "checkpoint_seq cd dk' < ws_nextSeq (load_from cd sn ?s)" using nx cp by simp
    show "ws_wal (load_from cd sn ?s) = Some w" "ws_cfg (load_from cd sn ?s) = cfg" by (simp_all add: load_from_def)
  qed
qed

lemma recover_entries_cfg: "ws_cfg (fold (recover_entry cd) es s) = ws_cfg s"
proof -
  have "ws_cfg (recover_entry cd e s) = ws_cfg s" for e s
    by (auto simp: recover_entry_def replay_entry_def split: EntityKind.splits option.splits)
  then show ?thesis by (induction es arbitrary: s) simp_all
qed

lemma ws_New_ok:
  assumes wal: "wal_ok cd V dk" and ck: "ckpt_ok cd V H dk" and H: "by_seq H" "\<forall>e \<in> set H. 0 < we_Seq e" "list_all (replayable cd V) H"
    and sub: "set (all_entries cd dk) \<subseteq> set H" and dir: "sc_StateDir cfg \<noteq> ''''"
  obtains s' dk' w where "ws_New cd cfg dk = Inr (s', dk')" "view s' = fold (apply_entry cd) (on_disk cd dk H) empty_view" "mem_ok cd V s'"
    "wal_ok cd V dk'" "mset (all_entries cd dk') = mset (all_entries cd dk)" "dk_checkpoints dk' = dk_checkpoints dk"
    "\<forall>e \<in> set (on_disk cd dk H). we_Seq e < ws_nextSeq s'" "checkpoint_seq cd dk < ws_nextSeq s'" "ws_wal s' = Some w" "ww_activeFile w" "ws_cfg s' = cfg"
proof -
  obtain w dk' where o: "newWALWriter dk = (w, dk')" by (rule prod.exhaust)
  then obtain k where k: "openSegment k dk = (w, dk')" unfolding newWALWriter_def Let_def by blast
  note os = openSegment_ok [OF wal k]
  have act: "ww_activeFile w" using k by (auto simp: openSegment_def)
  have cp: "checkpoint_seq cd dk' = checkpoint_seq cd dk" by (rule checkpoint_seq_cong [OF os(3)])
  have ck': "ckpt_ok cd V H dk'" using ck ckpt_ok_cong(1) [OF os(3)] by blast
  obtain s1 where s1: "ws_recover cd dk' ((loadCheckpoint cd dk (empty_store cfg))\<lparr>ws_wal := Some w\<rparr>) =
      Inr (fold (recover_entry cd) (ReplayEntries cd dk' (checkpoint_seq cd dk')) s1)"
    "view s1 = fold (apply_entry cd) (filter (\<lambda>e. we_Seq e \<le> checkpoint_seq cd dk') H) empty_view" "mem_ok cd V s1"
    "checkpoint_seq cd dk' < ws_nextSeq s1" "ws_wal s1 = Some w" "ws_cfg s1 = cfg"
    by (rule recover_checkpoint [OF ck' os(3) [symmetric] H(2)]) (rule that)
  have all: "set (all_entries cd dk') = set (all_entries cd dk)" by (rule mset_eq_setD [OF os(2)])
  let ?n = "checkpoint_seq cd dk"
  let ?es = "filter (\<lambda>e. ?n < we_Seq e \<and> e \<in> set (all_entries cd dk)) H"
  have re: "ReplayEntries cd dk' (checkpoint_seq cd dk') = ?es"
    using replay_history [OF os(1) H(1)] sub unfolding all cp by blast
  have d: "on_disk cd dk H = filter (\<lambda>e. we_Seq e \<le> ?n) H @ ?es" unfolding on_disk_def by (rule by_seq_split [OF H(1)])
  have rp: "list_all (replayable cd V) ?es" using H(3) by (simp add: list_all_iff)
  let ?s = "fold (recover_entry cd) ?es s1"
  note R = recover_entries [OF rp, of s1]
  show ?thesis
  proof (rule that [of ?s dk' w])
    show "ws_New cd cfg dk = Inr (?s, dk')" using dir o s1(1) unfolding re by (simp add: ws_New_def)
    show "view ?s = fold (apply_entry cd) (on_disk cd dk H) empty_view" unfolding R(1) s1(2) d cp by simp
    show "mem_ok cd V ?s" by (rule recover_entries_mem [OF rp s1(3)])
    show "\<forall>e \<in> set (on_disk cd dk H). we_Seq e < ws_nextSeq ?s" unfolding d using R(2,3) s1(4) cp by auto
    show "?n < ws_nextSeq ?s" using R(3) s1(4) cp by simp
    show "ws_wal ?s = Some w" using R(4) s1(5) by simp
    show "ws_cfg ?s = cfg" using s1(6) by (simp add: recover_entries_cfg)
  qed (use os act in simp_all)
qed


subsection \<open>Mutations, compaction and crashes interleaved\<close>

text \<open>
  A running store with its state directory. \<open>sy_pend\<close> are the entries of mutations that have changed the memory and have not been appended yet,
  \<open>sy_stage\<close> is how far \<open>compact\<close> has come (one at a time, under \<open>compactMu\<close>) and \<open>sy_hist\<close> the entries of all mutations, in the order of the lock of the store.
\<close>

datatype 'd stage = Idle | Snapped "'d compactedSnapshot" | Written "'d compactedSnapshot" string | Checked nat string | Deleted string

record ('j, 'd) sys =
  sy_store :: "('j, 'd) WsStore"
  sy_disk :: disk
  sy_pend :: "'d WALEntry list"
  sy_stage :: "'d stage"
  sy_hist :: "'d WALEntry list"

text \<open>What a crash keeps: the entries that were appended, and those a checkpoint covers.\<close>

definition durable :: "('j, 'd) ws_codec \<Rightarrow> ('j, 'd) sys \<Rightarrow> 'd WALEntry list" where
  "durable cd \<sigma> = filter (\<lambda>e. we_Seq e \<le> checkpoint_seq cd (sy_disk \<sigma>) \<or> e \<notin> set (sy_pend \<sigma>)) (sy_hist \<sigma>)"

inductive ws_step :: "('j, 'd) ws_codec \<Rightarrow> ('j, 'd) ws_valid \<Rightarrow> StoreConfig \<Rightarrow> ('j, 'd) sys \<Rightarrow> ('j, 'd) sys \<Rightarrow> bool" for cd V cfg where
  step_begin: "begin_part cd now p (sy_store \<sigma>) = Inr (e, s') \<Longrightarrow> valid_payload V p \<Longrightarrow> good_entry cd V e \<Longrightarrow>
    ws_step cd V cfg \<sigma> (\<sigma>\<lparr>sy_store := s', sy_pend := sy_pend \<sigma> @ [e], sy_hist := sy_hist \<sigma> @ [e]\<rparr>)"
| step_append: "e \<in> set (sy_pend \<sigma>) \<Longrightarrow> append_part cd WriteOk e (sy_store \<sigma>, sy_disk \<sigma>) = (None, s', dk') \<Longrightarrow>
    ws_step cd V cfg \<sigma> (\<sigma>\<lparr>sy_store := s', sy_disk := dk', sy_pend := removeAll e (sy_pend \<sigma>)\<rparr>)"
| step_snap: "sy_stage \<sigma> = Idle \<Longrightarrow> compact_begin cd now (sy_store \<sigma>) (sy_disk \<sigma>) = Some sn \<Longrightarrow> ws_step cd V cfg \<sigma> (\<sigma>\<lparr>sy_stage := Snapped sn\<rparr>)"
| step_write: "sy_stage \<sigma> = Snapped sn \<Longrightarrow> writeSnapshot cd sn (sy_disk \<sigma>) = Inr (f, dk') \<Longrightarrow>
    ws_step cd V cfg \<sigma> (\<sigma>\<lparr>sy_disk := dk', sy_stage := Written sn f\<rparr>)"
| step_check: "sy_stage \<sigma> = Written sn f \<Longrightarrow> write_checkpoint cd (sn_CheckpointSeq sn) f (sy_disk \<sigma>) = Inr dk' \<Longrightarrow>
    ws_step cd V cfg \<sigma> (\<sigma>\<lparr>sy_disk := dk', sy_stage := Checked (sn_CheckpointSeq sn) f\<rparr>)"
| step_delete: "sy_stage \<sigma> = Checked n f \<Longrightarrow> ws_wal (sy_store \<sigma>) = Some w \<Longrightarrow>
    ws_step cd V cfg \<sigma> (\<sigma>\<lparr>sy_disk := DeleteSegmentsBelow cd w n (sy_disk \<sigma>), sy_stage := Deleted f\<rparr>)"
| step_clean: "sy_stage \<sigma> = Deleted f \<Longrightarrow> ws_step cd V cfg \<sigma> (\<sigma>\<lparr>sy_disk := cleanupOldSnapshots f (sy_disk \<sigma>), sy_stage := Idle\<rparr>)"
| step_crash: "ws_New cd cfg (sy_disk \<sigma>) = Inr (s', dk') \<Longrightarrow>
    ws_step cd V cfg \<sigma> \<lparr>sy_store = s', sy_disk = dk', sy_pend = [], sy_stage = Idle, sy_hist = durable cd \<sigma>\<rparr>"

inductive ws_reach :: "('j, 'd) ws_codec \<Rightarrow> ('j, 'd) ws_valid \<Rightarrow> StoreConfig \<Rightarrow> ('j, 'd) sys \<Rightarrow> bool" for cd V cfg where
  reach_init: "ws_New cd cfg \<lparr>dk_segments = [], dk_checkpoints = []\<rparr> = Inr (s, dk) \<Longrightarrow>
    ws_reach cd V cfg \<lparr>sy_store = s, sy_disk = dk, sy_pend = [], sy_stage = Idle, sy_hist = []\<rparr>"
| reach_step: "ws_reach cd V cfg \<sigma> \<Longrightarrow> ws_step cd V cfg \<sigma> \<sigma>' \<Longrightarrow> ws_reach cd V cfg \<sigma>'"

subsection \<open>The invariant\<close>

definition stage_ok :: "('j, 'd) ws_codec \<Rightarrow> ('j, 'd) ws_valid \<Rightarrow> ('j, 'd) sys \<Rightarrow> bool" where
  "stage_ok cd V \<sigma> =
     (let cp = checkpoint_seq cd (sy_disk \<sigma>);
          good = (\<lambda>sn. cp \<le> sn_CheckpointSeq sn \<and> sn_CheckpointSeq sn < ws_nextSeq (sy_store \<sigma>) \<and> snap_ok cd V (sy_hist \<sigma>) (sn_CheckpointSeq sn) (strip_snapshot sn) \<and>
            list_all (wv_bundle V) (sn_Bundles sn) \<and> list_all (\<lambda>a. wv_audit V (strip a)) (sn_AuditEvents sn))
      in case sy_stage \<sigma> of
        Idle \<Rightarrow> True
      | Snapped sn \<Rightarrow> good sn
      | Written sn f \<Rightarrow> good sn \<and> f = snapshot_file (sn_CheckpointSeq sn) \<and> has_snapshot cd V (sy_hist \<sigma>) (sy_disk \<sigma>) (sn_CheckpointSeq sn)
      | Checked n f \<Rightarrow> n = cp \<and> f = snapshot_file n
      | Deleted f \<Rightarrow> f = snapshot_file cp)"

definition hist_ok :: "('j, 'd) ws_codec \<Rightarrow> ('j, 'd) ws_valid \<Rightarrow> ('j, 'd) WsStore \<Rightarrow> 'd WALEntry list \<Rightarrow> bool" where
  "hist_ok cd V s H \<longleftrightarrow> by_seq H \<and> (\<forall>e \<in> set H. 0 < we_Seq e \<and> we_Seq e < ws_nextSeq s \<and> good_entry cd V e) \<and> list_all (replayable cd V) H \<and>
     0 < ws_nextSeq s \<and> view s = fold (apply_entry cd) H empty_view \<and> mem_ok cd V s"

definition log_ok :: "('j, 'd) ws_codec \<Rightarrow> ('j, 'd) ws_valid \<Rightarrow> ('j, 'd) sys \<Rightarrow> bool" where
  "log_ok cd V \<sigma> \<longleftrightarrow>
     wal_ok cd V (sy_disk \<sigma>) \<and> set (all_entries cd (sy_disk \<sigma>)) \<subseteq> set (sy_hist \<sigma>) \<and> set (sy_pend \<sigma>) \<subseteq> set (sy_hist \<sigma>) \<and>
     set (sy_pend \<sigma>) \<inter> set (all_entries cd (sy_disk \<sigma>)) = {} \<and>
     (\<forall>e \<in> set (sy_hist \<sigma>). checkpoint_seq cd (sy_disk \<sigma>) < we_Seq e \<longrightarrow> e \<in> set (all_entries cd (sy_disk \<sigma>)) \<union> set (sy_pend \<sigma>))"

definition ws_inv :: "('j, 'd) ws_codec \<Rightarrow> ('j, 'd) ws_valid \<Rightarrow> ('j, 'd) sys \<Rightarrow> bool" where
  "ws_inv cd V \<sigma> \<longleftrightarrow>
     hist_ok cd V (sy_store \<sigma>) (sy_hist \<sigma>) \<and> log_ok cd V \<sigma> \<and> ckpt_ok cd V (sy_hist \<sigma>) (sy_disk \<sigma>) \<and>
     checkpoint_seq cd (sy_disk \<sigma>) < ws_nextSeq (sy_store \<sigma>) \<and> (\<exists>w. ws_wal (sy_store \<sigma>) = Some w \<and> ww_activeFile w) \<and> stage_ok cd V \<sigma>"

lemma durable_on_disk: "log_ok cd V \<sigma> \<Longrightarrow> durable cd \<sigma> = on_disk cd (sy_disk \<sigma>) (sy_hist \<sigma>)"
  unfolding durable_def on_disk_def log_ok_def by (rule filter_cong) (auto simp: not_le)

lemma by_seq_inj: "by_seq H \<Longrightarrow> a \<in> set H \<Longrightarrow> b \<in> set H \<Longrightarrow> we_Seq a = we_Seq b \<Longrightarrow> a = b"
proof -
  assume "by_seq H" "a \<in> set H" "b \<in> set H" "we_Seq a = we_Seq b"
  moreover have "distinct (map we_Seq H)"
    using \<open>by_seq H\<close> strict_sorted_iff [of "map we_Seq H"] by (simp add: by_seq_def sorted_wrt_map)
  ultimately show ?thesis by (auto simp: distinct_map dest: inj_onD)
qed

text \<open>Growing the history beyond \<open>n\<close>, or cutting it above \<open>n\<close>, keeps what a snapshot up to \<open>n\<close> means.\<close>

lemma snap_ok_hist:
  "filter (\<lambda>e. we_Seq e \<le> n) H' = filter (\<lambda>e. we_Seq e \<le> n) H \<Longrightarrow> snap_ok cd V H n sn \<Longrightarrow> snap_ok cd V H' n sn"
  by (simp add: snap_ok_def)

lemma has_snapshot_hist:
  "filter (\<lambda>e. we_Seq e \<le> n) H' = filter (\<lambda>e. we_Seq e \<le> n) H \<Longrightarrow> has_snapshot cd V H dk n \<Longrightarrow> has_snapshot cd V H' dk n"
  unfolding has_snapshot_def using snap_ok_hist by blast

lemma ckpt_ok_hist:
  assumes "filter (\<lambda>e. we_Seq e \<le> checkpoint_seq cd dk) H' = filter (\<lambda>e. we_Seq e \<le> checkpoint_seq cd dk) H" "ckpt_ok cd V H dk"
  shows "ckpt_ok cd V H' dk"
proof (cases "gm_get (dk_checkpoints dk) ''checkpoint.json''")
  case (Some data)
  then obtain n where n: "wc_uncheckpoint cd data = Some \<lparr>cp_LastCompactedSeq = n, cp_SnapshotFile = snapshot_file n\<rparr>" "has_snapshot cd V H dk n"
    using assms(2) by (auto simp: ckpt_ok_def)
  then have "checkpoint_seq cd dk = n" using Some by (simp add: checkpoint_seq_def)
  then have "has_snapshot cd V H' dk n" using assms(1) n(2) has_snapshot_hist by blast
  then show ?thesis using Some n(1) by (simp add: ckpt_ok_def)
qed (simp add: ckpt_ok_def)


lemma inv_begin:
  assumes cd: "codec_ok cd V" and inv: "ws_inv cd V \<sigma>" and b: "begin_part cd now p (sy_store \<sigma>) = Inr (e, s')" "valid_payload V p" "good_entry cd V e"
  shows "ws_inv cd V (\<sigma>\<lparr>sy_store := s', sy_pend := sy_pend \<sigma> @ [e], sy_hist := sy_hist \<sigma> @ [e]\<rparr>)"
proof -
  let ?H = "sy_hist \<sigma>" and ?s = "sy_store \<sigma>" and ?dk = "sy_disk \<sigma>"
  note B = begin_part_ok [OF cd b(2,1)]
  have I: "hist_ok cd V ?s ?H" "log_ok cd V \<sigma>" "ckpt_ok cd V ?H ?dk" "checkpoint_seq cd ?dk < ws_nextSeq ?s"
      "\<exists>w. ws_wal ?s = Some w \<and> ww_activeFile w" "stage_ok cd V \<sigma>" using inv by (simp_all add: ws_inv_def)
  have f: "filter (\<lambda>e. we_Seq e \<le> n) (?H @ [e]) = filter (\<lambda>e. we_Seq e \<le> n) ?H" if "n < ws_nextSeq ?s" for n using that B by simp
  have h: "hist_ok cd V s' (?H @ [e])" using I(1) B b(3) by (auto simp: hist_ok_def by_seq_def sorted_wrt_append)
  have "e \<notin> set ?H" using I(1) B by (auto simp: hist_ok_def)
  then have l: "log_ok cd V (\<sigma>\<lparr>sy_store := s', sy_pend := sy_pend \<sigma> @ [e], sy_hist := ?H @ [e]\<rparr>)" using I(2) by (auto simp: log_ok_def)
  have c: "ckpt_ok cd V (?H @ [e]) ?dk" by (rule ckpt_ok_hist [OF f [OF I(4)] I(3)])
  have "stage_ok cd V (\<sigma>\<lparr>sy_store := s', sy_pend := sy_pend \<sigma> @ [e], sy_hist := ?H @ [e]\<rparr>)"
    using I(6) B snap_ok_hist [OF f, where cd = cd and V = V] has_snapshot_hist [OF f, where cd = cd and V = V]
    by (cases "sy_stage \<sigma>") (simp_all add: stage_ok_def Let_def)
  then show ?thesis using h l c I(4,5) B by (simp add: ws_inv_def)
qed

lemma append_part_ok:
  assumes cd: "codec_ok cd V" and inv: "ws_inv cd V \<sigma>" and e: "e \<in> set (sy_pend \<sigma>)"
  obtains w dk' where "append_part cd WriteOk e (sy_store \<sigma>, sy_disk \<sigma>) = (None, (sy_store \<sigma>)\<lparr>ws_wal := Some w\<rparr>, dk')" "ww_activeFile w" "wal_ok cd V dk'"
    "mset (all_entries cd dk') = add_mset e (mset (all_entries cd (sy_disk \<sigma>)))" "dk_checkpoints dk' = dk_checkpoints (sy_disk \<sigma>)"
proof -
  have I: "hist_ok cd V (sy_store \<sigma>) (sy_hist \<sigma>)" "log_ok cd V \<sigma>" using inv by (simp_all add: ws_inv_def)
  obtain w0 where w0: "ws_wal (sy_store \<sigma>) = Some w0" "ww_activeFile w0" using inv by (auto simp: ws_inv_def)
  have L: "wal_ok cd V (sy_disk \<sigma>)" "e \<in> set (sy_hist \<sigma>)" "set (all_entries cd (sy_disk \<sigma>)) \<subseteq> set (sy_hist \<sigma>)" "e \<notin> set (all_entries cd (sy_disk \<sigma>))"
    using I(2) e by (auto simp: log_ok_def)
  have g: "good_entry cd V e" "by_seq (sy_hist \<sigma>)" using I(1) L(2) by (auto simp: hist_ok_def)
  have n: "we_Seq e \<notin> we_Seq ` set (all_entries cd (sy_disk \<sigma>))" using by_seq_inj [OF g(2) L(2)] L(3,4) by auto
  obtain w' dk' where a: "wal_Append cd WriteOk e (w0, sy_disk \<sigma>) = (None, w', dk')" "ww_activeFile w'" "wal_ok cd V dk'"
    "mset (all_entries cd dk') = add_mset e (mset (all_entries cd (sy_disk \<sigma>)))" "dk_checkpoints dk' = dk_checkpoints (sy_disk \<sigma>)"
    by (rule wal_Append_ok [OF cd L(1) g(1) n w0(2)]) (rule that)
  have "append_part cd WriteOk e (sy_store \<sigma>, sy_disk \<sigma>) = (None, (sy_store \<sigma>)\<lparr>ws_wal := Some w'\<rparr>, dk')" using w0(1) a(1) by (simp add: append_part_def)
  then show ?thesis by (rule that [OF _ a(2-5)])
qed

lemma stage_ok_cong:
  assumes "stage_ok cd V \<sigma>" "dk_checkpoints (sy_disk \<sigma>') = dk_checkpoints (sy_disk \<sigma>)" "ws_nextSeq (sy_store \<sigma>') = ws_nextSeq (sy_store \<sigma>)"
    "sy_hist \<sigma>' = sy_hist \<sigma>" "sy_stage \<sigma>' = sy_stage \<sigma>"
  shows "stage_ok cd V \<sigma>'"
  using assms(1) checkpoint_seq_cong [OF assms(2), of cd] ckpt_ok_cong(2) [OF assms(2), where cd = cd and V = V] assms(3-5)
  by (cases "sy_stage \<sigma>") (simp_all add: stage_ok_def Let_def)

lemma hist_ok_wal [simp]: "hist_ok cd V (s\<lparr>ws_wal := w\<rparr>) H = hist_ok cd V s H"
  by (simp add: hist_ok_def)

lemma inv_append:
  assumes cd: "codec_ok cd V" and inv: "ws_inv cd V \<sigma>" and e: "e \<in> set (sy_pend \<sigma>)"
    and a: "append_part cd WriteOk e (sy_store \<sigma>, sy_disk \<sigma>) = (None, s', dk')"
  shows "ws_inv cd V (\<sigma>\<lparr>sy_store := s', sy_disk := dk', sy_pend := removeAll e (sy_pend \<sigma>)\<rparr>)"
proof -
  obtain w dk1 where 1: "append_part cd WriteOk e (sy_store \<sigma>, sy_disk \<sigma>) = (None, (sy_store \<sigma>)\<lparr>ws_wal := Some w\<rparr>, dk1)" "ww_activeFile w" "wal_ok cd V dk1"
    "mset (all_entries cd dk1) = add_mset e (mset (all_entries cd (sy_disk \<sigma>)))" "dk_checkpoints dk1 = dk_checkpoints (sy_disk \<sigma>)"
    by (rule append_part_ok [OF cd inv e]) (rule that)
  have eq: "s' = (sy_store \<sigma>)\<lparr>ws_wal := Some w\<rparr>" "dk' = dk1" using a 1(1) by simp_all
  note w = eq(1) 1(2-5) [folded eq(2)]
  have all: "set (all_entries cd dk') = insert e (set (all_entries cd (sy_disk \<sigma>)))" using arg_cong [OF w(4), of set_mset] by simp
  note cp = checkpoint_seq_cong [OF w(5), of cd]
  have I: "hist_ok cd V (sy_store \<sigma>) (sy_hist \<sigma>)" "log_ok cd V \<sigma>" "ckpt_ok cd V (sy_hist \<sigma>) (sy_disk \<sigma>)"
      "checkpoint_seq cd (sy_disk \<sigma>) < ws_nextSeq (sy_store \<sigma>)" "stage_ok cd V \<sigma>" using inv by (simp_all add: ws_inv_def)
  have "log_ok cd V (\<sigma>\<lparr>sy_store := s', sy_disk := dk', sy_pend := removeAll e (sy_pend \<sigma>)\<rparr>)"
    using I(2) w(3) all cp e by (auto simp: log_ok_def)
  moreover have "stage_ok cd V (\<sigma>\<lparr>sy_store := s', sy_disk := dk', sy_pend := removeAll e (sy_pend \<sigma>)\<rparr>)"
    by (rule stage_ok_cong [OF I(5)]) (simp_all add: w)
  ultimately show ?thesis using I(1,3,4) w(1,2) cp ckpt_ok_cong(1) [OF w(5), of cd V "sy_hist \<sigma>"] by (simp add: ws_inv_def)
qed


lemma parse_zeros: "parse_digits 0 (replicate k CHR ''0'' @ ds) = parse_digits 0 ds"
  by (induction k) (simp_all add: char_digit_def)

lemma snapshot_file_inject: "snapshot_file m = snapshot_file n \<Longrightarrow> m = n"
proof -
  assume "snapshot_file m = snapshot_file n"
  then have "parse_digits 0 (replicate (20 - length (digits m)) CHR ''0'' @ digits m) = parse_digits 0 (replicate (20 - length (digits n)) CHR ''0'' @ digits n)"
    by (simp add: snapshot_file_def Let_def flip: append_assoc)
  then show ?thesis by (simp add: parse_zeros parse_digits_digits)
qed

lemma snapshot_file_name [simp]: "snapshot_file n \<noteq> ''checkpoint.json''" "''checkpoint.json'' \<noteq> snapshot_file n"
  by (simp_all add: snapshot_file_def Let_def)

lemma inv_snap:
  assumes cd: "codec_ok cd V" and inv: "ws_inv cd V \<sigma>" and c: "compact_begin cd now (sy_store \<sigma>) (sy_disk \<sigma>) = Some sn"
  shows "ws_inv cd V (\<sigma>\<lparr>sy_stage := Snapped sn\<rparr>)"
proof -
  let ?s = "sy_store \<sigma>" and ?H = "sy_hist \<sigma>" and ?n = "ws_nextSeq (sy_store \<sigma>) - 1"
  have sn: "sn = take_snapshot cd now ?s" "0 < ?n" using c by (auto simp: compact_begin_def split: if_splits)
  have h: "\<forall>e \<in> set ?H. we_Seq e < ws_nextSeq ?s" "view ?s = fold (apply_entry cd) ?H empty_view" "mem_ok cd V ?s"
    using inv by (simp_all add: ws_inv_def hist_ok_def)
  have "we_Seq e \<le> ?n" if "e \<in> set ?H" for e using h(1) that by fastforce
  then have "filter (\<lambda>e. we_Seq e \<le> ?n) ?H = ?H" by simp
  then have k: "snap_ok cd V ?H ?n (strip_snapshot sn)"
    using load_snapshot_ok [OF cd h(3), of now] sn(2) h(2) unfolding snap_ok_def sn(1) by (simp add: strip_snapshot_def take_snapshot_def)
  have v: "list_all (wv_bundle V) (sn_Bundles sn)" "list_all (\<lambda>a. wv_audit V (strip a)) (sn_AuditEvents sn)" "sn_CheckpointSeq sn = ?n"
    using h(3) unfolding sn(1) by (auto simp: take_snapshot_def mem_ok_def list_all_iff)
  have "checkpoint_seq cd (sy_disk \<sigma>) < ws_nextSeq ?s" using inv by (simp add: ws_inv_def)
  then have "stage_ok cd V (\<sigma>\<lparr>sy_stage := Snapped sn\<rparr>)" using k v sn(2) by (simp add: stage_ok_def Let_def)
  then show ?thesis using inv by (simp add: ws_inv_def log_ok_def)
qed

lemma inv_write:
  assumes cd: "codec_ok cd V" and inv: "ws_inv cd V \<sigma>" and st: "sy_stage \<sigma> = Snapped sn" and w: "writeSnapshot cd sn (sy_disk \<sigma>) = Inr (f, dk')"
  shows "ws_inv cd V (\<sigma>\<lparr>sy_disk := dk', sy_stage := Written sn f\<rparr>)"
proof -
  let ?H = "sy_hist \<sigma>" and ?n = "sn_CheckpointSeq sn" and ?dk = "sy_disk \<sigma>"
  have I: "hist_ok cd V (sy_store \<sigma>) ?H" "log_ok cd V \<sigma>" "ckpt_ok cd V ?H ?dk" "checkpoint_seq cd ?dk < ws_nextSeq (sy_store \<sigma>)"
      "\<exists>w. ws_wal (sy_store \<sigma>) = Some w \<and> ww_activeFile w" using inv by (simp_all add: ws_inv_def)
  have g: "checkpoint_seq cd ?dk \<le> ?n" "?n < ws_nextSeq (sy_store \<sigma>)" "snap_ok cd V ?H ?n (strip_snapshot sn)"
      "list_all (wv_bundle V) (sn_Bundles sn)" "list_all (\<lambda>a. wv_audit V (strip a)) (sn_AuditEvents sn)"
    using inv st by (simp_all add: ws_inv_def stage_ok_def Let_def)
  obtain c where c: "wc_snapshot cd sn = Inr c" "wc_unsnapshot cd c = Some (strip_snapshot sn)" using cd g(4,5) unfolding codec_ok_def by blast
  have dk': "f = snapshot_file ?n" "dk' = ?dk\<lparr>dk_checkpoints := gm_set (snapshot_file ?n) c (dk_checkpoints ?dk)\<rparr>"
    using w c(1) by (auto simp: writeSnapshot_def Let_def)
  have cp: "gm_get (dk_checkpoints dk') ''checkpoint.json'' = gm_get (dk_checkpoints ?dk) ''checkpoint.json''" by (simp add: dk'(2))
  have cps: "checkpoint_seq cd dk' = checkpoint_seq cd ?dk" unfolding checkpoint_seq_def cp ..
  have n: "has_snapshot cd V ?H dk' ?n" using c(2) g(3) by (simp add: has_snapshot_def dk'(2))
  have m: "has_snapshot cd V ?H dk' m" if "has_snapshot cd V ?H ?dk m" for m
  proof (cases "m = ?n")
    case False
    then have "snapshot_file m \<noteq> snapshot_file ?n" using snapshot_file_inject by blast
    then show ?thesis using that by (simp add: has_snapshot_def dk'(2))
  qed (use n in simp)
  have "ckpt_ok cd V ?H dk'" using I(3) m unfolding ckpt_ok_def cp by (cases "gm_get (dk_checkpoints ?dk) ''checkpoint.json''") auto
  moreover have "log_ok cd V (\<sigma>\<lparr>sy_disk := dk', sy_stage := Written sn f\<rparr>)"
  proof -
    have "dk_segments dk' = dk_segments ?dk" by (simp add: dk'(2))
    then have "all_entries cd dk' = all_entries cd ?dk" "wal_ok cd V dk' = wal_ok cd V ?dk" by (simp_all add: all_entries_def wal_ok_def)
    then show ?thesis using I(2) cps by (simp add: log_ok_def)
  qed
  moreover have "stage_ok cd V (\<sigma>\<lparr>sy_disk := dk', sy_stage := Written sn f\<rparr>)" using g n cps dk'(1) by (simp add: stage_ok_def Let_def)
  ultimately show ?thesis using I cps by (simp add: ws_inv_def)
qed

lemma inv_check:
  assumes cd: "codec_ok cd V" and inv: "ws_inv cd V \<sigma>" and st: "sy_stage \<sigma> = Written sn f"
    and w: "write_checkpoint cd (sn_CheckpointSeq sn) f (sy_disk \<sigma>) = Inr dk'"
  shows "ws_inv cd V (\<sigma>\<lparr>sy_disk := dk', sy_stage := Checked (sn_CheckpointSeq sn) f\<rparr>)"
proof -
  let ?H = "sy_hist \<sigma>" and ?n = "sn_CheckpointSeq sn" and ?dk = "sy_disk \<sigma>"
  have I: "hist_ok cd V (sy_store \<sigma>) ?H" "log_ok cd V \<sigma>" "\<exists>w. ws_wal (sy_store \<sigma>) = Some w \<and> ww_activeFile w" using inv by (simp_all add: ws_inv_def)
  have g: "checkpoint_seq cd ?dk \<le> ?n" "?n < ws_nextSeq (sy_store \<sigma>)" "f = snapshot_file ?n" "has_snapshot cd V ?H ?dk ?n"
    using inv st by (simp_all add: ws_inv_def stage_ok_def Let_def)
  obtain c where c: "wc_checkpoint cd \<lparr>cp_LastCompactedSeq = ?n, cp_SnapshotFile = snapshot_file ?n\<rparr> = Inr c"
      "wc_uncheckpoint cd c = Some \<lparr>cp_LastCompactedSeq = ?n, cp_SnapshotFile = snapshot_file ?n\<rparr>"
    using cd unfolding codec_ok_def by blast
  have dk': "dk' = ?dk\<lparr>dk_checkpoints := gm_set ''checkpoint.json'' c (dk_checkpoints ?dk)\<rparr>" using w c(1) g(3) by (simp add: write_checkpoint_def)
  have cps: "checkpoint_seq cd dk' = ?n" using c(2) by (simp add: checkpoint_seq_def dk')
  have n: "has_snapshot cd V ?H dk' ?n" using g(4) by (simp add: has_snapshot_def dk')
  then have "ckpt_ok cd V ?H dk'" using c(2) by (simp add: ckpt_ok_def dk')
  moreover have "log_ok cd V (\<sigma>\<lparr>sy_disk := dk', sy_stage := Checked ?n f\<rparr>)"
  proof -
    have "dk_segments dk' = dk_segments ?dk" by (simp add: dk')
    then have "all_entries cd dk' = all_entries cd ?dk" "wal_ok cd V dk' = wal_ok cd V ?dk" by (simp_all add: all_entries_def wal_ok_def)
    then show ?thesis using I(2) cps g(1) by (auto simp: log_ok_def)
  qed
  moreover have "stage_ok cd V (\<sigma>\<lparr>sy_disk := dk', sy_stage := Checked ?n f\<rparr>)" using g(3) cps by (simp add: stage_ok_def Let_def)
  ultimately show ?thesis using I(1,3) cps g(2) by (simp add: ws_inv_def)
qed


lemma inv_delete:
  assumes cd: "codec_ok cd V" and inv: "ws_inv cd V \<sigma>" and st: "sy_stage \<sigma> = Checked n f"
  shows "ws_inv cd V (\<sigma>\<lparr>sy_disk := DeleteSegmentsBelow cd w n (sy_disk \<sigma>), sy_stage := Deleted f\<rparr>)"
proof -
  let ?dk = "DeleteSegmentsBelow cd w n (sy_disk \<sigma>)"
  have I: "hist_ok cd V (sy_store \<sigma>) (sy_hist \<sigma>)" "log_ok cd V \<sigma>" "ckpt_ok cd V (sy_hist \<sigma>) (sy_disk \<sigma>)"
      "checkpoint_seq cd (sy_disk \<sigma>) < ws_nextSeq (sy_store \<sigma>)" "\<exists>w. ws_wal (sy_store \<sigma>) = Some w \<and> ww_activeFile w"
    using inv by (simp_all add: ws_inv_def)
  have g: "n = checkpoint_seq cd (sy_disk \<sigma>)" "f = snapshot_file n" using inv st by (simp_all add: ws_inv_def stage_ok_def Let_def)
  have ok: "wal_ok cd V (sy_disk \<sigma>)" using I(2) by (simp add: log_ok_def)
  note D = DeleteSegmentsBelow_ok [OF cd ok, where w = w and n = n]
  have cp: "checkpoint_seq cd ?dk = n" using checkpoint_seq_cong [OF D(4)] g(1) by simp
  have "log_ok cd V (\<sigma>\<lparr>sy_disk := ?dk, sy_stage := Deleted f\<rparr>)" using I(2) D(1-3) cp g(1) by (auto simp: log_ok_def)
  moreover have "ckpt_ok cd V (sy_hist \<sigma>) ?dk" using I(3) ckpt_ok_cong(1) [OF D(4), of cd V] by simp
  moreover have "stage_ok cd V (\<sigma>\<lparr>sy_disk := ?dk, sy_stage := Deleted f\<rparr>)" using g(2) cp by (simp add: stage_ok_def Let_def)
  ultimately show ?thesis using I(1,4,5) cp g(1) by (simp add: ws_inv_def)
qed

lemma gm_get_filter: "(\<And>v. P (k, v)) \<Longrightarrow> gm_get (filter P m) k = gm_get m k"
  by (induction m) auto

lemma inv_clean:
  assumes inv: "ws_inv cd V \<sigma>" and st: "sy_stage \<sigma> = Deleted f"
  shows "ws_inv cd V (\<sigma>\<lparr>sy_disk := cleanupOldSnapshots f (sy_disk \<sigma>), sy_stage := Idle\<rparr>)"
proof -
  let ?dk = "cleanupOldSnapshots f (sy_disk \<sigma>)" and ?cp = "checkpoint_seq cd (sy_disk \<sigma>)"
  have f: "f = snapshot_file ?cp" using inv st by (simp add: ws_inv_def stage_ok_def Let_def)
  have 1: "gm_get (dk_checkpoints ?dk) ''checkpoint.json'' = gm_get (dk_checkpoints (sy_disk \<sigma>)) ''checkpoint.json''"
    unfolding cleanupOldSnapshots_def by (simp add: gm_get_filter HasPrefix_def)
  have 2: "gm_get (dk_checkpoints ?dk) (snapshot_file ?cp) = gm_get (dk_checkpoints (sy_disk \<sigma>)) (snapshot_file ?cp)"
    unfolding cleanupOldSnapshots_def f by (simp add: gm_get_filter)
  have cp: "checkpoint_seq cd ?dk = ?cp" unfolding checkpoint_seq_def 1 ..
  have "ckpt_ok cd V (sy_hist \<sigma>) ?dk"
  proof (cases "gm_get (dk_checkpoints (sy_disk \<sigma>)) ''checkpoint.json''")
    case (Some data)
    then obtain n where n: "wc_uncheckpoint cd data = Some \<lparr>cp_LastCompactedSeq = n, cp_SnapshotFile = snapshot_file n\<rparr>" "has_snapshot cd V (sy_hist \<sigma>) (sy_disk \<sigma>) n"
      using inv by (auto simp: ws_inv_def ckpt_ok_def)
    have "?cp = n" using Some n(1) by (simp add: checkpoint_seq_def)
    then have "has_snapshot cd V (sy_hist \<sigma>) ?dk n" using n(2) 2 by (simp add: has_snapshot_def)
    then show ?thesis unfolding ckpt_ok_def 1 Some using n(1) by simp
  next
    case None
    then show ?thesis unfolding ckpt_ok_def 1 by simp
  qed
  moreover have "log_ok cd V (\<sigma>\<lparr>sy_disk := ?dk, sy_stage := Idle\<rparr>)"
  proof -
    have "dk_segments ?dk = dk_segments (sy_disk \<sigma>)" by (simp add: cleanupOldSnapshots_def)
    then have "all_entries cd ?dk = all_entries cd (sy_disk \<sigma>)" "wal_ok cd V ?dk = wal_ok cd V (sy_disk \<sigma>)" by (simp_all add: all_entries_def wal_ok_def)
    then show ?thesis using inv cp by (simp add: log_ok_def ws_inv_def)
  qed
  ultimately show ?thesis using inv cp by (simp add: ws_inv_def stage_ok_def Let_def)
qed

lemma inv_crash:
  assumes inv: "ws_inv cd V \<sigma>" and dir: "sc_StateDir cfg \<noteq> ''''"
  obtains s' dk' where "ws_New cd cfg (sy_disk \<sigma>) = Inr (s', dk')" "view s' = fold (apply_entry cd) (durable cd \<sigma>) empty_view"
    "ws_inv cd V \<lparr>sy_store = s', sy_disk = dk', sy_pend = [], sy_stage = Idle, sy_hist = durable cd \<sigma>\<rparr>"
proof -
  let ?H = "sy_hist \<sigma>" and ?dk = "sy_disk \<sigma>"
  have I: "hist_ok cd V (sy_store \<sigma>) ?H" "log_ok cd V \<sigma>" "ckpt_ok cd V ?H ?dk" using inv by (simp_all add: ws_inv_def)
  have h: "by_seq ?H" "\<forall>e \<in> set ?H. 0 < we_Seq e" "\<forall>e \<in> set ?H. good_entry cd V e" "list_all (replayable cd V) ?H" using I(1) by (simp_all add: hist_ok_def)
  have l: "wal_ok cd V ?dk" "set (all_entries cd ?dk) \<subseteq> set ?H" using I(2) by (simp_all add: log_ok_def)
  obtain s' dk' w where N: "ws_New cd cfg ?dk = Inr (s', dk')" "view s' = fold (apply_entry cd) (on_disk cd ?dk ?H) empty_view" "mem_ok cd V s'"
    "wal_ok cd V dk'" "mset (all_entries cd dk') = mset (all_entries cd ?dk)" "dk_checkpoints dk' = dk_checkpoints ?dk"
    "\<forall>e \<in> set (on_disk cd ?dk ?H). we_Seq e < ws_nextSeq s'" "checkpoint_seq cd ?dk < ws_nextSeq s'" "ws_wal s' = Some w" "ww_activeFile w" "ws_cfg s' = cfg"
    by (rule ws_New_ok [OF l(1) I(3) h(1,2,4) l(2) dir]) (rule that)
  let ?D = "on_disk cd ?dk ?H"
  have d: "durable cd \<sigma> = ?D" by (rule durable_on_disk [OF I(2)])
  note cp = checkpoint_seq_cong [OF N(6), of cd]
  note all = mset_eq_setD [OF N(5)]
  have sub: "set ?D \<subseteq> set ?H" by (auto simp: on_disk_def)
  have "hist_ok cd V s' ?D" using h sub N(2,3,7,8) by (auto simp: hist_ok_def on_disk_def by_seq_filter list_all_iff)
  moreover have "log_ok cd V \<lparr>sy_store = s', sy_disk = dk', sy_pend = [], sy_stage = Idle, sy_hist = ?D\<rparr>"
    using N(4) all l(2) cp by (auto simp: log_ok_def on_disk_def)
  moreover have "ckpt_ok cd V ?D dk'"
  proof -
    have "filter (\<lambda>e. we_Seq e \<le> checkpoint_seq cd ?dk) ?D = filter (\<lambda>e. we_Seq e \<le> checkpoint_seq cd ?dk) ?H"
      unfolding on_disk_def filter_filter by (rule filter_cong) auto
    from ckpt_ok_hist [OF this I(3)] show ?thesis using ckpt_ok_cong(1) [OF N(6), of cd V] by simp
  qed
  ultimately have "ws_inv cd V \<lparr>sy_store = s', sy_disk = dk', sy_pend = [], sy_stage = Idle, sy_hist = ?D\<rparr>"
    using N(8-10) cp by (simp add: ws_inv_def stage_ok_def)
  then show ?thesis using N(1,2) unfolding d [symmetric] by (intro that)
qed

lemma ws_inv_step:
  assumes "codec_ok cd V" "sc_StateDir cfg \<noteq> ''''" "ws_step cd V cfg \<sigma> \<sigma>'" "ws_inv cd V \<sigma>"
  shows "ws_inv cd V \<sigma>'"
  using assms(3)
proof cases
  case step_begin
  then show ?thesis using inv_begin [OF assms(1,4)] by blast
next
  case step_append
  then show ?thesis using inv_append [OF assms(1,4)] by blast
next
  case step_snap
  then show ?thesis using inv_snap [OF assms(1,4)] by blast
next
  case step_write
  then show ?thesis using inv_write [OF assms(1,4)] by blast
next
  case step_check
  then show ?thesis using inv_check [OF assms(1,4)] by blast
next
  case step_delete
  then show ?thesis using inv_delete [OF assms(1,4)] by blast
next
  case step_clean
  then show ?thesis using inv_clean [OF assms(4)] by blast
next
  case (step_crash s' dk')
  obtain s1 dk1 where "ws_New cd cfg (sy_disk \<sigma>) = Inr (s1, dk1)"
    "ws_inv cd V \<lparr>sy_store = s1, sy_disk = dk1, sy_pend = [], sy_stage = Idle, sy_hist = durable cd \<sigma>\<rparr>"
    by (rule inv_crash [OF assms(4,2)]) (rule that)
  then show ?thesis using step_crash by simp
qed


lemma ws_reach_inv:
  fixes cd :: "('a, 'b) ws_codec"
  assumes "codec_ok cd V" "sc_StateDir cfg \<noteq> ''''" "ws_reach cd V cfg \<sigma>"
  shows "ws_inv cd V \<sigma>"
  using assms(3)
proof induction
  case (reach_init s dk)
  let ?dk = "\<lparr>dk_segments = [], dk_checkpoints = []\<rparr>"
  have w: "wal_ok cd V ?dk" by (simp add: wal_ok_def all_entries_def)
  have ck: "ckpt_ok cd V [] ?dk" by (simp add: ckpt_ok_def)
  have h: "by_seq ([] :: 'b WALEntry list)" "\<forall>e \<in> set ([] :: 'b WALEntry list). 0 < we_Seq e" "list_all (replayable cd V) []" "set (all_entries cd ?dk) \<subseteq> set []"
    by (simp_all add: by_seq_def all_entries_def)
  obtain s' dk' w where N: "ws_New cd cfg ?dk = Inr (s', dk')" "view s' = fold (apply_entry cd) (on_disk cd ?dk []) empty_view" "mem_ok cd V s'"
    "wal_ok cd V dk'" "mset (all_entries cd dk') = mset (all_entries cd ?dk)" "dk_checkpoints dk' = dk_checkpoints ?dk"
    "\<forall>e \<in> set (on_disk cd ?dk []). we_Seq e < ws_nextSeq s'" "checkpoint_seq cd ?dk < ws_nextSeq s'" "ws_wal s' = Some w" "ww_activeFile w" "ws_cfg s' = cfg"
    by (rule ws_New_ok [OF w ck h(1-4) assms(2)]) (rule that)
  have e: "s = s'" "dk = dk'" using reach_init N(1) by simp_all
  have "all_entries cd dk' = []" using N(5) by (simp add: all_entries_def)
  then show ?case using N checkpoint_seq_cong [OF N(6), of cd] ckpt_ok_cong(1) [OF N(6), of cd V "[]"] ck
    by (simp add: e ws_inv_def hist_ok_def log_ok_def stage_ok_def by_seq_def on_disk_def)
next
  case (reach_step \<sigma> \<sigma>')
  then show ?case using ws_inv_step [OF assms(1,2)] by blast
qed

text \<open>The whole operations are runs of these steps.\<close>

lemma ws_compact_steps:
  assumes "sy_stage \<sigma> = Idle" "ws_compact cd now (sy_store \<sigma>) (sy_disk \<sigma>) = (None, dk')"
  shows "(ws_step cd V cfg)\<^sup>*\<^sup>* \<sigma> (\<sigma>\<lparr>sy_disk := dk'\<rparr>)"
proof (cases "compact_begin cd now (sy_store \<sigma>) (sy_disk \<sigma>)")
  case None
  then have "dk' = sy_disk \<sigma>" using assms(2) by (simp add: ws_compact_def)
  then show ?thesis by simp
next
  case (Some sn)
  then obtain w where w: "ws_wal (sy_store \<sigma>) = Some w" by (auto simp: compact_begin_def split: if_splits)
  obtain f dk1 dk2 where d: "writeSnapshot cd sn (sy_disk \<sigma>) = Inr (f, dk1)" "write_checkpoint cd (sn_CheckpointSeq sn) f dk1 = Inr dk2"
      "dk' = cleanupOldSnapshots f (DeleteSegmentsBelow cd w (sn_CheckpointSeq sn) dk2)"
    using assms(2) Some w by (auto simp: ws_compact_def split: sum.splits)
  let ?a = "\<sigma>\<lparr>sy_stage := Snapped sn\<rparr>" and ?b = "\<sigma>\<lparr>sy_disk := dk1, sy_stage := Written sn f\<rparr>" and ?c = "\<sigma>\<lparr>sy_disk := dk2, sy_stage := Checked (sn_CheckpointSeq sn) f\<rparr>"
  let ?d = "\<sigma>\<lparr>sy_disk := DeleteSegmentsBelow cd w (sn_CheckpointSeq sn) dk2, sy_stage := Deleted f\<rparr>"
  have "ws_step cd V cfg \<sigma> ?a" by (rule step_snap [OF assms(1) Some])
  moreover have "ws_step cd V cfg ?a ?b" using step_write [of ?a sn cd f dk1 V cfg] d(1) by simp
  moreover have "ws_step cd V cfg ?b ?c" using step_check [of ?b sn f cd dk2 V cfg] d(2) by simp
  moreover have "ws_step cd V cfg ?c ?d" using step_delete [of ?c "sn_CheckpointSeq sn" f w cd V cfg] w by simp
  moreover have "ws_step cd V cfg ?d (\<sigma>\<lparr>sy_disk := dk'\<rparr>)"
  proof -
    have "\<sigma>\<lparr>sy_disk := dk'\<rparr> = \<sigma>\<lparr>sy_disk := dk', sy_stage := Idle\<rparr>" using assms(1) by (cases \<sigma>) simp
    then show ?thesis using step_clean [of ?d f cd V cfg] d(3) by simp
  qed
  ultimately show ?thesis by (meson converse_rtranclp_into_rtranclp rtranclp.rtrancl_refl)
qed

subsection \<open>A concrete codec\<close>

text \<open>
  Jobs and raw values are numbers; an entry of the log is its sequence number in unary between two delimiters, snapshots and checkpoints are numbers in unary.
\<close>

definition ex_entry :: "nat \<Rightarrow> nat WALEntry" where
  "ex_entry n = \<lparr>we_Seq = n, we_TS = 0, we_Op = OpUpsert, we_Kind = KindJob, we_Data = 7\<rparr>"

definition ex_line :: "nat \<Rightarrow> bytes" where
  "ex_line n = 2 # replicate n 1 @ [3]"

definition ex_snapshot :: "nat compactedSnapshot \<Rightarrow> int \<times> int \<times> nat \<times> nat list \<times> nat list" where
  "ex_snapshot sn = (sn_Version sn, sn_CreatedAtUnix sn, sn_CheckpointSeq sn, sn_Jobs sn, sn_LedgerEntries sn)"

definition ex_codec :: "(nat, nat) ws_codec" where
  "ex_codec =
     \<lparr>wc_job_id = digits, wc_job = Inr, wc_unjob = Some,
      wc_bundle = (\<lambda>_. Inl ''bundle''), wc_unbundle = (\<lambda>_. None),
      wc_audit = (\<lambda>_. Inl ''audit''), wc_unaudit = (\<lambda>_. None),
      wc_entry = (\<lambda>e. Inr (ex_line (we_Seq e))),
      wc_unentry = (\<lambda>l. if l = ex_line (length l - 2) then Some (ex_entry (length l - 2)) else None),
      wc_snapshot = (\<lambda>sn. Inr (replicate (to_nat (ex_snapshot sn)) 1)),
      wc_unsnapshot = (\<lambda>c. case from_nat (length c) of
        (v, t, n, js, ls) \<Rightarrow> Some \<lparr>sn_Version = v, sn_CreatedAtUnix = t, sn_CheckpointSeq = n, sn_Jobs = js, sn_Bundles = [], sn_AuditEvents = [], sn_LedgerEntries = ls\<rparr>),
      wc_checkpoint = (\<lambda>c. Inr (replicate (cp_LastCompactedSeq c) 1)),
      wc_uncheckpoint = (\<lambda>c. Some \<lparr>cp_LastCompactedSeq = length c, cp_SnapshotFile = snapshot_file (length c)\<rparr>)\<rparr>"

definition ex_valid :: "(nat, nat) ws_valid" where
  "ex_valid = \<lparr>wv_job = (\<lambda>_. True), wv_bundle = (\<lambda>_. False), wv_audit = (\<lambda>_. False), wv_entry = (\<lambda>e. e = ex_entry (we_Seq e))\<rparr>"

lemma ex_codec_ok: "codec_ok ex_codec ex_valid"
proof -
  have s: "\<exists>c. wc_snapshot ex_codec sn = Inr c \<and> wc_unsnapshot ex_codec c = Some (strip_snapshot sn)"
    if "sn_Bundles sn = []" "sn_AuditEvents sn = []" for sn
    using that by (cases sn) (simp add: ex_codec_def ex_snapshot_def strip_snapshot_def)
  have f: "list_all (\<lambda>_. False) xs \<longleftrightarrow> xs = []" for xs :: "'x list" by (cases xs) simp_all
  have e: "\<exists>l. wc_entry ex_codec e = Inr l \<and> l \<noteq> [] \<and> 10 \<notin> set l \<and> last l \<noteq> 13 \<and> wc_unentry ex_codec l = Some e" if "e = ex_entry (we_Seq e)" for e
    using that by (intro exI [of _ "ex_line (we_Seq e)"]) (auto simp: ex_codec_def ex_line_def set_replicate_conv_if split: if_splits)
  have v: "wv_job ex_valid j" "\<not> wv_bundle ex_valid b" "\<not> wv_audit ex_valid a" "wv_entry ex_valid e = (e = ex_entry (we_Seq e))" for j b a e
    by (simp_all add: ex_valid_def)
  have l: "list_all (wv_bundle ex_valid) bs \<longleftrightarrow> bs = []" "list_all (\<lambda>a. wv_audit ex_valid (strip a)) as \<longleftrightarrow> as = []" for as bs
    by (cases bs, simp_all add: v) (cases as, simp_all add: v)
  have c: "\<exists>c. wc_checkpoint ex_codec \<lparr>cp_LastCompactedSeq = n, cp_SnapshotFile = snapshot_file n\<rparr> = Inr c \<and>
        wc_uncheckpoint ex_codec c = Some \<lparr>cp_LastCompactedSeq = n, cp_SnapshotFile = snapshot_file n\<rparr>" for n
    by (simp add: ex_codec_def)
  have j: "\<exists>d. wc_job ex_codec j = Inr d \<and> wc_unjob ex_codec d = Some j" for j by (simp add: ex_codec_def)
  show ?thesis unfolding codec_ok_def l
  proof (intro conjI allI impI)
    show "\<exists>l. wc_entry ex_codec e = Inr l \<and> l \<noteq> [] \<and> 10 \<notin> set l \<and> last l \<noteq> 13 \<and> wc_unentry ex_codec l = Some e" if "wv_entry ex_valid e" for e
      by (rule e) (use that v(4) in blast)
  qed (use v(2,3) in blast | rule j | rule c | erule (1) s)+
qed


subsection \<open>Properties\<close>


definition ex_cfg :: StoreConfig where
  "ex_cfg = DefaultStoreConfig ''/state''"

definition ex_store :: "(nat, nat) WsStore" where
  "ex_store = \<lparr>ws_cfg = ex_cfg, ws_nextSeq = 2, ws_jobs = [(''7'', 7)], ws_bundles = [], ws_auditEvents = [], ws_ledgerEntries = [],
     ws_wal = Some \<lparr>ww_activeFile = True, ww_segmentIdx = 1, ww_segmentSize = 4\<rparr>, ws_checkpoint = None, ws_closed = False\<rparr>"

definition ex_disk :: disk where
  "ex_disk = \<lparr>dk_segments = [(1, [2, 1, 3, 10])], dk_checkpoints = []\<rparr>"

lemma digits_7: "digits 7 = ''7''"
  by code_simp

lemma ex_reach: "ws_reach ex_codec ex_valid ex_cfg \<lparr>sy_store = ex_store, sy_disk = ex_disk, sy_pend = [], sy_stage = Idle, sy_hist = [ex_entry 1]\<rparr>"
proof -
  let ?s0 = "(empty_store ex_cfg)\<lparr>ws_wal := Some \<lparr>ww_activeFile = True, ww_segmentIdx = 1, ww_segmentSize = 0\<rparr>\<rparr>"
  let ?s1 = "?s0\<lparr>ws_nextSeq := 2, ws_jobs := [(''7'', 7)]\<rparr>"
  let ?dk0 = "\<lparr>dk_segments = [(1, [])], dk_checkpoints = []\<rparr>"
  let ?\<sigma>0 = "\<lparr>sy_store = ?s0, sy_disk = ?dk0, sy_pend = [], sy_stage = Idle, sy_hist = []\<rparr>"
  let ?\<sigma>1 = "\<lparr>sy_store = ?s1, sy_disk = ?dk0, sy_pend = [ex_entry 1], sy_stage = Idle, sy_hist = [ex_entry 1]\<rparr>"
  have "ws_New ex_codec ex_cfg \<lparr>dk_segments = [], dk_checkpoints = []\<rparr> = Inr (?s0, ?dk0)"
    using seg_entries_Nil [of ex_codec]
    by (simp add: ws_New_def ex_cfg_def DefaultStoreConfig_def newWALWriter_def listSegments_def sort_slice_def openSegment_def segment_def loadCheckpoint_def ws_recover_def empty_store_def
        ReplayEntries_def seg_entries_def)
  then have 0: "ws_reach ex_codec ex_valid ex_cfg ?\<sigma>0" by (rule reach_init)
  have g: "good_entry ex_codec ex_valid (ex_entry 1)"
    by (simp add: good_entry_def ex_valid_def wal_line_def ex_codec_def ex_entry_def ex_line_def maxToken_def)
  have "begin_part ex_codec 0 (PJob 7) (sy_store ?\<sigma>0) = Inr (ex_entry 1, ?s1)"
    by (simp add: job_part_def ex_codec_def new_entry_def ex_entry_def empty_store_def digits_7)
  from step_begin [OF this _ g, of ex_cfg] have 1: "ws_step ex_codec ex_valid ex_cfg ?\<sigma>0 ?\<sigma>1" by (simp add: ex_valid_def)
  have "append_part ex_codec WriteOk (ex_entry 1) (sy_store ?\<sigma>1, sy_disk ?\<sigma>1) = (None, ex_store, ex_disk)"
    by (simp add: append_part_def wal_Append_def ex_codec_def ex_entry_def ex_line_def append_bytes_def segment_def ex_store_def ex_disk_def empty_store_def Let_def)
  from step_append [OF _ this, of ex_valid ex_cfg]
  have 2: "ws_step ex_codec ex_valid ex_cfg ?\<sigma>1 \<lparr>sy_store = ex_store, sy_disk = ex_disk, sy_pend = [], sy_stage = Idle, sy_hist = [ex_entry 1]\<rparr>" by simp
  show ?thesis by (rule reach_step [OF reach_step [OF 0 1] 2])
qed



lemma scan_one:
  assumes "10 \<notin> set l" "int (length l) < maxToken"
  shows "scan_lines (l @ [10]) = ([drop_cr l], False)"
proof -
  have t: "takeWhile (\<lambda>b. b \<noteq> 10) (l @ [10]) = l" "dropWhile (\<lambda>b. b \<noteq> 10) (l @ [10]) = [10]" using assms(1) by (induction l) auto
  have n: "scan_lines [] = ([], False)" by (subst scan_lines.simps) simp
  show ?thesis by (subst scan_lines.simps) (use assms t n in simp)
qed

text \<open>C35: A torn write loses the next mutation. When a write to the log fails after some bytes of an entry, or the store crashes at that point, the next entry is appended to the
  same line: \<open>Append\<close> reports success for it, and no recovery finds it again, since the line that holds both is not a JSON value. The premises say that
  the two encodings contain no newline and fit the buffer of the scanner, and that the decoder refuses the beginning of the one followed by the other. \<close>

theorem torn_write_loses_next:
  assumes l: "wc_entry cd e = Inr l" "wc_entry cd e' = Inr l'" "10 \<notin> set l" "10 \<notin> set l'" "int (length l + length l') < maxToken"
    and n: "n \<le> length l" and bad: "wc_unentry cd (drop_cr (take n l @ l')) = None"
    and w: "w = \<lparr>ww_activeFile = True, ww_segmentIdx = 1, ww_segmentSize = 0\<rparr>" and dk: "dk = \<lparr>dk_segments = [(1, [])], dk_checkpoints = []\<rparr>"
  shows "\<exists>w1 dk1 w2 w3 dk2. wal_Append cd (WriteFails n) e (w, dk) = (Some WriteFailed, w1, dk1) \<and> wal_Append cd WriteOk e' (w1, dk1) = (None, w2, dk2) \<and>
    wal_Append cd WriteOk e' (newWALWriter dk1) = (None, w3, dk2) \<and> ReplayEntries cd dk2 0 = []"
proof -
  let ?t = "take n l" and ?dk1 = "\<lparr>dk_segments = [(1, take n l)], dk_checkpoints = []\<rparr>" and ?dk2 = "\<lparr>dk_segments = [(1, take n l @ l' @ [10])], dk_checkpoints = []\<rparr>"
  have "wal_Append cd (WriteFails n) e (w, dk) = (Some WriteFailed, w, ?dk1)"
    using l(1) n by (simp add: wal_Append_def w dk append_bytes_def segment_def Let_def)
  moreover have "wal_Append cd WriteOk e' (w, ?dk1) = (None, w\<lparr>ww_segmentSize := int (Suc (length l'))\<rparr>, ?dk2)"
    using l(2) by (simp add: wal_Append_def w append_bytes_def segment_def Let_def)
  moreover have "\<exists>w3. wal_Append cd WriteOk e' (newWALWriter ?dk1) = (None, w3, ?dk2)"
  proof -
    have o': "newWALWriter ?dk1 = (\<lparr>ww_activeFile = True, ww_segmentIdx = 1, ww_segmentSize = int (length ?t)\<rparr>, ?dk1)"
      by (simp add: newWALWriter_def listSegments_def sort_slice_def openSegment_def segment_def)
    have "int (length ?t) + int (Suc (length l')) \<le> maxSegmentSize" using l(5) by (simp add: maxToken_def maxSegmentSize_def)
    then show ?thesis unfolding o' using l(2) by (simp add: wal_Append_def append_bytes_def segment_def Let_def)
  qed
  moreover have "ReplayEntries cd ?dk2 0 = []"
  proof -
    have "10 \<notin> set (?t @ l')" "int (length (?t @ l')) < maxToken" using l(3-5) by (auto dest: in_set_takeD)
    from scan_one [OF this] have "readSegmentEntries cd (?t @ l' @ [10]) = ([], False)" using bad by (simp add: readSegmentEntries_def List.map_filter_simps)
    then show ?thesis by (simp add: ReplayEntries_def listSegments_def sort_slice_def segment_def)
  qed
  ultimately show ?thesis by blast
qed


theorem torn_write_loses_next_witness:
  "\<exists>w1 dk1 w2 dk2. wal_Append ex_codec (WriteFails 2) (ex_entry 1) (\<lparr>ww_activeFile = True, ww_segmentIdx = 1, ww_segmentSize = 0\<rparr>, \<lparr>dk_segments = [(1, [])], dk_checkpoints = []\<rparr>) =
      (Some WriteFailed, w1, dk1) \<and> wal_Append ex_codec WriteOk (ex_entry 2) (w1, dk1) = (None, w2, dk2) \<and> ReplayEntries ex_codec dk2 0 = []"
proof -
  have r: "replicate 2 x = [x, x]" "replicate 4 x = [x, x, x, x]" for x :: u8 by (simp_all add: numeral_2_eq_2 eval_nat_numeral)
  have 1: "wc_entry ex_codec (ex_entry 1) = Inr [2, 1, 3]" "wc_entry ex_codec (ex_entry 2) = Inr [2, 1, 1, 3]"
    by (simp_all add: ex_codec_def ex_entry_def ex_line_def r)
  have 2: "wc_unentry ex_codec (drop_cr (take 2 [2, 1, 3] @ [2, 1, 1, 3])) = None"
    by (simp add: ex_codec_def ex_line_def drop_cr_def r)
  have 3: "int (length [2 :: u8, 1, 3] + length [2 :: u8, 1, 1, 3]) < maxToken" by (simp add: maxToken_def)
  have 4: "10 \<notin> set [2 :: u8, 1, 3]" "10 \<notin> set [2 :: u8, 1, 1, 3]" "2 \<le> length [2 :: u8, 1, 3]" by simp_all
  show ?thesis using torn_write_loses_next [OF 1 4(1,2) 3 4(3) 2 refl refl] by blast
qed

end
