(* ===== verification/WorkspacePolicy.thy ===== *)
theory WorkspacePolicy
  imports GoUtf8
begin

section \<open>The workspace policy\<close>

text \<open>
  The rules that decide whether a workspace operation may go ahead
  (\<^verbatim>\<open>src/internal/router/workspacepolicy/policy.go\<close>). Reading the file and YAML are parameters: \<open>Parse\<close> takes what the YAML library made of
  the data. \<open>filepath.Match\<close> is \<open>path.Match\<close> on the systems the router runs on.
\<close>

definition EffectAllow :: string where "EffectAllow = ''allow''"
definition EffectDeny :: string where "EffectDeny = ''deny''"
definition ActionRefresh :: string where "ActionRefresh = ''REFRESH''"
definition ActionPublish :: string where "ActionPublish = ''PUBLISH''"
definition ActionSourcePush :: string where "ActionSourcePush = ''SOURCE_PUSH''"
definition PushModeSquash :: string where "PushModeSquash = ''squash''"
definition PushModePreserve :: string where "PushModePreserve = ''preserve''"
definition BranchStrategyDirect :: string where "BranchStrategyDirect = ''direct''"
definition BranchStrategyWorkspace :: string where "BranchStrategyWorkspace = ''workspace_branch''"
definition BranchStrategyPerRepoBranch :: string where "BranchStrategyPerRepoBranch = ''per_repo_branch''"
definition ReasonPolicyDenied :: string where "ReasonPolicyDenied = ''POLICY_DENIED''"
definition ReasonPolicyDefaultDeny :: string where "ReasonPolicyDefaultDeny = ''POLICY_DEFAULT_DENY''"
definition ReasonPolicyAllowed :: string where "ReasonPolicyAllowed = ''POLICY_ALLOWED''"
definition ReasonPolicyDefaultAllow :: string where "ReasonPolicyDefaultAllow = ''POLICY_DEFAULT_ALLOW''"

record MatchSet =
  ms_PrincipalIDs :: "string list"
  ms_WorkspaceIDs :: "string list"
  ms_LogicalBranches :: "string list"
  ms_RepositoryIDs :: "string list"
  ms_Actions :: "string list"
  ms_PushModes :: "string list"
  ms_BranchStrategies :: "string list"

record PolicyRule =
  pu_Name :: string
  pu_Match :: MatchSet
  pu_MatchNot :: MatchSet
  pu_Effect :: string
  pu_Reason :: string

record PolicyConfig =
  pc_Version :: int
  pc_Default :: string
  pc_Rules :: "PolicyRule list"

record EvaluationRequest =
  eq_PrincipalID :: string
  eq_WorkspaceID :: string
  eq_LogicalBranch :: string
  eq_RepositoryIDs :: "string list"
  eq_Action :: string
  eq_PushMode :: string
  eq_BranchStrategy :: string

record EvaluationResult =
  er_Effect :: string
  er_ReasonCode :: string
  er_Reason :: string
  er_RuleName :: string

subsection \<open>Loading\<close>

definition validActions :: "string list" where "validActions = [ActionRefresh, ActionPublish, ActionSourcePush]"
definition validPushModes :: "string list" where "validPushModes = [PushModeSquash, PushModePreserve]"
definition validBranchStrategies :: "string list" where
  "validBranchStrategies = [BranchStrategyDirect, BranchStrategyWorkspace, BranchStrategyPerRepoBranch]"
definition validEffects :: "string list" where "validEffects = [EffectAllow, EffectDeny]"

datatype policy_error =
    PathEmpty
  | ReadFailed string
  | YamlFailed string
  | UnsupportedVersion int
  | BadDefault string
  | EmptyName nat
  | BadEffect string string
  | UnknownAction string string
  | UnknownPushMode string string
  | UnknownStrategy string string

text \<open>The first value of a list that is not a valid one.\<close>

definition first_invalid :: "string list \<Rightarrow> string list \<Rightarrow> string option" where
  "first_invalid valid xs = List.find (\<lambda>x. x \<notin> set valid) xs"

definition check_set :: "string \<Rightarrow> MatchSet \<Rightarrow> policy_error option" where
  "check_set name ms =
     (case first_invalid validActions (ms_Actions ms) of
        Some a \<Rightarrow> Some (UnknownAction name a)
      | None \<Rightarrow>
          (case first_invalid validPushModes (ms_PushModes ms) of
             Some m \<Rightarrow> Some (UnknownPushMode name m)
           | None \<Rightarrow> map_option (UnknownStrategy name) (first_invalid validBranchStrategies (ms_BranchStrategies ms))))"

fun check_rules :: "nat \<Rightarrow> PolicyRule list \<Rightarrow> policy_error option" where
  "check_rules i [] = None"
| "check_rules i (rule # rules) =
     (if TrimSpace (pu_Name rule) = '''' then Some (EmptyName i)
      else if pu_Effect rule \<notin> set validEffects then Some (BadEffect (pu_Name rule) (pu_Effect rule))
      else case check_set (pu_Name rule) (pu_Match rule) of
        Some e \<Rightarrow> Some e
      | None \<Rightarrow> (case check_set (pu_Name rule) (pu_MatchNot rule) of Some e \<Rightarrow> Some e | None \<Rightarrow> check_rules (i + 1) rules))"

definition policy_Parse :: "(string, PolicyConfig) result \<Rightarrow> (policy_error, PolicyConfig) result" where
  "policy_Parse yaml =
     (case yaml of
        Inl e \<Rightarrow> Inl (YamlFailed e)
      | Inr cfg \<Rightarrow>
          if pc_Version cfg \<noteq> 1 then Inl (UnsupportedVersion (pc_Version cfg))
          else if pc_Default cfg \<notin> set validEffects then Inl (BadDefault (pc_Default cfg))
          else (case check_rules 0 (pc_Rules cfg) of Some e \<Rightarrow> Inl e | None \<Rightarrow> Inr cfg))"

definition policy_Load :: "(string \<Rightarrow> (string, bytes) result) \<Rightarrow> (bytes \<Rightarrow> (string, PolicyConfig) result) \<Rightarrow> string \<Rightarrow> (policy_error, PolicyConfig) result" where
  "policy_Load read_file yaml path =
     (if TrimSpace path = '''' then Inl PathEmpty
      else case read_file path of Inl e \<Rightarrow> Inl (ReadFailed e) | Inr data \<Rightarrow> policy_Parse (yaml data))"

subsection \<open>Evaluation\<close>

definition set_isEmpty :: "MatchSet \<Rightarrow> bool" where
  "set_isEmpty ms \<longleftrightarrow> ms_PrincipalIDs ms = [] \<and> ms_WorkspaceIDs ms = [] \<and> ms_LogicalBranches ms = [] \<and> ms_RepositoryIDs ms = [] \<and>
     ms_Actions ms = [] \<and> ms_PushModes ms = [] \<and> ms_BranchStrategies ms = []"

definition matchStringGlob :: "string list \<Rightarrow> string \<Rightarrow> bool" where
  "matchStringGlob patterns v \<longleftrightarrow> patterns = [] \<or> list_ex (\<lambda>p. path_Match p v = Some True) patterns"

definition matchAnyStringGlob :: "string list \<Rightarrow> string list \<Rightarrow> bool" where
  "matchAnyStringGlob patterns vs \<longleftrightarrow> patterns = [] \<or> list_ex (\<lambda>v. list_ex (\<lambda>p. path_Match p v = Some True) patterns) vs"

definition matchStringExact :: "string list \<Rightarrow> string \<Rightarrow> bool" where
  "matchStringExact patterns v \<longleftrightarrow> patterns = [] \<or> v \<in> set patterns"

definition matchesRule :: "MatchSet \<Rightarrow> EvaluationRequest \<Rightarrow> bool" where
  "matchesRule ms req \<longleftrightarrow>
     set_isEmpty ms \<or>
     matchStringGlob (ms_PrincipalIDs ms) (eq_PrincipalID req) \<and> matchStringGlob (ms_WorkspaceIDs ms) (eq_WorkspaceID req) \<and>
     matchStringGlob (ms_LogicalBranches ms) (eq_LogicalBranch req) \<and> matchAnyStringGlob (ms_RepositoryIDs ms) (eq_RepositoryIDs req) \<and>
     matchStringExact (ms_Actions ms) (eq_Action req) \<and> matchStringExact (ms_PushModes ms) (eq_PushMode req) \<and>
     matchStringExact (ms_BranchStrategies ms) (eq_BranchStrategy req)"

definition rule_result :: "PolicyRule \<Rightarrow> EvaluationResult" where
  "rule_result rule =
     \<lparr>er_Effect = pu_Effect rule,
      er_ReasonCode = (if pu_Reason rule = '''' then ToUpper (ReplaceAll_chr (ReplaceAll_chr (pu_Name rule) CHR '' '' CHR ''_'') CHR ''-'' CHR ''_'') else pu_Reason rule),
      er_Reason = pu_Reason rule, er_RuleName = pu_Name rule\<rparr>"

definition rule_applies :: "EvaluationRequest \<Rightarrow> PolicyRule \<Rightarrow> bool" where
  "rule_applies req rule \<longleftrightarrow> matchesRule (pu_Match rule) req \<and> \<not> (\<not> set_isEmpty (pu_MatchNot rule) \<and> matchesRule (pu_MatchNot rule) req)"

definition policy_Evaluate :: "PolicyConfig option \<Rightarrow> EvaluationRequest option \<Rightarrow> EvaluationResult" where
  "policy_Evaluate cfg req =
     (case (cfg, req) of
        (Some cfg, Some req) \<Rightarrow>
          (case List.find (rule_applies req) (pc_Rules cfg) of
             Some rule \<Rightarrow> rule_result rule
           | None \<Rightarrow>
               if pc_Default cfg = EffectDeny
               then \<lparr>er_Effect = EffectDeny, er_ReasonCode = ReasonPolicyDefaultDeny, er_Reason = ''no matching rule and default=deny'', er_RuleName = ''''\<rparr>
               else \<lparr>er_Effect = EffectAllow, er_ReasonCode = ReasonPolicyDefaultAllow, er_Reason = ''no matching rule and default=allow'', er_RuleName = ''''\<rparr>)
      | _ \<Rightarrow> \<lparr>er_Effect = EffectDeny, er_ReasonCode = ReasonPolicyDenied, er_Reason = ''invalid config or request'', er_RuleName = ''''\<rparr>)"

subsection \<open>What loading guarantees\<close>

lemma check_set_ok:
  assumes "check_set name ms = None"
  shows "set (ms_Actions ms) \<subseteq> set validActions" "set (ms_PushModes ms) \<subseteq> set validPushModes" "set (ms_BranchStrategies ms) \<subseteq> set validBranchStrategies"
  using assms by (auto simp: check_set_def first_invalid_def find_None_iff split: option.splits)

lemma check_rules_ok:
  "check_rules i rules = None \<Longrightarrow> rule \<in> set rules \<Longrightarrow>
    pu_Effect rule \<in> set validEffects \<and> check_set (pu_Name rule) (pu_Match rule) = None \<and> check_set (pu_Name rule) (pu_MatchNot rule) = None"
  by (induction i rules rule: check_rules.induct) (auto split: if_splits option.splits)

lemma policy_Parse_ok:
  assumes "policy_Parse yaml = Inr cfg" "rule \<in> set (pc_Rules cfg)"
  shows "pu_Effect rule \<in> set validEffects \<and> check_set (pu_Name rule) (pu_Match rule) = None \<and> check_set (pu_Name rule) (pu_MatchNot rule) = None"
  using assms check_rules_ok [of 0 "pc_Rules cfg" rule] by (auto simp: policy_Parse_def split: sum.splits if_splits option.splits)

lemma policy_Parse_default: "policy_Parse yaml = Inr cfg \<Longrightarrow> pc_Default cfg \<in> set validEffects"
  by (auto simp: policy_Parse_def split: sum.splits if_splits option.splits)

text \<open>A policy that was loaded always answers allow or deny.\<close>

lemma Evaluate_effect:
  assumes "policy_Parse yaml = Inr cfg"
  shows "er_Effect (policy_Evaluate (Some cfg) req) \<in> set validEffects"
proof (cases req)
  case (Some r)
  show ?thesis
  proof (cases "List.find (rule_applies r) (pc_Rules cfg)")
    case rule: (Some rule)
    then have "rule \<in> set (pc_Rules cfg)" by (auto simp: find_Some_iff)
    from policy_Parse_ok [OF assms this] show ?thesis using Some rule by (simp add: policy_Evaluate_def rule_result_def)
  qed (simp add: policy_Evaluate_def validEffects_def Some)
qed (simp add: policy_Evaluate_def validEffects_def)

text \<open>
  A request whose branch strategy is empty is decided without the rules that name a branch strategy, and without the exceptions that do.
\<close>

definition names_strategy :: "PolicyRule \<Rightarrow> bool" where
  "names_strategy rule \<longleftrightarrow> ms_BranchStrategies (pu_Match rule) \<noteq> []"

lemma strategy_never_matches:
  assumes "check_set name ms = None" "ms_BranchStrategies ms \<noteq> []" "eq_BranchStrategy req = ''''"
  shows "\<not> matchesRule ms req"
proof -
  have "'''' \<notin> set validBranchStrategies"
    by (simp add: validBranchStrategies_def BranchStrategyDirect_def BranchStrategyWorkspace_def BranchStrategyPerRepoBranch_def)
  then have "'''' \<notin> set (ms_BranchStrategies ms)" using check_set_ok(3) [OF assms(1)] by blast
  then show ?thesis using assms(2,3) by (simp add: matchesRule_def set_isEmpty_def matchStringExact_def)
qed

lemma find_filter: "(\<And>x. x \<in> set xs \<Longrightarrow> \<not> Q x \<Longrightarrow> \<not> P x) \<Longrightarrow> List.find P (filter Q xs) = List.find P xs"
  by (induction xs) auto

lemma Evaluate_without_strategy:
  assumes "policy_Parse yaml = Inr cfg" "eq_BranchStrategy req = ''''"
  shows "policy_Evaluate (Some cfg) (Some req) = policy_Evaluate (Some (cfg\<lparr>pc_Rules := filter (\<lambda>rule. \<not> names_strategy rule) (pc_Rules cfg)\<rparr>)) (Some req)"
proof -
  have "\<not> rule_applies req rule" if "rule \<in> set (pc_Rules cfg)" "\<not> \<not> names_strategy rule" for rule
    using that strategy_never_matches [of "pu_Name rule" "pu_Match rule" req] policy_Parse_ok [OF assms(1) that(1)] assms(2)
    by (auto simp: rule_applies_def names_strategy_def)
  then have "List.find (rule_applies req) (filter (\<lambda>rule. \<not> names_strategy rule) (pc_Rules cfg)) = List.find (rule_applies req) (pc_Rules cfg)"
    by (rule find_filter)
  then show ?thesis by (simp add: policy_Evaluate_def)
qed

end
