(* ===== verification/WorkspaceSync.thy ===== *)
theory WorkspaceSync
  imports OwnershipGate WorkspaceStore WorkspacePolicy
begin

section \<open>Workspace jobs: refresh, publish and source push\<close>

text \<open>
  The handlers of the router that bring a workspace up to date with its repositories and push its changes
  (\<^verbatim>\<open>src/internal/router/workspace_sync.go\<close>, \<^verbatim>\<open>workspace_publish.go\<close>, \<^verbatim>\<open>workspace_source_push.go\<close>, \<^verbatim>\<open>workspace_pr.go\<close>), over the durable
  store of the jobs and behind the workspace policy and the ownership gate.

  A handler runs for long and other handlers run in between, a cancellation of its job above all. The state of the router is a value that the handler changes in
  atomic sections; before each of them the environment acts on the state, \<open>en_others\<close>. The calls a handler makes to the fetcher, to ingestion, search, the
  forge and the ledger are recorded in the state, and their results are given by the environment, as are the time, the outcome of writes to the log of
  the store, and the failures of the stream to the client. Metrics and logging are left out. Job and bundle identifiers, \<open>UnixNano\<close> with a prefix, are arguments; a count of repositories stays below \<open>2\<^sup>3\<^sup>1\<close>.
\<close>

subsection \<open>Messages\<close>

datatype SyncAction = SyncUnspecified | SyncRefresh | SyncPublish | SyncSourcePush

datatype SourcePushMode = PushUnspecified | PushSquash | PushPreserve

datatype SyncState = StUnspecified | StQueued | StRunning | StSucceeded | StFailed | StCancelled

datatype SyncEventType =
    EvJobAccepted | EvJobStarted | EvRepositoryCompleted | EvRepositoryConflicted | EvRepositoryFailed
  | EvReingestStarted | EvReingestCompleted | EvJobCompleted

datatype RepoStatus =
    RsUnspecified | RsUnchanged | RsRefreshRequired | RsRefreshed | RsConflict | RsFailed | RsCancelled | RsPublished | RsRolledBack

datatype RepoSyncStatus =
    RyUnspecified | RyUnchanged | RyAdvanced | RyDiverged | RyMissingBranch | RyAuthFailed | RyTransientError | RyFailed | RyPublished | RyConflict | RyRolledBack

record SyncSummary =
  su_Total :: int
  su_Succeeded :: int
  su_Conflicted :: int
  su_Failed :: int
  su_Refreshed :: int
  su_Published :: int

record RepositoryResult =
  rr_StorageId :: string
  rr_DisplayPath :: string
  rr_RepoUrl :: string
  rr_Branch :: string
  rr_BaseCommit :: string
  rr_RemoteCommit :: string
  rr_Status :: RepoStatus
  rr_Message :: string
  rr_ConflictReason :: string
  rr_TargetBranch :: string
  rr_PushedCommit :: string
  rr_PullRequestUrl :: string
  rr_PullRequestCreated :: bool

record SyncJob =
  jb_JobId :: string
  jb_WorkspaceId :: string
  jb_Action :: SyncAction
  jb_State :: SyncState
  jb_RequestedByClientId :: string
  jb_CreatedAtUnix :: int
  jb_StartedAtUnix :: int
  jb_FinishedAtUnix :: int
  jb_Summary :: SyncSummary
  jb_Repositories :: "RepositoryResult list"
  jb_ErrorMessage :: string
  jb_AllowFastForwardOnly :: bool
  jb_RejectIfLocalChanges :: bool
  jb_BundleId :: string
  jb_LogicalCommitMessage :: string
  jb_LogicalBranch :: string
  jb_LocalCommitIds :: "string list"

record RepoSyncProgress =
  pg_Repository :: "WorkspaceRepositoryRef option"
  pg_Status :: RepoSyncStatus
  pg_RemoteCommit :: string
  pg_Message :: string
  pg_PushedCommit :: string
  pg_TargetBranch :: string
  pg_ConflictReason :: string

record SyncEvent =
  se_EventType :: SyncEventType
  se_Job :: "SyncJob option"
  se_Repository :: "RepositoryResult option"
  se_Message :: string

record RefreshRequest =
  rq_WorkspaceId :: string
  rq_Repositories :: "WorkspaceRepositoryRef list"
  rq_AllowFastForwardOnly :: bool
  rq_RejectIfLocalChanges :: bool

record PublishRequest =
  pq_WorkspaceId :: string
  pq_BundleId :: string
  pq_LogicalCommitMessage :: string
  pq_AuthorName :: string
  pq_AuthorEmail :: string
  pq_RequestedBranchStrategy :: string

record PushRequest =
  sq_WorkspaceId :: string
  sq_BundleId :: string
  sq_LogicalBranch :: string
  sq_SourcePushMode :: SourcePushMode

record PushOutcome =
  po_PushOutcomeId :: string
  po_JobId :: string
  po_WorkspaceId :: string
  po_RepoStorageId :: string
  po_Branch :: string
  po_PushMode :: string
  po_UpstreamCommitHash :: string
  po_LocalCommitIds :: "string list"
  po_Status :: string

text \<open>What a handler asks of the other services.\<close>

datatype call =
    CallProbe string string "WorkspaceRepositoryRef list"
  | CallStageBundle string string bytes
  | CallStartPublish string string PublishRequest
  | CallStageCommits string string bytes
  | CallStartPush string string string string string
  | CallDiscard string string
  | CallIngest string string string
  | CallReindex string string string string string
  | CallOutcome PushOutcome
  | CallCreatePR string string string string string
  | CallReviewers string string "string list"

subsection \<open>The state\<close>

text \<open>\<open>je_cancel\<close> tells whether a cancel function is set and \<open>je_done\<close> whether the context of the job is done.\<close>

record workspaceSyncJobEntry =
  je_job :: SyncJob
  je_cancel :: bool
  je_done :: bool

record stagedWorkspaceBundle =
  sb_bundleID :: string
  sb_workspaceID :: string
  sb_data :: bytes
  sb_bundle :: "WsBundle option"
  sb_commitBundle :: "SourceCommitBundle option"
  sb_createdAt :: int
  sb_expiresAt :: int

record 'd sync_router =
  wy_jobs :: "(string, workspaceSyncJobEntry) gomap"
  wy_bundles :: "string \<rightharpoonup> stagedWorkspaceBundle"
  wy_store :: "((SyncJob, 'd) WsStore \<times> disk) option"
  wy_sent :: "SyncEvent list"
  wy_calls :: "call list"
  wy_tick :: nat

text \<open>The configuration of the router, and the environment of a handler; times are in seconds.\<close>

record sync_config =
  sg_PolicyGateEnabled :: bool
  sg_policyCfg :: "PolicyConfig option"
  sg_SourcePushMode :: string
  sg_gate :: gate_router
  sg_fetcher :: bool
  sg_search :: bool

record 'd sync_env =
  en_codec :: "(SyncJob, 'd) ws_codec"
  en_others :: "nat \<Rightarrow> 'd sync_router \<Rightarrow> 'd sync_router"
  en_now :: "nat \<Rightarrow> int"
  en_write :: "nat \<Rightarrow> write_outcome"
  en_send :: "nat \<Rightarrow> string option"
  en_fails :: "nat \<Rightarrow> call \<Rightarrow> string option"
  en_progress :: "nat \<Rightarrow> call \<Rightarrow> (string, RepoSyncProgress option list) result"
  en_pr :: "nat \<Rightarrow> call \<Rightarrow> (string, string \<times> string \<times> bool) result"

datatype sync_error =
    PersistFailed string ws_error
  | SendFailed string
  | JobNotFound string
  | BundleNotFound string
  | WorkspaceMismatch string string
  | BranchMismatch string string
  | RecvFailed string
  | WorkspaceChanged
  | UploadEmpty
  | UploadInvalid string

text \<open>An atomic section begins: the environment acts, and the section gets its number.\<close>

definition tick :: "'d sync_env \<Rightarrow> 'd sync_router \<Rightarrow> nat \<times> 'd sync_router" where
  "tick env s = (wy_tick s, en_others env (wy_tick s) (s\<lparr>wy_tick := wy_tick s + 1\<rparr>))"

definition andThen :: "('s \<Rightarrow> 'e option \<times> 's) \<Rightarrow> ('s \<Rightarrow> 'e option \<times> 's) \<Rightarrow> 's \<Rightarrow> 'e option \<times> 's" where
  "andThen f g s = (case f s of (None, s) \<Rightarrow> g s | (Some e, s) \<Rightarrow> (Some e, s))"

definition snapshot :: "'d sync_router \<Rightarrow> string \<Rightarrow> SyncJob option" where
  "snapshot s jobID = map_option je_job (gm_get (wy_jobs s) jobID)"

definition send :: "'d sync_env \<Rightarrow> string \<Rightarrow> SyncEventType \<Rightarrow> RepositoryResult option \<Rightarrow> string \<Rightarrow> 'd sync_router \<Rightarrow> sync_error option \<times> 'd sync_router" where
  "send env jobID ty repo msg s =
     (case tick env s of (n, s) \<Rightarrow>
        (case en_send env n of
           Some e \<Rightarrow> (Some (SendFailed e), s)
         | None \<Rightarrow> (None, s\<lparr>wy_sent := wy_sent s @ [\<lparr>se_EventType = ty, se_Job = snapshot s jobID, se_Repository = repo, se_Message = msg\<rparr>]\<rparr>)))"

definition do_call :: "'d sync_env \<Rightarrow> call \<Rightarrow> 'd sync_router \<Rightarrow> nat \<times> 'd sync_router" where
  "do_call env c s = (case tick env s of (n, s) \<Rightarrow> (n, s\<lparr>wy_calls := wy_calls s @ [c]\<rparr>))"

subsection \<open>Jobs\<close>

definition no_summary :: SyncSummary where
  "no_summary = \<lparr>su_Total = 0, su_Succeeded = 0, su_Conflicted = 0, su_Failed = 0, su_Refreshed = 0, su_Published = 0\<rparr>"

fun summary_add :: "RepoStatus \<Rightarrow> SyncSummary \<Rightarrow> SyncSummary" where
  "summary_add RsUnchanged su = su\<lparr>su_Succeeded := su_Succeeded su + 1\<rparr>"
| "summary_add RsRefreshRequired su = su"
| "summary_add RsRefreshed su = su\<lparr>su_Succeeded := su_Succeeded su + 1, su_Refreshed := su_Refreshed su + 1\<rparr>"
| "summary_add RsPublished su = su\<lparr>su_Succeeded := su_Succeeded su + 1, su_Published := su_Published su + 1\<rparr>"
| "summary_add RsRolledBack su = su\<lparr>su_Conflicted := su_Conflicted su + 1\<rparr>"
| "summary_add RsConflict su = su\<lparr>su_Conflicted := su_Conflicted su + 1\<rparr>"
| "summary_add RsFailed su = su\<lparr>su_Failed := su_Failed su + 1\<rparr>"
| "summary_add _ su = su"

definition updateWorkspaceSyncSummary :: "SyncJob \<Rightarrow> SyncJob" where
  "updateWorkspaceSyncSummary job =
     job\<lparr>jb_Summary := fold (\<lambda>repo. summary_add (rr_Status repo)) (jb_Repositories job) (no_summary\<lparr>su_Total := int (length (jb_Repositories job))\<rparr>)\<rparr>"

definition set_job :: "string \<Rightarrow> SyncJob \<Rightarrow> 'd sync_router \<Rightarrow> 'd sync_router" where
  "set_job jobID job s =
     (case gm_get (wy_jobs s) jobID of None \<Rightarrow> s | Some en \<Rightarrow> s\<lparr>wy_jobs := gm_set jobID (en\<lparr>je_job := job\<rparr>) (wy_jobs s)\<rparr>)"

text \<open>Writing a job through to the durable store, when there is one.\<close>

definition persist :: "'d sync_env \<Rightarrow> nat \<Rightarrow> SyncJob \<Rightarrow> 'd sync_router \<Rightarrow> ws_error option \<times> 'd sync_router" where
  "persist env n job s =
     (case wy_store s of
        None \<Rightarrow> (None, s)
      | Some st \<Rightarrow> (case UpsertJob (en_codec env) (en_write env n) (en_now env n) job st of (err, st) \<Rightarrow> (err, s\<lparr>wy_store := Some st\<rparr>)))"

text \<open>An update under the lock of the entry; when the store refuses it the entry keeps its job.\<close>

definition updateWorkspaceSyncJob ::
  "'d sync_env \<Rightarrow> string \<Rightarrow> (int \<Rightarrow> SyncJob \<Rightarrow> SyncJob) \<Rightarrow> 'd sync_router \<Rightarrow> sync_error option \<times> 'd sync_router"
where
  "updateWorkspaceSyncJob env jobID update s =
     (case tick env s of (n, s) \<Rightarrow>
        (case snapshot s jobID of
           None \<Rightarrow> (None, s)
         | Some job \<Rightarrow>
             (case persist env n (update (en_now env n) job) s of
                (Some e, s) \<Rightarrow> (Some (PersistFailed (jb_JobId job) e), s)
              | (None, s) \<Rightarrow> (None, set_job jobID (update (en_now env n) job) s))))"

fun put_repo :: "RepositoryResult \<Rightarrow> RepositoryResult list \<Rightarrow> RepositoryResult list" where
  "put_repo repo [] = [repo]"
| "put_repo repo (r # rs) = (if rr_StorageId r = rr_StorageId repo then repo # rs else r # put_repo repo rs)"

definition updateWorkspaceSyncRepository :: "'d sync_env \<Rightarrow> string \<Rightarrow> RepositoryResult \<Rightarrow> 'd sync_router \<Rightarrow> sync_error option \<times> 'd sync_router" where
  "updateWorkspaceSyncRepository env jobID repo =
     updateWorkspaceSyncJob env jobID (\<lambda>_ job. updateWorkspaceSyncSummary (job\<lparr>jb_Repositories := put_repo repo (jb_Repositories job)\<rparr>))"

definition start_job :: "int \<Rightarrow> SyncJob \<Rightarrow> SyncJob" where
  "start_job now job = job\<lparr>jb_State := StRunning, jb_StartedAtUnix := now\<rparr>"

definition failed_job :: "string \<Rightarrow> int \<Rightarrow> SyncJob \<Rightarrow> SyncJob" where
  "failed_job msg now job = job\<lparr>jb_State := StFailed, jb_FinishedAtUnix := now, jb_ErrorMessage := msg\<rparr>"

definition cancelled_job :: "int \<Rightarrow> SyncJob \<Rightarrow> SyncJob" where
  "cancelled_job now job = job\<lparr>jb_State := StCancelled, jb_FinishedAtUnix := now, jb_ErrorMessage := ''cancelled''\<rparr>"

definition finished_job :: "int \<Rightarrow> SyncJob \<Rightarrow> SyncJob" where
  "finished_job now job =
     (let job = updateWorkspaceSyncSummary (job\<lparr>jb_FinishedAtUnix := now\<rparr>) in
      if su_Failed (jb_Summary job) > 0 \<or> su_Conflicted (jb_Summary job) > 0 then job\<lparr>jb_State := StFailed\<rparr> else job\<lparr>jb_State := StSucceeded\<rparr>)"

definition failWorkspaceSyncJob where "failWorkspaceSyncJob env jobID msg = updateWorkspaceSyncJob env jobID (failed_job msg)"
definition cancelWorkspaceSyncJob where "cancelWorkspaceSyncJob env jobID = updateWorkspaceSyncJob env jobID cancelled_job"
definition finalizeWorkspaceSyncJob where "finalizeWorkspaceSyncJob env jobID = updateWorkspaceSyncJob env jobID finished_job"

definition storeWorkspaceSyncJob :: "'d sync_env \<Rightarrow> SyncJob \<Rightarrow> 'd sync_router \<Rightarrow> sync_error option \<times> 'd sync_router" where
  "storeWorkspaceSyncJob env job s =
     (case tick env s of (n, s) \<Rightarrow>
        (case persist env n job s of
           (Some e, s) \<Rightarrow> (Some (PersistFailed (jb_JobId job) e), s)
         | (None, s) \<Rightarrow> (None, s\<lparr>wy_jobs := gm_set (jb_JobId job) \<lparr>je_job = job, je_cancel = False, je_done = False\<rparr> (wy_jobs s)\<rparr>)))"

definition GetWorkspaceSyncJob :: "'d sync_router \<Rightarrow> string \<Rightarrow> (sync_error, SyncJob) result" where
  "GetWorkspaceSyncJob s jobID = (case snapshot s jobID of None \<Rightarrow> Inl (JobNotFound jobID) | Some job \<Rightarrow> Inr job)"

definition listWorkspaceSyncJobs :: "'d sync_router \<Rightarrow> SyncAction \<Rightarrow> SyncState \<Rightarrow> int \<Rightarrow> SyncJob list" where
  "listWorkspaceSyncJobs s action st limit =
     (let jobs = filter (\<lambda>job. \<not> (action \<noteq> SyncUnspecified \<and> jb_Action job \<noteq> action) \<and> \<not> (st \<noteq> StUnspecified \<and> jb_State job \<noteq> st)) (map (je_job \<circ> snd) (wy_jobs s));
          jobs = sort_slice (\<lambda>a b. jb_CreatedAtUnix a > jb_CreatedAtUnix b) jobs
      in if limit > 0 \<and> int (length jobs) > limit then take (nat limit) jobs else jobs)"

text \<open>The context of a job: the cancel function is set, and called when the handler returns.\<close>

definition set_cancel :: "'d sync_env \<Rightarrow> string \<Rightarrow> 'd sync_router \<Rightarrow> 'd sync_router" where
  "set_cancel env jobID s =
     (case tick env s of (n, s) \<Rightarrow>
        (case gm_get (wy_jobs s) jobID of None \<Rightarrow> s | Some en \<Rightarrow> s\<lparr>wy_jobs := gm_set jobID (en\<lparr>je_cancel := True, je_done := False\<rparr>) (wy_jobs s)\<rparr>))"

definition call_cancel :: "string \<Rightarrow> 'd sync_router \<Rightarrow> 'd sync_router" where
  "call_cancel jobID s = (case gm_get (wy_jobs s) jobID of None \<Rightarrow> s | Some en \<Rightarrow> s\<lparr>wy_jobs := gm_set jobID (en\<lparr>je_done := True\<rparr>) (wy_jobs s)\<rparr>)"

definition is_done :: "'d sync_env \<Rightarrow> string \<Rightarrow> 'd sync_router \<Rightarrow> bool \<times> 'd sync_router" where
  "is_done env jobID s =
     (case tick env s of (n, s) \<Rightarrow> (case gm_get (wy_jobs s) jobID of None \<Rightarrow> False | Some en \<Rightarrow> je_done en, s))"

definition terminal :: "SyncState \<Rightarrow> bool" where
  "terminal st \<longleftrightarrow> st \<in> {StSucceeded, StFailed, StCancelled}"

text \<open>\<open>CancelWorkspaceSyncJob\<close>: the section under the lock of the entry and then the call of the cancel function the entry had.\<close>

definition CancelWorkspaceSyncJob :: "'d sync_env \<Rightarrow> string \<Rightarrow> 'd sync_router \<Rightarrow> (sync_error, bool \<times> string) result \<times> 'd sync_router" where
  "CancelWorkspaceSyncJob env jobID s =
     (case tick env s of (n, s) \<Rightarrow>
        (case gm_get (wy_jobs s) jobID of
           None \<Rightarrow> (Inr (False, ''job not found''), s)
         | Some en \<Rightarrow>
             if terminal (jb_State (je_job en)) then (Inr (False, ''job already finished''), s)
             else
               (case persist env n (cancelled_job (en_now env n) (je_job en)) s of
                  (Some e, s) \<Rightarrow> (Inl (PersistFailed jobID e), s)
                | (None, s) \<Rightarrow>
                    (case tick env (set_job jobID (cancelled_job (en_now env n) (je_job en)) s) of
                       (_, s) \<Rightarrow> (Inr (True, ''job cancelled''), if je_cancel en then call_cancel jobID s else s)))))"


subsection \<open>Results of repositories\<close>

definition empty_result :: RepositoryResult where
  "empty_result = \<lparr>rr_StorageId = '''', rr_DisplayPath = '''', rr_RepoUrl = '''', rr_Branch = '''', rr_BaseCommit = '''', rr_RemoteCommit = '''',
     rr_Status = RsUnspecified, rr_Message = '''', rr_ConflictReason = '''', rr_TargetBranch = '''', rr_PushedCommit = '''', rr_PullRequestUrl = '''',
     rr_PullRequestCreated = False\<rparr>"

text \<open>The name of a status without its prefix, in lower case.\<close>

fun status_reason :: "RepoSyncStatus \<Rightarrow> string" where
  "status_reason RyUnspecified = ''unspecified''"
| "status_reason RyUnchanged = ''unchanged''"
| "status_reason RyAdvanced = ''advanced''"
| "status_reason RyDiverged = ''diverged''"
| "status_reason RyMissingBranch = ''missing_branch''"
| "status_reason RyAuthFailed = ''auth_failed''"
| "status_reason RyTransientError = ''transient_error''"
| "status_reason RyFailed = ''failed''"
| "status_reason RyPublished = ''published''"
| "status_reason RyConflict = ''conflict''"
| "status_reason RyRolledBack = ''rolled_back''"

definition of_ref :: "WorkspaceRepositoryRef \<Rightarrow> RepositoryResult" where
  "of_ref repo = empty_result\<lparr>rr_StorageId := wr_StorageId repo, rr_DisplayPath := wr_DisplayPath repo, rr_RepoUrl := wr_RepoUrl repo,
     rr_Branch := wr_Branch repo, rr_BaseCommit := wr_BaseCommit repo\<rparr>"

definition workspaceRepositoryResultFromProbe :: "RepoSyncProgress option \<Rightarrow> RepositoryResult" where
  "workspaceRepositoryResultFromProbe progress =
     (case progress of
        None \<Rightarrow> empty_result\<lparr>rr_Status := RsFailed, rr_Message := ''invalid probe result''\<rparr>
      | Some p \<Rightarrow>
          (case pg_Repository p of
             None \<Rightarrow> empty_result\<lparr>rr_Status := RsFailed, rr_Message := ''invalid probe result''\<rparr>
           | Some repo \<Rightarrow>
               let r = (of_ref repo)\<lparr>rr_RemoteCommit := pg_RemoteCommit p, rr_Message := pg_Message p\<rparr> in
               (case pg_Status p of
                  RyUnchanged \<Rightarrow> r\<lparr>rr_Status := RsUnchanged\<rparr>
                | RyAdvanced \<Rightarrow> r\<lparr>rr_Status := RsRefreshRequired\<rparr>
                | RyDiverged \<Rightarrow> r\<lparr>rr_Status := RsConflict, rr_ConflictReason := status_reason RyDiverged\<rparr>
                | RyMissingBranch \<Rightarrow> r\<lparr>rr_Status := RsConflict, rr_ConflictReason := status_reason RyMissingBranch\<rparr>
                | _ \<Rightarrow> r\<lparr>rr_Status := RsFailed\<rparr>)))"

definition published_status :: "RepoSyncStatus \<Rightarrow> RepoStatus" where
  "published_status st =
     (case st of
        RyUnchanged \<Rightarrow> RsUnchanged
      | RyPublished \<Rightarrow> RsPublished
      | RyRolledBack \<Rightarrow> RsRolledBack
      | RyConflict \<Rightarrow> RsConflict
      | RyDiverged \<Rightarrow> RsConflict
      | RyMissingBranch \<Rightarrow> RsConflict
      | _ \<Rightarrow> RsFailed)"

definition workspaceRepositoryResultFromPublish :: "RepoSyncProgress option \<Rightarrow> RepositoryResult" where
  "workspaceRepositoryResultFromPublish progress =
     (case progress of
        None \<Rightarrow> empty_result\<lparr>rr_Status := RsFailed, rr_Message := ''invalid publish result''\<rparr>
      | Some p \<Rightarrow>
          (case pg_Repository p of
             None \<Rightarrow> empty_result\<lparr>rr_Status := RsFailed, rr_Message := ''invalid publish result''\<rparr>
           | Some repo \<Rightarrow>
               (of_ref repo)\<lparr>rr_RemoteCommit := pg_RemoteCommit p, rr_Message := pg_Message p, rr_PushedCommit := pg_PushedCommit p,
                 rr_Status := published_status (pg_Status p),
                 rr_ConflictReason := (if published_status (pg_Status p) = RsConflict \<and> pg_ConflictReason p = '''' then status_reason (pg_Status p) else pg_ConflictReason p),
                 rr_TargetBranch := (if pg_TargetBranch p = '''' then wr_Branch repo else pg_TargetBranch p)\<rparr>))"

definition workspaceEventTypeForRepository :: "RepositoryResult \<Rightarrow> SyncEventType" where
  "workspaceEventTypeForRepository repo =
     (case rr_Status repo of
        RsUnchanged \<Rightarrow> EvRepositoryCompleted
      | RsRefreshRequired \<Rightarrow> EvRepositoryCompleted
      | RsRefreshed \<Rightarrow> EvRepositoryCompleted
      | RsPublished \<Rightarrow> EvRepositoryCompleted
      | RsRolledBack \<Rightarrow> EvRepositoryCompleted
      | RsConflict \<Rightarrow> EvRepositoryConflicted
      | _ \<Rightarrow> EvRepositoryFailed)"

subsection \<open>Refresh\<close>

definition empty_job :: SyncJob where
  "empty_job = \<lparr>jb_JobId = '''', jb_WorkspaceId = '''', jb_Action = SyncUnspecified, jb_State = StUnspecified, jb_RequestedByClientId = '''',
     jb_CreatedAtUnix = 0, jb_StartedAtUnix = 0, jb_FinishedAtUnix = 0, jb_Summary = no_summary, jb_Repositories = [], jb_ErrorMessage = '''',
     jb_AllowFastForwardOnly = False, jb_RejectIfLocalChanges = False, jb_BundleId = '''', jb_LogicalCommitMessage = '''', jb_LogicalBranch = '''',
     jb_LocalCommitIds = []\<rparr>"

definition newWorkspaceSyncJob :: "string \<Rightarrow> int \<Rightarrow> RefreshRequest \<Rightarrow> string \<Rightarrow> SyncJob" where
  "newWorkspaceSyncJob jobID now req clientID =
     empty_job\<lparr>jb_JobId := jobID, jb_WorkspaceId := rq_WorkspaceId req, jb_Action := SyncRefresh, jb_State := StQueued, jb_RequestedByClientId := clientID,
       jb_CreatedAtUnix := now, jb_Summary := no_summary\<lparr>su_Total := int (length (rq_Repositories req))\<rparr>,
       jb_RejectIfLocalChanges := rq_RejectIfLocalChanges req, jb_AllowFastForwardOnly := rq_AllowFastForwardOnly req\<rparr>"

definition reingest :: "'d sync_env \<Rightarrow> string \<Rightarrow> RepositoryResult \<Rightarrow> 'd sync_router \<Rightarrow> sync_error option \<times> 'd sync_router" where
  "reingest env jobID repo s =
     (let c = CallIngest (rr_RepoUrl repo) (rr_Branch repo) (rr_DisplayPath repo) in
      case do_call env c s of (n, s) \<Rightarrow>
        (case en_fails env n c of
           Some e \<Rightarrow>
             let repo = repo\<lparr>rr_Status := RsFailed, rr_Message := e\<rparr> in
             andThen (updateWorkspaceSyncRepository env jobID repo) (send env jobID EvRepositoryFailed (Some repo) (rr_Message repo)) s
         | None \<Rightarrow>
             let repo = repo\<lparr>rr_Status := RsRefreshed, rr_Message := ''repository refreshed''\<rparr> in
             andThen (updateWorkspaceSyncRepository env jobID repo) (send env jobID EvReingestCompleted (Some repo) (rr_Message repo)) s))"

definition refresh_one :: "'d sync_env \<Rightarrow> string \<Rightarrow> RepositoryResult \<Rightarrow> 'd sync_router \<Rightarrow> sync_error option \<times> 'd sync_router" where
  "refresh_one env jobID repo =
     andThen (updateWorkspaceSyncRepository env jobID repo)
       (andThen (send env jobID (workspaceEventTypeForRepository repo) (Some repo) (rr_Message repo))
          (\<lambda>s. if rr_Status repo \<noteq> RsRefreshRequired then (None, s)
            else andThen (send env jobID EvReingestStarted (Some repo) ''starting repository re-ingestion'') (reingest env jobID repo) s))"

fun refresh_loop :: "'d sync_env \<Rightarrow> string \<Rightarrow> RepoSyncProgress option list \<Rightarrow> 'd sync_router \<Rightarrow> sync_error option \<times> 'd sync_router" where
  "refresh_loop env jobID [] = andThen (finalizeWorkspaceSyncJob env jobID) (send env jobID EvJobCompleted None ''workspace refresh job completed'')"
| "refresh_loop env jobID (result # results) =
     (\<lambda>s. case is_done env jobID s of (isDone, s) \<Rightarrow>
        if isDone then cancelWorkspaceSyncJob env jobID s
        else andThen (refresh_one env jobID (workspaceRepositoryResultFromProbe result)) (refresh_loop env jobID results) s)"

definition runWorkspaceRefreshJob :: "sync_config \<Rightarrow> 'd sync_env \<Rightarrow> string \<Rightarrow> RefreshRequest \<Rightarrow> 'd sync_router \<Rightarrow> sync_error option \<times> 'd sync_router" where
  "runWorkspaceRefreshJob cfg env jobID req =
     andThen (updateWorkspaceSyncJob env jobID start_job)
       (andThen (send env jobID EvJobStarted None ''workspace refresh job started'')
          (\<lambda>s. if \<not> sg_fetcher cfg then failWorkspaceSyncJob env jobID ''fetcher cluster not configured'' s
            else
              let c = CallProbe jobID (rq_WorkspaceId req) (rq_Repositories req) in
              case do_call env c s of (n, s) \<Rightarrow>
                (case en_progress env n c of
                   Inl e \<Rightarrow> failWorkspaceSyncJob env jobID e s
                 | Inr results \<Rightarrow> refresh_loop env jobID results s)))"

text \<open>The last part of a handler: its job is stored, announced and run, and its context is cancelled on return.\<close>

definition run_job ::
  "'d sync_env \<Rightarrow> SyncJob \<Rightarrow> string \<Rightarrow> ('d sync_router \<Rightarrow> sync_error option \<times> 'd sync_router) \<Rightarrow> 'd sync_router \<Rightarrow> sync_error option \<times> 'd sync_router"
where
  "run_job env job msg run =
     andThen (storeWorkspaceSyncJob env job)
       (andThen (send env (jb_JobId job) EvJobAccepted None msg)
          (\<lambda>s. case run (set_cancel env (jb_JobId job) s) of (err, s) \<Rightarrow> (err, call_cancel (jb_JobId job) s)))"

definition RefreshWorkspace ::
  "sync_config \<Rightarrow> 'd sync_env \<Rightarrow> string \<Rightarrow> string \<Rightarrow> RefreshRequest \<Rightarrow> 'd sync_router \<Rightarrow> sync_error option \<times> 'd sync_router"
where
  "RefreshWorkspace cfg env jobID clientID req s =
     run_job env (newWorkspaceSyncJob jobID (en_now env (wy_tick s)) req clientID) ''workspace refresh job accepted''
       (runWorkspaceRefreshJob cfg env jobID req) s"

subsection \<open>Bundles\<close>

definition workspaceBundleTTL :: int where "workspaceBundleTTL = 30 * 60"

text \<open>The chunks of an upload as the stream gives them: data up to the end or an error.\<close>

datatype chunk = Chunk string bytes | RecvError string

fun recv_chunks :: "string \<Rightarrow> bytes \<Rightarrow> chunk list \<Rightarrow> (sync_error, string \<times> bytes) result" where
  "recv_chunks ws buf [] = Inr (ws, buf)"
| "recv_chunks ws buf (RecvError e # cs) = Inl (RecvFailed e)"
| "recv_chunks ws buf (Chunk w data # cs) =
     (if w \<noteq> '''' then (if ws \<noteq> '''' \<and> ws \<noteq> w then Inl WorkspaceChanged else recv_chunks w (buf @ data) cs)
      else recv_chunks ws (buf @ data) cs)"

definition bundle_meta :: "stagedWorkspaceBundle \<Rightarrow> BundleMetadata" where
  "bundle_meta entry =
     \<lparr>bm_BundleID = sb_bundleID entry, bm_WorkspaceID = sb_workspaceID entry,
      bm_Kind = (if sb_commitBundle entry \<noteq> None then ''source_push'' else ''publish''), bm_ByteSize = int (length (sb_data entry)),
      bm_RepoCount =
        (if sb_commitBundle entry \<noteq> None then int (length (commit_bundle_RepositoryRefs (sb_commitBundle entry)))
         else case sb_bundle entry of None \<Rightarrow> 0 | Some b \<Rightarrow> int (length (wb_Repositories b))),
      bm_LocalCommitIDs = (if sb_commitBundle entry \<noteq> None then LocalCommitIDs (sb_commitBundle entry) else []),
      bm_CreatedAtUnix = sb_createdAt entry, bm_ExpiresAtUnix = sb_expiresAt entry, bm_DiscardReason = '''', bm_JobID = ''''\<rparr>"

definition storeWorkspaceBundle :: "'d sync_env \<Rightarrow> stagedWorkspaceBundle \<Rightarrow> 'd sync_router \<Rightarrow> sync_error option \<times> 'd sync_router" where
  "storeWorkspaceBundle env entry s =
     (case tick env s of (n, s) \<Rightarrow>
        (case (case wy_store s of
                 None \<Rightarrow> (None, None)
               | Some st \<Rightarrow> (case UpsertBundle (en_codec env) (en_write env n) (en_now env n) (bundle_meta entry) st of (err, st) \<Rightarrow> (err, Some st))) of
           (Some e, st) \<Rightarrow> (Some (PersistFailed (sb_bundleID entry) e), s\<lparr>wy_store := st\<rparr>)
         | (None, st) \<Rightarrow> (None, s\<lparr>wy_store := st, wy_bundles := (wy_bundles s)(sb_bundleID entry \<mapsto> entry)\<rparr>)))"

definition getWorkspaceBundle :: "'d sync_env \<Rightarrow> string \<Rightarrow> 'd sync_router \<Rightarrow> stagedWorkspaceBundle option \<times> 'd sync_router" where
  "getWorkspaceBundle env bundleID s =
     (case tick env s of (n, s) \<Rightarrow>
        (case wy_bundles s bundleID of
           None \<Rightarrow> (None, s)
         | Some entry \<Rightarrow>
             if en_now env n > sb_expiresAt entry then (None, s\<lparr>wy_bundles := (wy_bundles s)(bundleID := None)\<rparr>) else (Some entry, s)))"

text \<open>The two uploads, with the decoder of the bundle; it includes the validation of the bundle.\<close>

definition UploadWorkspaceBundle ::
  "(bytes \<Rightarrow> (string, WsBundle) result) \<Rightarrow> 'd sync_env \<Rightarrow> string \<Rightarrow> chunk list \<Rightarrow> 'd sync_router \<Rightarrow> (sync_error, stagedWorkspaceBundle) result \<times> 'd sync_router"
where
  "UploadWorkspaceBundle parse env bundleID cs s =
     (case recv_chunks '''' [] cs of
        Inl e \<Rightarrow> (Inl e, s)
      | Inr (ws, data) \<Rightarrow>
          if data = [] then (Inl UploadEmpty, s)
          else case parse data of
            Inl e \<Rightarrow> (Inl (UploadInvalid e), s)
          | Inr b \<Rightarrow>
              let ws = (if ws = '''' then wb_WorkspaceID b else ws) in
              if ws \<noteq> wb_WorkspaceID b then (Inl (WorkspaceMismatch ws (wb_WorkspaceID b)), s)
              else
                let now = en_now env (wy_tick s);
                    entry = \<lparr>sb_bundleID = bundleID, sb_workspaceID = ws, sb_data = data, sb_bundle = Some b, sb_commitBundle = None,
                      sb_createdAt = now, sb_expiresAt = now + workspaceBundleTTL\<rparr> in
                case storeWorkspaceBundle env entry s of (Some e, s) \<Rightarrow> (Inl e, s) | (None, s) \<Rightarrow> (Inr entry, s))"

definition UploadWorkspaceCommitBundle ::
  "(bytes \<Rightarrow> (string, SourceCommitBundle) result) \<Rightarrow> 'd sync_env \<Rightarrow> string \<Rightarrow> chunk list \<Rightarrow> 'd sync_router \<Rightarrow>
    (sync_error, stagedWorkspaceBundle) result \<times> 'd sync_router"
where
  "UploadWorkspaceCommitBundle parse env bundleID cs s =
     (case recv_chunks '''' [] cs of
        Inl e \<Rightarrow> (Inl e, s)
      | Inr (ws, data) \<Rightarrow>
          if data = [] then (Inl UploadEmpty, s)
          else case parse data of
            Inl e \<Rightarrow> (Inl (UploadInvalid e), s)
          | Inr b \<Rightarrow>
              let ws = (if ws = '''' then scb_WorkspaceID b else ws) in
              if ws \<noteq> scb_WorkspaceID b then (Inl (WorkspaceMismatch ws (scb_WorkspaceID b)), s)
              else
                let now = en_now env (wy_tick s);
                    entry = \<lparr>sb_bundleID = bundleID, sb_workspaceID = ws, sb_data = data, sb_bundle = None, sb_commitBundle = Some b,
                      sb_createdAt = now, sb_expiresAt = now + workspaceBundleTTL\<rparr> in
                case storeWorkspaceBundle env entry s of (Some e, s) \<Rightarrow> (Inl e, s) | (None, s) \<Rightarrow> (Inr entry, s))"


subsection \<open>Pull requests\<close>

definition repo_paths :: "RepositoryBundle \<Rightarrow> string list" where
  "repo_paths repo = map (full_path (Trim (rb_DisplayPath repo) slash)) (rb_Operations repo)"

definition changedRepoPaths :: "string \<Rightarrow> SourceCommitBundle option \<Rightarrow> string list" where
  "changedRepoPaths storageID bu =
     (case bu of
        None \<Rightarrow> []
      | Some b \<Rightarrow>
          if storageID = '''' then []
          else add_distinct [] (concat (map repo_paths (filter (\<lambda>r. rb_StorageID r = storageID) (concat (map sc_Repositories (scb_Commits b)))))))"

definition changedPathsFromRepositoryBundle :: "RepositoryBundle \<Rightarrow> string list" where
  "changedPathsFromRepositoryBundle repo = add_distinct [] (repo_paths repo)"

definition requestPullReviewers :: "sync_config \<Rightarrow> 'd sync_env \<Rightarrow> RepositoryResult \<Rightarrow> string \<Rightarrow> bool \<Rightarrow> string list \<Rightarrow> 'd sync_router \<Rightarrow> 'd sync_router" where
  "requestPullReviewers cfg env repo prID created paths s =
     (if \<not> created \<or> prID = '''' then s
      else if paths = [] then s
      else case gr_ownershipResolverFull (sg_gate cfg) of
        None \<Rightarrow> s
      | Some resolver \<Rightarrow>
          (case OwnersOf resolver paths of
             Inl e \<Rightarrow> s
           | Inr refs \<Rightarrow>
               let reviewers = reviewersFromOwnerRefs refs in
               if reviewers = [] then s else snd (do_call env (CallReviewers (rr_RepoUrl repo) prID reviewers) s)))"

text \<open>The provider and its answer are the environment's: an error, or the address, the number and whether the request is new.\<close>

definition openPullRequest ::
  "sync_config \<Rightarrow> 'd sync_env \<Rightarrow> RepositoryResult \<Rightarrow> string \<Rightarrow> string \<Rightarrow> string list \<Rightarrow> 'd sync_router \<Rightarrow> RepositoryResult \<times> 'd sync_router"
where
  "openPullRequest cfg env repo title body reviewPaths s =
     (let sourceBranch = TrimSpace (rr_TargetBranch repo); targetBranch = TrimSpace (rr_Branch repo) in
      if sourceBranch = '''' \<or> targetBranch = '''' \<or> sourceBranch = targetBranch then (repo, s)
      else if rr_Status repo \<noteq> RsPublished then (repo, s)
      else
        let c = CallCreatePR (rr_RepoUrl repo) sourceBranch targetBranch title body in
        case do_call env c s of (n, s) \<Rightarrow>
          (case en_pr env n c of
             Inl e \<Rightarrow> (repo, s)
           | Inr (url, prID, created) \<Rightarrow>
               let repo = repo\<lparr>rr_PullRequestUrl := url, rr_PullRequestCreated := created,
                 rr_Message := TrimSpace (TrimSuffix (rr_Message repo) [CHR 0x0A] @ (if created then ''; pull request created: '' else ''; open pull request: '') @ url)\<rparr> in
               (repo, if created then requestPullReviewers cfg env repo prID created reviewPaths s else s)))"

definition commit_line :: "SourceCommit \<Rightarrow> RepositoryBundle \<Rightarrow> string" where
  "commit_line c repo = ''- '' @ sc_ID c @ '' ('' @ digits (length (rb_Operations repo)) @ '' operation(s))''"

text \<open>The commits of a repository, as pairs.\<close>

definition repo_commits :: "string \<Rightarrow> SourceCommitBundle option \<Rightarrow> (SourceCommit \<times> RepositoryBundle) list" where
  "repo_commits storageID bu =
     (case bu of
        None \<Rightarrow> []
      | Some b \<Rightarrow> concat (map (\<lambda>c. map (Pair c) (filter (\<lambda>r. rb_StorageID r = storageID) (sc_Repositories c))) (scb_Commits b)))"

definition pullRequestBody :: "SourceCommitBundle option \<Rightarrow> string \<Rightarrow> RepositoryResult \<Rightarrow> string \<times> string" where
  "pullRequestBody bu jobID repo =
     (let cs = repo_commits (rr_StorageId repo) bu;
          title = fold (\<lambda>(c, _) title. if TrimSpace (sc_Message c) \<noteq> '''' then TrimSpace (sc_Message c) else title) cs (''MonoFS workspace push ('' @ jobID @ '')'');
          ls = map (\<lambda>(c, r). commit_line c r) cs;
          nl = [CHR 0x0A]
      in (title,
          ''Pushed from a MonoFS virtual monorepo workspace.'' @ nl @ nl @ ''Commits:'' @ nl @
          (if ls = [] then ''- (none recorded)'' @ nl else concat (map (\<lambda>l. l @ nl) ls)) @
          nl @ ''MonoFS-Job: '' @ jobID @ nl @ ''MonoFS-Workspace: '' @ rr_StorageId repo @ nl))"

definition publishPullRequestBody :: "RepositoryBundle \<Rightarrow> string \<Rightarrow> string" where
  "publishPullRequestBody repo jobID =
     (let nl = [CHR 0x0A] in
      ''Pushed from a MonoFS workspace publish (Guardian repository association).'' @ nl @ nl @ ''Repository: '' @ rb_DisplayPath repo @ nl @
      (if rb_Operations repo \<noteq> [] then nl @ ''Files:'' @ nl @ concat (map (\<lambda>op. ''- '' @ op_Kind op @ '' '' @ op_Path op @ nl) (rb_Operations repo)) else '''') @
      nl @ ''MonoFS-Job: '' @ jobID @ nl @ ''MonoFS-Repository: '' @ rb_StorageID repo @ nl)"

definition attachPullRequest ::
  "sync_config \<Rightarrow> 'd sync_env \<Rightarrow> RepositoryResult \<Rightarrow> SourceCommitBundle option \<Rightarrow> string \<Rightarrow> 'd sync_router \<Rightarrow> RepositoryResult \<times> 'd sync_router"
where
  "attachPullRequest cfg env repo bu jobID =
     (case pullRequestBody bu jobID repo of (title, body) \<Rightarrow> openPullRequest cfg env repo title body (changedRepoPaths (rr_StorageId repo) bu))"

definition attachPublishPullRequest ::
  "sync_config \<Rightarrow> 'd sync_env \<Rightarrow> RepositoryResult \<Rightarrow> RepositoryBundle \<Rightarrow> string \<Rightarrow> string \<Rightarrow> 'd sync_router \<Rightarrow> RepositoryResult \<times> 'd sync_router"
where
  "attachPublishPullRequest cfg env repo rb msg jobID =
     (let title = (if TrimSpace msg = '''' then ''MonoFS publish ('' @ rb_DisplayPath rb @ '')'' else TrimSpace msg) in
      openPullRequest cfg env repo title (publishPullRequestBody rb jobID) (changedPathsFromRepositoryBundle rb))"

definition triggerSearchReindex :: "sync_config \<Rightarrow> 'd sync_env \<Rightarrow> RepositoryResult \<Rightarrow> string \<Rightarrow> 'd sync_router \<Rightarrow> 'd sync_router" where
  "triggerSearchReindex cfg env repo reason s =
     (if \<not> sg_search cfg \<or> rr_StorageId repo = '''' then s
      else snd (do_call env (CallReindex (rr_StorageId repo) (rr_DisplayPath repo) (rr_RepoUrl repo) (rr_Branch repo) reason) s))"

subsection \<open>Publish\<close>

definition newWorkspacePublishJob :: "string \<Rightarrow> int \<Rightarrow> PublishRequest \<Rightarrow> WsBundle option \<Rightarrow> string \<Rightarrow> SyncJob" where
  "newWorkspacePublishJob jobID now req b clientID =
     empty_job\<lparr>jb_JobId := jobID,
       jb_WorkspaceId := (case b of None \<Rightarrow> pq_WorkspaceId req | Some b \<Rightarrow> if pq_WorkspaceId req = '''' then wb_WorkspaceID b else pq_WorkspaceId req),
       jb_Action := SyncPublish, jb_State := StQueued, jb_RequestedByClientId := clientID, jb_CreatedAtUnix := now,
       jb_Summary := no_summary\<lparr>su_Total := (case b of None \<Rightarrow> 0 | Some b \<Rightarrow> int (length (wb_Repositories b)))\<rparr>,
       jb_BundleId := pq_BundleId req, jb_LogicalCommitMessage := pq_LogicalCommitMessage req\<rparr>"

definition sendWorkspaceSyncTerminalEvent where
  "sendWorkspaceSyncTerminalEvent env jobID msg = send env jobID EvJobCompleted None msg"

definition publish_followup :: "sync_config \<Rightarrow> 'd sync_env \<Rightarrow> string \<Rightarrow> PublishRequest \<Rightarrow> stagedWorkspaceBundle \<Rightarrow> RepositoryResult \<Rightarrow> 'd sync_router \<Rightarrow>
    sync_error option \<times> RepositoryResult \<times> 'd sync_router" where
  "publish_followup cfg env jobID req entry repo s =
     (if rr_Status repo \<noteq> RsPublished then (None, repo, s)
      else
        let s = triggerSearchReindex cfg env repo ''publish'' s in
        case bundle_RepositoryByStorageID (sb_bundle entry) (rr_StorageId repo) of
          None \<Rightarrow> (None, repo, s)
        | Some rb \<Rightarrow>
            (case attachPublishPullRequest cfg env repo rb (pq_LogicalCommitMessage req) jobID s of (repo, s) \<Rightarrow>
               if rr_PullRequestUrl repo \<noteq> '''' then (case updateWorkspaceSyncRepository env jobID repo s of (err, s) \<Rightarrow> (err, repo, s))
               else (None, repo, s)))"

fun publish_loop ::
  "sync_config \<Rightarrow> 'd sync_env \<Rightarrow> string \<Rightarrow> PublishRequest \<Rightarrow> stagedWorkspaceBundle \<Rightarrow> RepoSyncProgress option list \<Rightarrow> 'd sync_router \<Rightarrow>
    sync_error option \<times> 'd sync_router"
where
  "publish_loop cfg env jobID req entry [] =
     andThen (finalizeWorkspaceSyncJob env jobID) (sendWorkspaceSyncTerminalEvent env jobID ''workspace publish job completed'')"
| "publish_loop cfg env jobID req entry (progress # results) =
     (\<lambda>s. case is_done env jobID s of (isDone, s) \<Rightarrow>
        if isDone then andThen (cancelWorkspaceSyncJob env jobID) (sendWorkspaceSyncTerminalEvent env jobID ''workspace publish job cancelled'') s
        else
          let repo = workspaceRepositoryResultFromPublish progress in
          andThen (updateWorkspaceSyncRepository env jobID repo)
            (\<lambda>s. case publish_followup cfg env jobID req entry repo s of
               (Some e, _, s) \<Rightarrow> (Some e, s)
             | (None, repo, s) \<Rightarrow>
                 andThen (send env jobID (workspaceEventTypeForRepository repo) (Some repo) (rr_Message repo))
                   (publish_loop cfg env jobID req entry results) s) s)"

definition fail_terminal :: "'d sync_env \<Rightarrow> string \<Rightarrow> string \<Rightarrow> string \<Rightarrow> 'd sync_router \<Rightarrow> sync_error option \<times> 'd sync_router" where
  "fail_terminal env jobID e msg = andThen (failWorkspaceSyncJob env jobID e) (sendWorkspaceSyncTerminalEvent env jobID msg)"

text \<open>The staged bundle is discarded when the function returns.\<close>

definition discarding :: "'d sync_env \<Rightarrow> string \<Rightarrow> string \<Rightarrow> ('d sync_router \<Rightarrow> sync_error option \<times> 'd sync_router) \<Rightarrow> 'd sync_router \<Rightarrow> sync_error option \<times> 'd sync_router" where
  "discarding env ws bundleID f s = (case f s of (err, s) \<Rightarrow> (err, snd (do_call env (CallDiscard ws bundleID) s)))"

definition runWorkspacePublishJob ::
  "sync_config \<Rightarrow> 'd sync_env \<Rightarrow> string \<Rightarrow> PublishRequest \<Rightarrow> stagedWorkspaceBundle \<Rightarrow> 'd sync_router \<Rightarrow> sync_error option \<times> 'd sync_router"
where
  "runWorkspacePublishJob cfg env jobID req entry =
     andThen (updateWorkspaceSyncJob env jobID start_job)
       (andThen (send env jobID EvJobStarted None ''workspace publish job started'')
          (\<lambda>s. if \<not> sg_fetcher cfg then fail_terminal env jobID ''fetcher cluster not configured'' ''workspace publish job failed'' s
            else discarding env (sb_workspaceID entry) (pq_BundleId req)
              (\<lambda>s.
                let c = CallStageBundle (pq_BundleId req) (sb_workspaceID entry) (sb_data entry) in
                case do_call env c s of (n, s) \<Rightarrow>
                  (case en_fails env n c of
                     Some e \<Rightarrow> fail_terminal env jobID e ''workspace publish job failed'' s
                   | None \<Rightarrow>
                       let c = CallStartPublish jobID (sb_workspaceID entry) req in
                       case do_call env c s of (n, s) \<Rightarrow>
                         (case en_progress env n c of
                            Inl e \<Rightarrow> fail_terminal env jobID e ''workspace publish job failed'' s
                          | Inr results \<Rightarrow> publish_loop cfg env jobID req entry results s))) s))"

definition PublishWorkspace ::
  "sync_config \<Rightarrow> 'd sync_env \<Rightarrow> string \<Rightarrow> string \<Rightarrow> PublishRequest \<Rightarrow> 'd sync_router \<Rightarrow> sync_error option \<times> 'd sync_router"
where
  "PublishWorkspace cfg env jobID clientID req s =
     (case getWorkspaceBundle env (pq_BundleId req) s of
        (None, s) \<Rightarrow> (Some (BundleNotFound (pq_BundleId req)), s)
      | (Some entry, s) \<Rightarrow>
          if pq_WorkspaceId req \<noteq> '''' \<and> pq_WorkspaceId req \<noteq> sb_workspaceID entry
          then (Some (WorkspaceMismatch (pq_WorkspaceId req) (sb_workspaceID entry)), s)
          else run_job env (newWorkspacePublishJob jobID (en_now env (wy_tick s)) req (sb_bundle entry) clientID) ''workspace publish job accepted''
                 (runWorkspacePublishJob cfg env jobID req entry) s)"


subsection \<open>Source push\<close>

definition evalPolicy :: "sync_config \<Rightarrow> EvaluationRequest \<Rightarrow> EvaluationResult" where
  "evalPolicy cfg req =
     (if \<not> sg_PolicyGateEnabled cfg then \<lparr>er_Effect = EffectAllow, er_ReasonCode = ReasonPolicyAllowed, er_Reason = '''', er_RuleName = ''''\<rparr>
      else case sg_policyCfg cfg of
        None \<Rightarrow> \<lparr>er_Effect = EffectDeny, er_ReasonCode = ReasonPolicyDenied, er_Reason = ''policy config not loaded'', er_RuleName = ''''\<rparr>
      | Some pol \<Rightarrow> policy_Evaluate (Some pol) (Some req))"

definition resolveSourcePushLogicalBranch :: "string \<Rightarrow> SourceCommitBundle option \<Rightarrow> (sync_error, string) result" where
  "resolveSourcePushLogicalBranch requested bu =
     (let bundleBranch = (case bu of None \<Rightarrow> '''' | Some b \<Rightarrow> TrimSpace (scb_LogicalBranch b)); requested = TrimSpace requested in
      if requested \<noteq> '''' \<and> bundleBranch \<noteq> '''' \<and> requested \<noteq> bundleBranch then Inl (BranchMismatch requested bundleBranch)
      else if requested \<noteq> '''' then Inr requested
      else Inr bundleBranch)"

text \<open>The configured mode is compared in lower case; \<open>strings.ToLower\<close> acts on ASCII.\<close>

definition resolveSourcePushMode :: "SourcePushMode \<Rightarrow> string \<Rightarrow> string" where
  "resolveSourcePushMode requested configDefault =
     (if requested = PushPreserve then PushModePreserve
      else if requested = PushSquash then PushModeSquash
      else if EqualFold (TrimSpace configDefault) PushModePreserve then PushModePreserve
      else PushModeSquash)"

definition storageIDsFromSourceBundle :: "SourceCommitBundle option \<Rightarrow> string list" where
  "storageIDsFromSourceBundle bu =
     (case bu of None \<Rightarrow> [] | Some b \<Rightarrow> add_distinct [] (map rb_StorageID (concat (map sc_Repositories (scb_Commits b)))))"

definition pushStatusFromRepositoryResult :: "RepositoryResult \<Rightarrow> string" where
  "pushStatusFromRepositoryResult repo = (case rr_Status repo of RsPublished \<Rightarrow> ''pushed'' | RsConflict \<Rightarrow> ''conflict'' | _ \<Rightarrow> ''failed'')"

definition newWorkspaceCommitPushJob :: "string \<Rightarrow> int \<Rightarrow> PushRequest \<Rightarrow> SourceCommitBundle option \<Rightarrow> string \<Rightarrow> string \<Rightarrow> SyncJob" where
  "newWorkspaceCommitPushJob jobID now req bu logicalBranch clientID =
     empty_job\<lparr>jb_JobId := jobID,
       jb_WorkspaceId := (case bu of None \<Rightarrow> sq_WorkspaceId req | Some b \<Rightarrow> if sq_WorkspaceId req = '''' then scb_WorkspaceID b else sq_WorkspaceId req),
       jb_Action := SyncSourcePush, jb_State := StQueued, jb_RequestedByClientId := clientID, jb_CreatedAtUnix := now,
       jb_Summary := no_summary\<lparr>su_Total := int (length (commit_bundle_RepositoryRefs bu))\<rparr>,
       jb_BundleId := sq_BundleId req, jb_LogicalBranch := logicalBranch, jb_LocalCommitIds := LocalCommitIDs bu\<rparr>"

definition push_outcome :: "SyncJob option \<Rightarrow> string \<Rightarrow> RepositoryResult \<Rightarrow> PushOutcome" where
  "push_outcome job pushMode repo =
     (let job = (case job of None \<Rightarrow> empty_job | Some job \<Rightarrow> job) in
      \<lparr>po_PushOutcomeId = jb_JobId job @ '':'' @ rr_StorageId repo, po_JobId = jb_JobId job, po_WorkspaceId = jb_WorkspaceId job,
       po_RepoStorageId = rr_StorageId repo, po_Branch = rr_Branch repo, po_PushMode = pushMode, po_UpstreamCommitHash = rr_PushedCommit repo,
       po_LocalCommitIds = jb_LocalCommitIds job, po_Status = pushStatusFromRepositoryResult repo\<rparr>)"

fun push_loop ::
  "sync_config \<Rightarrow> 'd sync_env \<Rightarrow> string \<Rightarrow> string \<Rightarrow> stagedWorkspaceBundle \<Rightarrow> RepoSyncProgress option list \<Rightarrow> 'd sync_router \<Rightarrow> sync_error option \<times> 'd sync_router"
where
  "push_loop cfg env jobID pushMode entry [] =
     andThen (finalizeWorkspaceSyncJob env jobID) (sendWorkspaceSyncTerminalEvent env jobID ''workspace source push job completed'')"
| "push_loop cfg env jobID pushMode entry (progress # results) =
     (\<lambda>s. case is_done env jobID s of (isDone, s) \<Rightarrow>
        if isDone then andThen (cancelWorkspaceSyncJob env jobID) (sendWorkspaceSyncTerminalEvent env jobID ''workspace source push job cancelled'') s
        else
          (case attachPullRequest cfg env (workspaceRepositoryResultFromPublish progress) (sb_commitBundle entry) jobID s of (repo, s) \<Rightarrow>
             let s = (if rr_Status repo = RsPublished then triggerSearchReindex cfg env repo ''source_push'' s else s) in
             andThen (updateWorkspaceSyncRepository env jobID repo)
               (\<lambda>s.
                 let c = CallOutcome (push_outcome (snapshot s jobID) pushMode repo) in
                 case do_call env c s of (n, s) \<Rightarrow>
                   (case en_fails env n c of
                      Some e \<Rightarrow> fail_terminal env jobID (''failed to persist push outcome: '' @ e) ''workspace source push job failed'' s
                    | None \<Rightarrow>
                        andThen (send env jobID (workspaceEventTypeForRepository repo) (Some repo) (rr_Message repo))
                          (push_loop cfg env jobID pushMode entry results) s)) s))"

definition runWorkspaceCommitPushJob ::
  "sync_config \<Rightarrow> 'd sync_env \<Rightarrow> string \<Rightarrow> PushRequest \<Rightarrow> string \<Rightarrow> stagedWorkspaceBundle \<Rightarrow> 'd sync_router \<Rightarrow> sync_error option \<times> 'd sync_router"
where
  "runWorkspaceCommitPushJob cfg env jobID req logicalBranch entry =
     andThen (updateWorkspaceSyncJob env jobID start_job)
       (andThen (send env jobID EvJobStarted None ''workspace source push job started'')
          (\<lambda>s. if \<not> sg_fetcher cfg then fail_terminal env jobID ''fetcher cluster not configured'' ''workspace source push job failed'' s
            else discarding env (sb_workspaceID entry) (sq_BundleId req)
              (\<lambda>s.
                let c = CallStageCommits (sq_BundleId req) (sb_workspaceID entry) (sb_data entry) in
                case do_call env c s of (n, s) \<Rightarrow>
                  (case en_fails env n c of
                     Some e \<Rightarrow> fail_terminal env jobID e ''workspace source push job failed'' s
                   | None \<Rightarrow>
                       let pushMode = resolveSourcePushMode (sq_SourcePushMode req) (sg_SourcePushMode cfg);
                           c = CallStartPush jobID (sb_workspaceID entry) (sq_BundleId req) logicalBranch pushMode in
                       case do_call env c s of (n, s) \<Rightarrow>
                         (case en_progress env n c of
                            Inl e \<Rightarrow> fail_terminal env jobID e ''workspace source push job failed'' s
                          | Inr results \<Rightarrow> push_loop cfg env jobID pushMode entry results s))) s))"

text \<open>The request to the policy: no branch strategy.\<close>

definition push_policy_request :: "sync_config \<Rightarrow> SyncJob \<Rightarrow> PushRequest \<Rightarrow> string \<Rightarrow> SourceCommitBundle option \<Rightarrow> EvaluationRequest" where
  "push_policy_request cfg job req logicalBranch bu =
     \<lparr>eq_PrincipalID = jb_RequestedByClientId job, eq_WorkspaceID = jb_WorkspaceId job, eq_LogicalBranch = logicalBranch,
      eq_RepositoryIDs = storageIDsFromSourceBundle bu, eq_Action = ActionSourcePush,
      eq_PushMode = resolveSourcePushMode (sq_SourcePushMode req) (sg_SourcePushMode cfg), eq_BranchStrategy = ''''\<rparr>"

text \<open>The texts of the errors of the ownership gate.\<close>

fun gate_text :: "gate_error \<Rightarrow> string" where
  "gate_text NoResolverConfigured = ''review required: ownership gate is enabled but no ownership resolver is configured''"
| "gate_text (OwnershipUnverified e) = ''review required: unable to verify subtree ownership: '' @ e"
| "gate_text (ReviewRequired paths owners) =
     ''review required: '' @ Join paths '', '' @ '' owned by '' @ Join owners '', '' @ ''; use a logical branch so a pull request is opened''"

text \<open>A push that is denied leaves a failed job, which is stored, and is told to the client.\<close>

definition deny_push :: "'d sync_env \<Rightarrow> SyncJob \<Rightarrow> string \<Rightarrow> string \<Rightarrow> 'd sync_router \<Rightarrow> sync_error option \<times> 'd sync_router" where
  "deny_push env job errMsg msg s =
     andThen (storeWorkspaceSyncJob env (failed_job errMsg (en_now env (wy_tick s)) job)) (send env (jb_JobId job) EvJobCompleted None msg) s"

definition PushWorkspaceCommits ::
  "sync_config \<Rightarrow> 'd sync_env \<Rightarrow> string \<Rightarrow> string \<Rightarrow> Identity \<Rightarrow> PushRequest \<Rightarrow> 'd sync_router \<Rightarrow> sync_error option \<times> 'd sync_router"
where
  "PushWorkspaceCommits cfg env jobID clientID ident req s =
     (case getWorkspaceBundle env (sq_BundleId req) s of
        (None, s) \<Rightarrow> (Some (BundleNotFound (sq_BundleId req)), s)
      | (Some entry, s) \<Rightarrow>
          if sb_commitBundle entry = None then (Some (BundleNotFound (sq_BundleId req)), s)
          else if sq_WorkspaceId req \<noteq> '''' \<and> sq_WorkspaceId req \<noteq> sb_workspaceID entry
          then (Some (WorkspaceMismatch (sq_WorkspaceId req) (sb_workspaceID entry)), s)
          else case resolveSourcePushLogicalBranch (sq_LogicalBranch req) (sb_commitBundle entry) of
            Inl e \<Rightarrow> (Some e, s)
          | Inr logicalBranch \<Rightarrow>
              let job = newWorkspaceCommitPushJob jobID (en_now env (wy_tick s)) req (sb_commitBundle entry) logicalBranch clientID;
                  result = evalPolicy cfg (push_policy_request cfg job req logicalBranch (sb_commitBundle entry)) in
              if er_Effect result \<noteq> EffectAllow
              then deny_push env job (''policy denied: '' @ er_Reason result) (''push denied by policy: '' @ er_Reason result) s
              else case enforceOwnershipGate (sg_gate cfg) ident logicalBranch (sb_commitBundle entry) of
                Some e \<Rightarrow> deny_push env job (gate_text e) (''push denied by ownership gate: '' @ gate_text e) s
              | None \<Rightarrow> run_job env job ''workspace source push job accepted'' (runWorkspaceCommitPushJob cfg env jobID req logicalBranch entry) s)"

end
