(* ===== verification/WorkspaceSyncSafety.thy ===== *)
theory WorkspaceSyncSafety
  imports WorkspaceSync
begin

section \<open>Workspace jobs under interference\<close>

text \<open>
  What the handlers of \<^verbatim>\<open>workspace_sync.go\<close>, \<^verbatim>\<open>workspace_publish.go\<close> and \<^verbatim>\<open>workspace_source_push.go\<close> guarantee while other handlers, and
  cancellations of their job in particular, act in between.
\<close>

subsection \<open>What the other handlers may do\<close>

text \<open>
  The environment of a handler, as far as its job is concerned: the number of the section and the calls of the handler are its own; its job is not removed, and may only be
  cancelled, which keeps the results of the repositories and the identity of the job.
\<close>

definition only_cancelled :: "SyncJob \<Rightarrow> SyncJob \<Rightarrow> bool" where
  "only_cancelled job job' \<longleftrightarrow>
     job' = job \<or> \<not> terminal (jb_State job) \<and> (\<exists>now. job' = cancelled_job now job)"

definition rely :: "'d sync_env \<Rightarrow> string \<Rightarrow> bool" where
  "rely env jobID \<longleftrightarrow>
     (\<forall>n s. wy_tick (en_others env n s) = wy_tick s \<and> wy_calls (en_others env n s) = wy_calls s \<and>
       (\<forall>en. gm_get (wy_jobs s) jobID = Some en \<longrightarrow> (\<exists>en'. gm_get (wy_jobs (en_others env n s)) jobID = Some en' \<and> only_cancelled (je_job en) (je_job en'))))"

text \<open>A property of the job that a cancellation keeps is kept by every section that does not change the job.\<close>

definition job_holds :: "(SyncJob \<Rightarrow> bool) \<Rightarrow> string \<Rightarrow> 'd sync_router \<Rightarrow> bool" where
  "job_holds P jobID s \<longleftrightarrow> (\<exists>en. gm_get (wy_jobs s) jobID = Some en \<and> P (je_job en))"

definition cancel_stable :: "(SyncJob \<Rightarrow> bool) \<Rightarrow> bool" where
  "cancel_stable P \<longleftrightarrow> (\<forall>job now. P job \<longrightarrow> \<not> terminal (jb_State job) \<longrightarrow> P (cancelled_job now job))"

lemma tick_holds:
  assumes "rely env jobID" "cancel_stable P" "tick env s = (n, s')" "job_holds P jobID s"
  shows "job_holds P jobID s'"
proof -
  obtain en where en: "gm_get (wy_jobs s) jobID = Some en" "P (je_job en)" using assms(4) by (auto simp: job_holds_def)
  have s': "s' = en_others env (wy_tick s) (s\<lparr>wy_tick := wy_tick s + 1\<rparr>)" using assms(3) by (auto simp: tick_def)
  have "gm_get (wy_jobs (s\<lparr>wy_tick := wy_tick s + 1\<rparr>)) jobID = Some en" using en(1) by simp
  then obtain en' where "gm_get (wy_jobs s') jobID = Some en'" "only_cancelled (je_job en) (je_job en')"
    using assms(1) unfolding rely_def s' by blast
  then show ?thesis using en(2) assms(2) by (auto simp: job_holds_def only_cancelled_def cancel_stable_def)
qed

lemma tick_calls: "rely env jobID \<Longrightarrow> tick env s = (n, s') \<Longrightarrow> wy_calls s' = wy_calls s"
  by (auto simp: tick_def rely_def)

lemma send_holds:
  assumes "rely env jobID" "cancel_stable P" "job_holds P jobID s" "send env i ty repo msg s = (err, s')"
  shows "job_holds P jobID s'"
proof -
  obtain n s1 where t: "tick env s = (n, s1)" by (rule prod.exhaust)
  have "job_holds P jobID s1" by (rule tick_holds [OF assms(1,2) t assms(3)])
  moreover have "wy_jobs s' = wy_jobs s1" using assms(4) t by (auto simp: send_def split: option.splits)
  ultimately show ?thesis by (simp add: job_holds_def)
qed

lemma do_call_holds:
  assumes "rely env jobID" "cancel_stable P" "job_holds P jobID s" "do_call env c s = (n, s')"
  shows "job_holds P jobID s'"
proof -
  obtain n1 s1 where t: "tick env s = (n1, s1)" by (rule prod.exhaust)
  have "job_holds P jobID s1" by (rule tick_holds [OF assms(1,2) t assms(3)])
  moreover have "wy_jobs s' = wy_jobs s1" using assms(4) t by (auto simp: do_call_def)
  ultimately show ?thesis by (simp add: job_holds_def)
qed

lemma persist_jobs: "persist env n job s = (err, s') \<Longrightarrow> wy_jobs s' = wy_jobs s \<and> wy_calls s' = wy_calls s"
  by (auto simp: persist_def split: option.splits prod.splits)

text \<open>An update: on success the new job satisfies what the update establishes, on failure the old one is kept.\<close>

lemma update_holds:
  assumes "rely env jobID" "cancel_stable P" "job_holds P jobID s" "updateWorkspaceSyncJob env jobID update s = (err, s')"
    and "\<And>now job. P job \<Longrightarrow> Q (update now job)"
  shows "err = None \<Longrightarrow> job_holds Q jobID s'" "err \<noteq> None \<Longrightarrow> job_holds P jobID s'"
proof -
  obtain n s1 where t: "tick env s = (n, s1)" by (rule prod.exhaust)
  obtain en where en: "gm_get (wy_jobs s1) jobID = Some en" "P (je_job en)"
    using tick_holds [OF assms(1,2) t assms(3)] by (auto simp: job_holds_def)
  obtain e2 s2 where p: "persist env n (update (en_now env n) (je_job en)) s1 = (e2, s2)" by (rule prod.exhaust)
  have j: "wy_jobs s2 = wy_jobs s1" using persist_jobs [OF p] by simp
  have sn: "snapshot s1 jobID = Some (je_job en)" using en(1) by (simp add: snapshot_def)
  have *: "(err, s') = (case e2 of Some e \<Rightarrow> (Some (PersistFailed (jb_JobId (je_job en)) e), s2) | None \<Rightarrow> (None, set_job jobID (update (en_now env n) (je_job en)) s2))"
    using assms(4) t sn p by (auto simp: updateWorkspaceSyncJob_def split: option.splits)
  show "job_holds Q jobID s'" if "err = None"
    using * that en j assms(5) [OF en(2)] by (cases e2) (auto simp: job_holds_def set_job_def)
  show "job_holds P jobID s'" if "err \<noteq> None"
    using * that en j by (cases e2) (auto simp: job_holds_def)
qed


subsection \<open>Invariants of the sections\<close>

text \<open>
  \<open>I\<close> is kept by the single changes a handler makes, with calls from \<open>C\<close>; then every part of a handler keeps it.
\<close>

definition section_inv :: "'d sync_env \<Rightarrow> ('d sync_router \<Rightarrow> bool) \<Rightarrow> call set \<Rightarrow> bool" where
  "section_inv env I C \<longleftrightarrow>
     (\<forall>s. I s \<longrightarrow> I (snd (tick env s))) \<and> (\<forall>s x. I s \<longrightarrow> I (s\<lparr>wy_sent := x\<rparr>)) \<and> (\<forall>s st. I s \<longrightarrow> I (s\<lparr>wy_store := st\<rparr>)) \<and>
     (\<forall>s k en. I s \<longrightarrow> I (s\<lparr>wy_jobs := gm_set k en (wy_jobs s)\<rparr>)) \<and> (\<forall>s c. I s \<longrightarrow> c \<in> C \<longrightarrow> I (s\<lparr>wy_calls := wy_calls s @ [c]\<rparr>))"

definition keeps :: "('s \<Rightarrow> bool) \<Rightarrow> ('s \<Rightarrow> 'r \<times> 's) \<Rightarrow> bool" where
  "keeps I f \<longleftrightarrow> (\<forall>s. I s \<longrightarrow> I (snd (f s)))"

lemma keepsD: "keeps I f \<Longrightarrow> f s = (r, s') \<Longrightarrow> I s \<Longrightarrow> I s'"
  by (metis keeps_def snd_conv)

lemma section_invD:
  assumes "section_inv env I C" "I s"
  shows "tick env s = (n, s') \<Longrightarrow> I s'" "I (s\<lparr>wy_sent := x\<rparr>)" "I (s\<lparr>wy_store := st\<rparr>)" "I (s\<lparr>wy_jobs := gm_set k en (wy_jobs s)\<rparr>)"
    "c \<in> C \<Longrightarrow> I (s\<lparr>wy_calls := wy_calls s @ [c]\<rparr>)"
proof -
  have t: "I (snd (tick env s))" and r: "I (s\<lparr>wy_sent := x\<rparr>)" "I (s\<lparr>wy_store := st\<rparr>)" "I (s\<lparr>wy_jobs := gm_set k en (wy_jobs s)\<rparr>)"
    "c \<in> C \<Longrightarrow> I (s\<lparr>wy_calls := wy_calls s @ [c]\<rparr>)" for x st k en c
    using assms unfolding section_inv_def by blast+
  show "tick env s = (n, s') \<Longrightarrow> I s'" using t by simp
  show "I (s\<lparr>wy_sent := x\<rparr>)" "I (s\<lparr>wy_store := st\<rparr>)" "I (s\<lparr>wy_jobs := gm_set k en (wy_jobs s)\<rparr>)"
    "c \<in> C \<Longrightarrow> I (s\<lparr>wy_calls := wy_calls s @ [c]\<rparr>)" by (rule r | assumption)+
qed

named_theorems keep

lemma keeps_andThen [keep]: "keeps I f \<Longrightarrow> keeps I g \<Longrightarrow> keeps I (andThen f g)"
  by (fastforce simp: keeps_def andThen_def split: prod.splits option.splits)

lemma keeps_send [keep]:
  assumes "section_inv env I C" shows "keeps I (send env jobID ty repo msg)"
  unfolding keeps_def
proof (intro allI impI)
  fix s assume "I s"
  obtain n s1 where t: "tick env s = (n, s1)" by (rule prod.exhaust)
  then have "I s1" using section_invD(1) [OF assms \<open>I s\<close>] by blast
  then show "I (snd (send env jobID ty repo msg s))"
    using section_invD(2) [OF assms] t by (auto simp: send_def split: option.splits)
qed

lemma keeps_do_call [keep]:
  assumes "section_inv env I C" "c \<in> C" shows "keeps I (do_call env c)"
  unfolding keeps_def
proof (intro allI impI)
  fix s assume "I s"
  obtain n s1 where t: "tick env s = (n, s1)" by (rule prod.exhaust)
  then have "I s1" using section_invD(1) [OF assms(1) \<open>I s\<close>] by blast
  then show "I (snd (do_call env c s))" using section_invD(5) [OF assms(1) _ assms(2)] t by (simp add: do_call_def)
qed

lemma persist_inv: "section_inv env I C \<Longrightarrow> I s \<Longrightarrow> persist env n job s = (err, s') \<Longrightarrow> I s'"
  using section_invD(3) by (auto simp: persist_def split: option.splits prod.splits)

lemma keeps_update [keep]:
  assumes "section_inv env I C" shows "keeps I (updateWorkspaceSyncJob env jobID update)"
  unfolding keeps_def
proof (intro allI impI)
  fix s assume "I s"
  obtain n s1 where t: "tick env s = (n, s1)" by (rule prod.exhaust)
  then have 1: "I s1" using section_invD(1) [OF assms \<open>I s\<close>] by blast
  have set: "I (set_job jobID job s2)" if "I s2" for job s2
    using that section_invD(4) [OF assms that] by (auto simp: set_job_def split: option.splits)
  show "I (snd (updateWorkspaceSyncJob env jobID update s))"
    using 1 t persist_inv [OF assms 1] set by (auto simp: updateWorkspaceSyncJob_def split: option.splits prod.splits)
qed

lemma keeps_jobs [keep]:
  assumes "section_inv env I C"
  shows "keeps I (updateWorkspaceSyncRepository env jobID repo)" "keeps I (failWorkspaceSyncJob env jobID msg)" "keeps I (cancelWorkspaceSyncJob env jobID)"
    "keeps I (finalizeWorkspaceSyncJob env jobID)" "keeps I (sendWorkspaceSyncTerminalEvent env jobID msg)" "keeps I (fail_terminal env jobID e msg)"
  using keeps_update [OF assms] keeps_send [OF assms] keeps_andThen
  unfolding updateWorkspaceSyncRepository_def failWorkspaceSyncJob_def cancelWorkspaceSyncJob_def finalizeWorkspaceSyncJob_def sendWorkspaceSyncTerminalEvent_def fail_terminal_def
  by blast+

lemma keeps_is_done [keep]:
  assumes "section_inv env I C" shows "keeps I (is_done env jobID)"
  using section_invD(1) [OF assms] by (auto simp: keeps_def is_done_def split: prod.splits)

lemma keeps_store [keep]:
  assumes "section_inv env I C" shows "keeps I (storeWorkspaceSyncJob env job)"
  unfolding keeps_def
proof (intro allI impI)
  fix s assume "I s"
  obtain n s1 where t: "tick env s = (n, s1)" by (rule prod.exhaust)
  then have 1: "I s1" using section_invD(1) [OF assms \<open>I s\<close>] by blast
  show "I (snd (storeWorkspaceSyncJob env job s))"
    using t persist_inv [OF assms 1] section_invD(4) [OF assms] by (auto simp: storeWorkspaceSyncJob_def split: option.splits prod.splits)
qed

lemma keeps_reingest [keep]:
  assumes "section_inv env I C" "\<And>a b c. CallIngest a b c \<in> C"
  shows "keeps I (reingest env jobID repo)"
  unfolding keeps_def
proof (intro allI impI)
  fix s assume "I s"
  let ?c = "CallIngest (rr_RepoUrl repo) (rr_Branch repo) (rr_DisplayPath repo)"
  obtain n s1 where t: "do_call env ?c s = (n, s1)" by (rule prod.exhaust)
  then have 1: "I s1" using keepsD [OF keeps_do_call [OF assms]] \<open>I s\<close> by blast
  have "keeps I (andThen (updateWorkspaceSyncRepository env jobID r) (send env jobID ty x m))" for r ty x m
    by (intro keeps_andThen keeps_jobs(1) [OF assms(1)] keeps_send [OF assms(1)])
  then show "I (snd (reingest env jobID repo s))" using 1 t by (auto simp: reingest_def Let_def keeps_def split: option.splits)
qed


lemma keepsI: "(\<And>s r s'. I s \<Longrightarrow> f s = (r, s') \<Longrightarrow> I s') \<Longrightarrow> keeps I f"
  unfolding keeps_def by (metis prod.collapse)

lemma keeps_skip [simp]: "keeps I (\<lambda>s. (r, s))"
  by (simp add: keeps_def)

lemma keeps_refresh_one [keep]:
  assumes "section_inv env I C" "\<And>a b c. CallIngest a b c \<in> C"
  shows "keeps I (refresh_one env jobID repo)"
  unfolding refresh_one_def
proof (intro keeps_andThen keeps_jobs(1) [OF assms(1)] keeps_send [OF assms(1)])
  have "keeps I (andThen (send env jobID EvReingestStarted (Some repo) ''starting repository re-ingestion'') (reingest env jobID repo))"
    by (intro keeps_andThen keeps_send [OF assms(1)] keeps_reingest [OF assms])
  then show "keeps I (\<lambda>s. if rr_Status repo \<noteq> RsRefreshRequired then (None, s)
      else andThen (send env jobID EvReingestStarted (Some repo) ''starting repository re-ingestion'') (reingest env jobID repo) s)"
    by (simp add: keeps_def)
qed

lemma trigger_inv:
  assumes "section_inv env I C" "\<And>a b c d e. CallReindex a b c d e \<in> C" "I s"
  shows "I (triggerSearchReindex cfg env repo reason s)"
  using keeps_do_call [OF assms(1,2)] assms(3) by (simp add: triggerSearchReindex_def keeps_def)

lemma reviewers_inv:
  assumes "section_inv env I C" "\<And>a b c. CallReviewers a b c \<in> C" "I s"
  shows "I (requestPullReviewers cfg env repo prID created paths s)"
  using keeps_do_call [OF assms(1,2)] assms(3) by (auto simp: requestPullReviewers_def keeps_def Let_def split: option.splits sum.splits)

lemma keeps_openPullRequest [keep]:
  assumes "section_inv env I C" "\<And>a b c d e. CallCreatePR a b c d e \<in> C" "\<And>a b c. CallReviewers a b c \<in> C"
  shows "keeps I (openPullRequest cfg env repo title body paths)"
proof (rule keepsI)
  fix s r s' assume "I s" and o': "openPullRequest cfg env repo title body paths s = (r, s')"
  let ?c = "CallCreatePR (rr_RepoUrl repo) (TrimSpace (rr_TargetBranch repo)) (TrimSpace (rr_Branch repo)) title body"
  obtain n s1 where t: "do_call env ?c s = (n, s1)" by (rule prod.exhaust)
  then have "I s1" using keepsD [OF keeps_do_call [OF assms(1,2)]] \<open>I s\<close> by blast
  then show "I s'" using o' t \<open>I s\<close> reviewers_inv [OF assms(1,3)]
    by (auto simp: openPullRequest_def Let_def split: if_splits sum.splits prod.splits)
qed

lemma keeps_attach [keep]:
  assumes "section_inv env I C" "\<And>a b c d e. CallCreatePR a b c d e \<in> C" "\<And>a b c. CallReviewers a b c \<in> C"
  shows "keeps I (attachPullRequest cfg env repo bu jobID)" "keeps I (attachPublishPullRequest cfg env repo rb msg jobID)"
  using keeps_openPullRequest [OF assms]
  by (simp_all add: attachPullRequest_def attachPublishPullRequest_def Let_def case_prod_unfold)

lemma followup_inv:
  assumes "section_inv env I C" "\<And>a b c d e. CallCreatePR a b c d e \<in> C" "\<And>a b c. CallReviewers a b c \<in> C" "\<And>a b c d e. CallReindex a b c d e \<in> C"
    "I s" "publish_followup cfg env jobID req entry repo s = (err, repo', s')"
  shows "I s'"
proof (cases "rr_Status repo = RsPublished")
  case True
  let ?s1 = "triggerSearchReindex cfg env repo ''publish'' s"
  have 1: "I ?s1" by (rule trigger_inv [OF assms(1,4,5)])
  show ?thesis
  proof (cases "bundle_RepositoryByStorageID (sb_bundle entry) (rr_StorageId repo)")
    case None
    then have "publish_followup cfg env jobID req entry repo s = (None, repo, ?s1)" using True by (simp add: publish_followup_def Let_def)
    then have "s' = ?s1" using assms(6) by simp
    then show ?thesis using 1 by simp
  next
    case (Some rb)
    obtain r2 s2 where a: "attachPublishPullRequest cfg env repo rb (pq_LogicalCommitMessage req) jobID ?s1 = (r2, s2)" by (rule prod.exhaust)
    have k: "keeps I (attachPublishPullRequest cfg env repo rb (pq_LogicalCommitMessage req) jobID)" by (rule keeps_attach(2) [OF assms(1-3)])
    have 2: "I s2" by (rule keepsD [OF k, OF a 1])
    obtain e3 s3 where u: "updateWorkspaceSyncRepository env jobID r2 s2 = (e3, s3)" by (rule prod.exhaust)
    have "I s3" by (rule keepsD [OF keeps_jobs(1) [OF assms(1)], OF u 2])
    moreover have "publish_followup cfg env jobID req entry repo s = (if rr_PullRequestUrl r2 \<noteq> '''' then (e3, r2, s3) else (None, r2, s2))"
      using True Some a u by (simp add: publish_followup_def Let_def)
    then have "s' = s3 \<or> s' = s2" using assms(6) by (cases "rr_PullRequestUrl r2 = ''''") simp_all
    ultimately show ?thesis using 2 by auto
  qed
next
  case False
  then have "publish_followup cfg env jobID req entry repo s = (None, repo, s)" by (simp add: publish_followup_def)
  then have "s' = s" using assms(6) by simp
  then show ?thesis using assms(5) by simp
qed

text \<open>A handler that returned without an error.\<close>

lemma andThen_None: "andThen f g s = (None, s') \<longleftrightarrow> (\<exists>s1. f s = (None, s1) \<and> g s1 = (None, s'))"
  by (auto simp: andThen_def split: prod.splits option.splits)

definition here :: "string \<Rightarrow> 'd sync_router \<Rightarrow> bool" where
  "here jobID s \<longleftrightarrow> gm_get (wy_jobs s) jobID \<noteq> None"

lemma here_holds: "here jobID s \<longleftrightarrow> job_holds (\<lambda>_. True) jobID s"
  by (auto simp: here_def job_holds_def)

lemma section_here: "rely env jobID \<Longrightarrow> section_inv env (here jobID) UNIV"
proof -
  assume r: "rely env jobID"
  have t: "here jobID (snd (tick env s))" if "here jobID s" for s
    using tick_holds [OF r, of "\<lambda>_. True" s "fst (tick env s)" "snd (tick env s)"] that by (simp add: here_holds cancel_stable_def)
  show ?thesis unfolding section_inv_def using t by (auto simp: here_def)
qed

text \<open>The job at the end: finished, and successful only if no repository failed or was in conflict.\<close>

definition good_status :: "RepoStatus \<Rightarrow> bool" where
  "good_status st \<longleftrightarrow> st \<notin> {RsConflict, RsFailed, RsRolledBack}"

definition finished_ok :: "SyncJob \<Rightarrow> bool" where
  "finished_ok job \<longleftrightarrow> terminal (jb_State job) \<and> (jb_State job = StSucceeded \<longrightarrow> list_all (\<lambda>r. good_status (rr_Status r)) (jb_Repositories job))"

lemma cancel_stable_finished: "cancel_stable finished_ok"
  by (simp add: cancel_stable_def finished_ok_def)

lemma summary_fold:
  "su_Failed (fold (\<lambda>repo. summary_add (rr_Status repo)) rs su) = su_Failed su + int (length (filter (\<lambda>r. rr_Status r = RsFailed) rs)) \<and>
   su_Conflicted (fold (\<lambda>repo. summary_add (rr_Status repo)) rs su) = su_Conflicted su + int (length (filter (\<lambda>r. rr_Status r \<in> {RsConflict, RsRolledBack}) rs))"
proof (induction rs arbitrary: su)
  case (Cons r rs)
  then show ?case by (cases "rr_Status r") simp_all
qed simp

lemma finished_job_ok: "finished_ok (finished_job now job)"
proof -
  let ?su = "fold (\<lambda>repo. summary_add (rr_Status repo)) (jb_Repositories job) (no_summary\<lparr>su_Total := int (length (jb_Repositories job))\<rparr>)"
  have c: "su_Failed ?su = int (length (filter (\<lambda>r. rr_Status r = RsFailed) (jb_Repositories job)))"
    "su_Conflicted ?su = int (length (filter (\<lambda>r. rr_Status r \<in> {RsConflict, RsRolledBack}) (jb_Repositories job)))"
    using summary_fold [of "jb_Repositories job"] by (simp_all add: no_summary_def)
  show ?thesis
  proof (cases "su_Failed ?su > 0 \<or> su_Conflicted ?su > 0")
    case True
    then show ?thesis by (simp add: finished_job_def updateWorkspaceSyncSummary_def finished_ok_def terminal_def)
  next
    case False
    then have "filter (\<lambda>r. rr_Status r = RsFailed) (jb_Repositories job) = []" "filter (\<lambda>r. rr_Status r \<in> {RsConflict, RsRolledBack}) (jb_Repositories job) = []"
      using c by simp_all
    then have "list_all (\<lambda>r. good_status (rr_Status r)) (jb_Repositories job)" by (auto simp: filter_empty_conv list_all_iff good_status_def)
    then show ?thesis using False by (simp add: finished_job_def updateWorkspaceSyncSummary_def finished_ok_def terminal_def)
  qed
qed


lemma end_holds:
  assumes "rely env jobID" "here jobID s" "updateWorkspaceSyncJob env jobID update s = (None, s')" "\<And>now job. finished_ok (update now job)"
  shows "job_holds finished_ok jobID s'"
  by (rule update_holds(1) [OF assms(1) _ _ assms(3), where P = "\<lambda>_. True"]) (use assms(2,4) in \<open>simp_all add: here_holds cancel_stable_def\<close>)

lemma ends_finished:
  assumes "rely env jobID" "here jobID s"
  shows "finalizeWorkspaceSyncJob env jobID s = (None, s') \<Longrightarrow> job_holds finished_ok jobID s'"
    "failWorkspaceSyncJob env jobID msg s = (None, s') \<Longrightarrow> job_holds finished_ok jobID s'"
    "cancelWorkspaceSyncJob env jobID s = (None, s') \<Longrightarrow> job_holds finished_ok jobID s'"
proof -
  have f: "finished_ok (failed_job msg now job)" "finished_ok (cancelled_job now job)" for now job
    by (simp_all add: finished_ok_def terminal_def failed_job_def cancelled_job_def)
  show "finalizeWorkspaceSyncJob env jobID s = (None, s') \<Longrightarrow> job_holds finished_ok jobID s'"
    unfolding finalizeWorkspaceSyncJob_def by (rule end_holds [OF assms _ finished_job_ok])
  show "failWorkspaceSyncJob env jobID msg s = (None, s') \<Longrightarrow> job_holds finished_ok jobID s'"
    unfolding failWorkspaceSyncJob_def by (rule end_holds [OF assms _ f(1)])
  show "cancelWorkspaceSyncJob env jobID s = (None, s') \<Longrightarrow> job_holds finished_ok jobID s'"
    unfolding cancelWorkspaceSyncJob_def by (rule end_holds [OF assms _ f(2)])
qed

lemma ends_sent:
  assumes "rely env jobID" "job_holds finished_ok jobID s" "sendWorkspaceSyncTerminalEvent env jobID msg s = (err, s')"
  shows "job_holds finished_ok jobID s'"
  using send_holds [OF assms(1) cancel_stable_finished assms(2)] assms(3) by (simp add: sendWorkspaceSyncTerminalEvent_def)

lemma fail_terminal_finished:
  assumes "rely env jobID" "here jobID s" "fail_terminal env jobID e msg s = (None, s')"
  shows "job_holds finished_ok jobID s'"
proof -
  obtain s1 where 1: "failWorkspaceSyncJob env jobID e s = (None, s1)" "sendWorkspaceSyncTerminalEvent env jobID msg s1 = (None, s')"
    using assms(3) by (auto simp: fail_terminal_def andThen_None)
  show ?thesis by (rule ends_sent [OF assms(1) ends_finished(2) [OF assms(1,2) 1(1)] 1(2)])
qed

lemma refresh_loop_finished:
  assumes "rely env jobID" "here jobID s" "refresh_loop env jobID results s = (None, s')"
  shows "job_holds finished_ok jobID s'"
  using assms(2,3)
proof (induction results arbitrary: s)
  case Nil
  then obtain s1 where 1: "finalizeWorkspaceSyncJob env jobID s = (None, s1)" "send env jobID EvJobCompleted None ''workspace refresh job completed'' s1 = (None, s')"
    by (auto simp: andThen_None)
  show ?case by (rule send_holds [OF assms(1) cancel_stable_finished ends_finished(1) [OF assms(1) Nil.prems(1) 1(1)] 1(2)])
next
  case (Cons result results)
  note inv = section_here [OF assms(1)]
  obtain d s1 where d: "is_done env jobID s = (d, s1)" by (rule prod.exhaust)
  have h1: "here jobID s1" by (rule keepsD [OF keeps_is_done [OF inv], OF d Cons.prems(1)])
  show ?case
  proof (cases d)
    case True
    then have "cancelWorkspaceSyncJob env jobID s1 = (None, s')" using Cons.prems(2) d by simp
    then show ?thesis by (rule ends_finished(3) [OF assms(1) h1])
  next
    case False
    then obtain s2 where 2: "refresh_one env jobID (workspaceRepositoryResultFromProbe result) s1 = (None, s2)" "refresh_loop env jobID results s2 = (None, s')"
      using Cons.prems(2) d by (auto simp: andThen_None)
    have "here jobID s2" by (rule keepsD [OF keeps_refresh_one [OF inv UNIV_I], OF 2(1) h1])
    then show ?thesis using Cons.IH 2(2) by blast
  qed
qed

lemma publish_loop_finished:
  assumes "rely env jobID" "here jobID s" "publish_loop cfg env jobID req entry results s = (None, s')"
  shows "job_holds finished_ok jobID s'"
  using assms(2,3)
proof (induction results arbitrary: s)
  case Nil
  then obtain s1 where 1: "finalizeWorkspaceSyncJob env jobID s = (None, s1)" "sendWorkspaceSyncTerminalEvent env jobID ''workspace publish job completed'' s1 = (None, s')"
    by (auto simp: andThen_None)
  show ?case by (rule ends_sent [OF assms(1) ends_finished(1) [OF assms(1) Nil.prems(1) 1(1)] 1(2)])
next
  case (Cons progress results)
  note inv = section_here [OF assms(1)]
  obtain d s1 where d: "is_done env jobID s = (d, s1)" by (rule prod.exhaust)
  have h1: "here jobID s1" by (rule keepsD [OF keeps_is_done [OF inv], OF d Cons.prems(1)])
  show ?case
  proof (cases d)
    case True
    then obtain s2 where 2: "cancelWorkspaceSyncJob env jobID s1 = (None, s2)" "sendWorkspaceSyncTerminalEvent env jobID ''workspace publish job cancelled'' s2 = (None, s')"
      using Cons.prems(2) d by (auto simp: andThen_None)
    show ?thesis by (rule ends_sent [OF assms(1) ends_finished(3) [OF assms(1) h1 2(1)] 2(2)])
  next
    case False
    let ?repo = "workspaceRepositoryResultFromPublish progress"
    obtain s2 where 2: "updateWorkspaceSyncRepository env jobID ?repo s1 = (None, s2)"
        "(case publish_followup cfg env jobID req entry ?repo s2 of (Some e, _, s) \<Rightarrow> (Some e, s)
          | (None, repo, s) \<Rightarrow> andThen (send env jobID (workspaceEventTypeForRepository repo) (Some repo) (rr_Message repo)) (publish_loop cfg env jobID req entry results) s) = (None, s')"
      using Cons.prems(2) d False by (auto simp: andThen_None Let_def)
    have h2: "here jobID s2" by (rule keepsD [OF keeps_jobs(1) [OF inv], OF 2(1) h1])
    obtain err repo s3 where f: "publish_followup cfg env jobID req entry ?repo s2 = (err, repo, s3)" by (rule prod_cases3)
    have h3: "here jobID s3" by (rule followup_inv [OF inv UNIV_I UNIV_I UNIV_I h2 f])
    obtain s4 where 4: "send env jobID (workspaceEventTypeForRepository repo) (Some repo) (rr_Message repo) s3 = (None, s4)"
        "publish_loop cfg env jobID req entry results s4 = (None, s')"
      using 2(2) f by (cases err) (auto simp: andThen_None)
    have "here jobID s4" by (rule keepsD [OF keeps_send [OF inv], OF 4(1) h3])
    then show ?thesis using Cons.IH 4(2) by blast
  qed
qed

lemma push_loop_finished:
  assumes "rely env jobID" "here jobID s" "push_loop cfg env jobID pushMode entry results s = (None, s')"
  shows "job_holds finished_ok jobID s'"
  using assms(2,3)
proof (induction results arbitrary: s)
  case Nil
  then obtain s1 where 1: "finalizeWorkspaceSyncJob env jobID s = (None, s1)" "sendWorkspaceSyncTerminalEvent env jobID ''workspace source push job completed'' s1 = (None, s')"
    by (auto simp: andThen_None)
  show ?case by (rule ends_sent [OF assms(1) ends_finished(1) [OF assms(1) Nil.prems(1) 1(1)] 1(2)])
next
  case (Cons progress results)
  note inv = section_here [OF assms(1)]
  obtain d s1 where d: "is_done env jobID s = (d, s1)" by (rule prod.exhaust)
  have h1: "here jobID s1" by (rule keepsD [OF keeps_is_done [OF inv], OF d Cons.prems(1)])
  show ?case
  proof (cases d)
    case True
    then obtain s2 where 2: "cancelWorkspaceSyncJob env jobID s1 = (None, s2)" "sendWorkspaceSyncTerminalEvent env jobID ''workspace source push job cancelled'' s2 = (None, s')"
      using Cons.prems(2) d by (auto simp: andThen_None)
    show ?thesis by (rule ends_sent [OF assms(1) ends_finished(3) [OF assms(1) h1 2(1)] 2(2)])
  next
    case False
    obtain repo s2 where a: "attachPullRequest cfg env (workspaceRepositoryResultFromPublish progress) (sb_commitBundle entry) jobID s1 = (repo, s2)" by (rule prod.exhaust)
    have h2: "here jobID s2" by (rule keepsD [OF keeps_attach(1) [OF inv UNIV_I UNIV_I], OF a h1])
    let ?s3 = "if rr_Status repo = RsPublished then triggerSearchReindex cfg env repo ''source_push'' s2 else s2"
    have h3: "here jobID ?s3" using h2 trigger_inv [OF inv UNIV_I h2] by simp
    let ?c = "\<lambda>s. CallOutcome (push_outcome (snapshot s jobID) pushMode repo)"
    obtain s4 where 4: "updateWorkspaceSyncRepository env jobID repo ?s3 = (None, s4)"
        "(case do_call env (?c s4) s4 of (n, s) \<Rightarrow> (case en_fails env n (?c s4) of
            Some e \<Rightarrow> fail_terminal env jobID (''failed to persist push outcome: '' @ e) ''workspace source push job failed'' s
          | None \<Rightarrow> andThen (send env jobID (workspaceEventTypeForRepository repo) (Some repo) (rr_Message repo)) (push_loop cfg env jobID pushMode entry results) s)) = (None, s')"
      using Cons.prems(2) d False a by (auto simp: andThen_None Let_def)
    have h4: "here jobID s4" by (rule keepsD [OF keeps_jobs(1) [OF inv], OF 4(1) h3])
    obtain n s5 where c: "do_call env (?c s4) s4 = (n, s5)" by (rule prod.exhaust)
    have h5: "here jobID s5" by (rule keepsD [OF keeps_do_call [OF inv UNIV_I], OF c h4])
    show ?thesis
    proof (cases "en_fails env n (?c s4)")
      case (Some e)
      then have "fail_terminal env jobID (''failed to persist push outcome: '' @ e) ''workspace source push job failed'' s5 = (None, s')" using 4(2) c by simp
      then show ?thesis by (rule fail_terminal_finished [OF assms(1) h5])
    next
      case None
      then obtain s6 where 6: "send env jobID (workspaceEventTypeForRepository repo) (Some repo) (rr_Message repo) s5 = (None, s6)"
          "push_loop cfg env jobID pushMode entry results s6 = (None, s')" using 4(2) c by (auto simp: andThen_None)
      have "here jobID s6" by (rule keepsD [OF keeps_send [OF inv], OF 6(1) h5])
      then show ?thesis using Cons.IH 6(2) by blast
    qed
  qed
qed


subsection \<open>A handler that returns has finished its job\<close>

lemma discarding_finished:
  assumes "rely env jobID" "discarding env ws b f s = (None, s')" "\<And>s1. f s = (None, s1) \<Longrightarrow> job_holds finished_ok jobID s1"
  shows "job_holds finished_ok jobID s'"
proof -
  obtain r s1 where f: "f s = (r, s1)" by (rule prod.exhaust)
  obtain n s2 where d: "do_call env (CallDiscard ws b) s1 = (n, s2)" by (rule prod.exhaust)
  have "r = None" "s' = s2" using assms(2) f d by (simp_all add: discarding_def)
  then show ?thesis using do_call_holds [OF assms(1) cancel_stable_finished assms(3) d] f by simp
qed

lemma run_started:
  assumes "rely env jobID" "here jobID s" "andThen (updateWorkspaceSyncJob env jobID start_job) (andThen (send env jobID EvJobStarted None msg) f) s = (None, s')"
  obtains s1 where "here jobID s1" "f s1 = (None, s')"
proof -
  note inv = section_here [OF assms(1)]
  obtain s1 s2 where 1: "updateWorkspaceSyncJob env jobID start_job s = (None, s1)" "send env jobID EvJobStarted None msg s1 = (None, s2)" "f s2 = (None, s')"
    using assms(3) by (auto simp: andThen_None)
  have "here jobID s1" by (rule keepsD [OF keeps_update [OF inv], OF 1(1) assms(2)])
  then have "here jobID s2" by (rule keepsD [OF keeps_send [OF inv], OF 1(2)])
  then show ?thesis using 1(3) that by blast
qed

lemma run_refresh_finished:
  assumes "rely env jobID" "here jobID s" "runWorkspaceRefreshJob cfg env jobID req s = (None, s')"
  shows "job_holds finished_ok jobID s'"
proof -
  note inv = section_here [OF assms(1)]
  let ?c = "CallProbe jobID (rq_WorkspaceId req) (rq_Repositories req)"
  obtain s1 where 1: "here jobID s1"
      "(if \<not> sg_fetcher cfg then failWorkspaceSyncJob env jobID ''fetcher cluster not configured'' s1
        else let c = ?c in case do_call env c s1 of (n, s) \<Rightarrow> (case en_progress env n c of Inl e \<Rightarrow> failWorkspaceSyncJob env jobID e s | Inr results \<Rightarrow> refresh_loop env jobID results s)) = (None, s')"
    by (rule run_started [OF assms(1,2) assms(3) [unfolded runWorkspaceRefreshJob_def]]) (rule that)
  obtain n s2 where c: "do_call env ?c s1 = (n, s2)" by (rule prod.exhaust)
  have h2: "here jobID s2" by (rule keepsD [OF keeps_do_call [OF inv UNIV_I], OF c 1(1)])
  show ?thesis
  proof (cases "sg_fetcher cfg")
    case False
    then show ?thesis using 1(2) ends_finished(2) [OF assms(1) 1(1)] by simp
  next
    case True
    then show ?thesis using 1(2) c ends_finished(2) [OF assms(1) h2] refresh_loop_finished [OF assms(1) h2]
      by (cases "en_progress env n ?c") simp_all
  qed
qed

lemma run_publish_finished:
  assumes "rely env jobID" "here jobID s" "runWorkspacePublishJob cfg env jobID req entry s = (None, s')"
  shows "job_holds finished_ok jobID s'"
proof -
  note inv = section_here [OF assms(1)]
  let ?c = "CallStageBundle (pq_BundleId req) (sb_workspaceID entry) (sb_data entry)" and ?d = "CallStartPublish jobID (sb_workspaceID entry) req"
  let ?f = "\<lambda>s. let c = ?c in case do_call env c s of (n, s) \<Rightarrow> (case en_fails env n c of
      Some e \<Rightarrow> fail_terminal env jobID e ''workspace publish job failed'' s
    | None \<Rightarrow> let c = ?d in case do_call env c s of (n, s) \<Rightarrow> (case en_progress env n c of
        Inl e \<Rightarrow> fail_terminal env jobID e ''workspace publish job failed'' s | Inr results \<Rightarrow> publish_loop cfg env jobID req entry results s))"
  obtain s1 where 1: "here jobID s1"
      "(if \<not> sg_fetcher cfg then fail_terminal env jobID ''fetcher cluster not configured'' ''workspace publish job failed'' s1
        else discarding env (sb_workspaceID entry) (pq_BundleId req) ?f s1) = (None, s')"
    by (rule run_started [OF assms(1,2) assms(3) [unfolded runWorkspacePublishJob_def]]) (rule that)
  have f: "job_holds finished_ok jobID s4" if "?f s1 = (None, s4)" for s4
  proof -
    obtain n s2 where c: "do_call env ?c s1 = (n, s2)" by (rule prod.exhaust)
    have h2: "here jobID s2" by (rule keepsD [OF keeps_do_call [OF inv UNIV_I], OF c 1(1)])
    obtain m s3 where d: "do_call env ?d s2 = (m, s3)" by (rule prod.exhaust)
    have h3: "here jobID s3" by (rule keepsD [OF keeps_do_call [OF inv UNIV_I], OF d h2])
    show ?thesis
    proof (cases "en_fails env n ?c")
      case (Some e)
      then show ?thesis using that c fail_terminal_finished [OF assms(1) h2] by simp
    next
      case None
      then show ?thesis using that c d fail_terminal_finished [OF assms(1) h3] publish_loop_finished [OF assms(1) h3]
        by (cases "en_progress env m ?d") simp_all
    qed
  qed
  show ?thesis
  proof (cases "sg_fetcher cfg")
    case True
    then have "discarding env (sb_workspaceID entry) (pq_BundleId req) ?f s1 = (None, s')" using 1(2) by simp
    then show ?thesis by (rule discarding_finished [OF assms(1) _ f])
  next
    case False
    then show ?thesis using 1(2) fail_terminal_finished [OF assms(1) 1(1)] by simp
  qed
qed

lemma run_push_finished:
  assumes "rely env jobID" "here jobID s" "runWorkspaceCommitPushJob cfg env jobID req branch entry s = (None, s')"
  shows "job_holds finished_ok jobID s'"
proof -
  note inv = section_here [OF assms(1)]
  let ?m = "resolveSourcePushMode (sq_SourcePushMode req) (sg_SourcePushMode cfg)"
  let ?c = "CallStageCommits (sq_BundleId req) (sb_workspaceID entry) (sb_data entry)" and ?d = "CallStartPush jobID (sb_workspaceID entry) (sq_BundleId req) branch ?m"
  let ?f = "\<lambda>s. let c = ?c in case do_call env c s of (n, s) \<Rightarrow> (case en_fails env n c of
      Some e \<Rightarrow> fail_terminal env jobID e ''workspace source push job failed'' s
    | None \<Rightarrow> let pushMode = ?m; c = CallStartPush jobID (sb_workspaceID entry) (sq_BundleId req) branch pushMode in case do_call env c s of (n, s) \<Rightarrow> (case en_progress env n c of
        Inl e \<Rightarrow> fail_terminal env jobID e ''workspace source push job failed'' s | Inr results \<Rightarrow> push_loop cfg env jobID pushMode entry results s))"
  obtain s1 where 1: "here jobID s1"
      "(if \<not> sg_fetcher cfg then fail_terminal env jobID ''fetcher cluster not configured'' ''workspace source push job failed'' s1
        else discarding env (sb_workspaceID entry) (sq_BundleId req) ?f s1) = (None, s')"
    by (rule run_started [OF assms(1,2) assms(3) [unfolded runWorkspaceCommitPushJob_def]]) (rule that)
  have f: "job_holds finished_ok jobID s4" if "?f s1 = (None, s4)" for s4
  proof -
    obtain n s2 where c: "do_call env ?c s1 = (n, s2)" by (rule prod.exhaust)
    have h2: "here jobID s2" by (rule keepsD [OF keeps_do_call [OF inv UNIV_I], OF c 1(1)])
    obtain m s3 where d: "do_call env ?d s2 = (m, s3)" by (rule prod.exhaust)
    have h3: "here jobID s3" by (rule keepsD [OF keeps_do_call [OF inv UNIV_I], OF d h2])
    show ?thesis
    proof (cases "en_fails env n ?c")
      case (Some e)
      then show ?thesis using that c fail_terminal_finished [OF assms(1) h2] by simp
    next
      case None
      then show ?thesis using that c d fail_terminal_finished [OF assms(1) h3] push_loop_finished [OF assms(1) h3]
        by (cases "en_progress env m ?d") simp_all
    qed
  qed
  show ?thesis
  proof (cases "sg_fetcher cfg")
    case True
    then have "discarding env (sb_workspaceID entry) (sq_BundleId req) ?f s1 = (None, s')" using 1(2) by simp
    then show ?thesis by (rule discarding_finished [OF assms(1) _ f])
  next
    case False
    then show ?thesis using 1(2) fail_terminal_finished [OF assms(1) 1(1)] by simp
  qed
qed

lemma store_here: "storeWorkspaceSyncJob env job s = (None, s') \<Longrightarrow> gm_get (wy_jobs s') (jb_JobId job) = Some \<lparr>je_job = job, je_cancel = False, je_done = False\<rparr>"
  by (auto simp: storeWorkspaceSyncJob_def split: prod.splits option.splits)

lemma run_job_finished:
  assumes r: "rely env (jb_JobId job)" and "run_job env job msg run s = (None, s')"
    and run: "\<And>s1 s2. here (jb_JobId job) s1 \<Longrightarrow> run s1 = (None, s2) \<Longrightarrow> job_holds finished_ok (jb_JobId job) s2"
  shows "job_holds finished_ok (jb_JobId job) s'"
proof -
  let ?id = "jb_JobId job"
  note inv = section_here [OF r]
  obtain s1 s2 where 1: "storeWorkspaceSyncJob env job s = (None, s1)" "send env ?id EvJobAccepted None msg s1 = (None, s2)"
      "(case run (set_cancel env ?id s2) of (err, s) \<Rightarrow> (err, call_cancel ?id s)) = (None, s')"
    using assms(2) by (auto simp: run_job_def andThen_None)
  have "here ?id s1" using store_here [OF 1(1)] by (simp add: here_def)
  then have h2: "here ?id s2" by (rule keepsD [OF keeps_send [OF inv], OF 1(2)])
  obtain n s3 where t: "tick env s2 = (n, s3)" by (rule prod.exhaust)
  have "here ?id s3" by (rule section_invD(1) [OF inv h2 t])
  then have h4: "here ?id (set_cancel env ?id s2)" using t by (auto simp: set_cancel_def here_def split: option.splits)
  obtain e s5 where r5: "run (set_cancel env ?id s2) = (e, s5)" by (rule prod.exhaust)
  then have "e = None" "s' = call_cancel ?id s5" using 1(3) by simp_all
  then have "job_holds finished_ok ?id s5" using run [OF h4] r5 by simp
  then show ?thesis using \<open>s' = call_cancel ?id s5\<close> by (auto simp: job_holds_def call_cancel_def)
qed


lemma new_job_ids [simp]: "jb_JobId (newWorkspaceSyncJob i now r c) = i" "jb_JobId (newWorkspacePublishJob i now p b c) = i"
    "jb_JobId (newWorkspaceCommitPushJob i now q bu br c) = i" "jb_JobId (failed_job m now job) = jb_JobId job"
  by (simp_all add: newWorkspaceSyncJob_def newWorkspacePublishJob_def newWorkspaceCommitPushJob_def failed_job_def)

lemma deny_push_finished:
  assumes "rely env (jb_JobId job)" "deny_push env job e msg s = (None, s')"
  shows "job_holds finished_ok (jb_JobId job) s'"
proof -
  obtain now s1 where 1: "storeWorkspaceSyncJob env (failed_job e now job) s = (None, s1)" "send env (jb_JobId job) EvJobCompleted None msg s1 = (None, s')"
    using assms(2) by (auto simp: deny_push_def andThen_None)
  have "job_holds finished_ok (jb_JobId job) s1"
    using store_here [OF 1(1)] by (auto simp: job_holds_def finished_ok_def terminal_def failed_job_def)
  then show ?thesis by (rule send_holds [OF assms(1) cancel_stable_finished _ 1(2)])
qed

lemma publish_finished:
  assumes "rely env jobID" "PublishWorkspace cfg env jobID clientID req s = (None, s')"
  shows "job_holds finished_ok jobID s'"
proof -
  obtain entry s1 now where "run_job env (newWorkspacePublishJob jobID now req (sb_bundle entry) clientID) ''workspace publish job accepted''
      (runWorkspacePublishJob cfg env jobID req entry) s1 = (None, s')"
    using assms(2) by (auto simp: PublishWorkspace_def split: prod.splits option.splits if_splits)
  from run_job_finished [OF _ this] show ?thesis using assms(1) run_publish_finished [OF assms(1)] by simp
qed

text \<open>The three ways a push request can go on once its bundle is found.\<close>

lemma push_cases:
  assumes "PushWorkspaceCommits cfg env jobID clientID ident req s = (err, s')"
  obtains (refused) "err \<noteq> None" "s' = snd (getWorkspaceBundle env (sq_BundleId req) s)"
  | (denied) job e msg s1 where "jb_JobId job = jobID" "s1 = snd (getWorkspaceBundle env (sq_BundleId req) s)" "deny_push env job e msg s1 = (err, s')"
  | (accepted) entry s1 bu branch where "getWorkspaceBundle env (sq_BundleId req) s = (Some entry, s1)" "sb_commitBundle entry = Some bu"
      "resolveSourcePushLogicalBranch (sq_LogicalBranch req) (Some bu) = Inr branch"
      "er_Effect (evalPolicy cfg (push_policy_request cfg (newWorkspaceCommitPushJob jobID (en_now env (wy_tick s1)) req (Some bu) branch clientID) req branch (Some bu))) = EffectAllow"
      "enforceOwnershipGate (sg_gate cfg) ident branch (Some bu) = None"
      "run_job env (newWorkspaceCommitPushJob jobID (en_now env (wy_tick s1)) req (Some bu) branch clientID) ''workspace source push job accepted''
         (runWorkspaceCommitPushJob cfg env jobID req branch entry) s1 = (err, s')"
proof -
  obtain b s1 where g: "getWorkspaceBundle env (sq_BundleId req) s = (b, s1)" by (rule prod.exhaust)
  show ?thesis
  proof (cases b)
    case None
    then have "err \<noteq> None \<and> s' = s1" using assms g by (auto simp: PushWorkspaceCommits_def)
    then show ?thesis using refused g by simp
  next
    case (Some entry)
    show ?thesis
    proof (cases "sb_commitBundle entry = None \<or> sq_WorkspaceId req \<noteq> '''' \<and> sq_WorkspaceId req \<noteq> sb_workspaceID entry \<or>
        (\<exists>e. resolveSourcePushLogicalBranch (sq_LogicalBranch req) (sb_commitBundle entry) = Inl e)")
      case True
      then have "err \<noteq> None \<and> s' = s1" using assms g Some by (auto simp: PushWorkspaceCommits_def split: if_splits sum.splits)
      then show ?thesis using refused g by simp
    next
      case False
      then obtain bu branch where b: "sb_commitBundle entry = Some bu" "resolveSourcePushLogicalBranch (sq_LogicalBranch req) (Some bu) = Inr branch"
        by (metis not_None_eq sum.exhaust)
      let ?job = "newWorkspaceCommitPushJob jobID (en_now env (wy_tick s1)) req (Some bu) branch clientID"
      let ?r = "evalPolicy cfg (push_policy_request cfg ?job req branch (Some bu))"
      have w: "\<not> (sq_WorkspaceId req \<noteq> '''' \<and> sq_WorkspaceId req \<noteq> sb_workspaceID entry)" using False by blast
      have p: "PushWorkspaceCommits cfg env jobID clientID ident req s = (if er_Effect ?r \<noteq> EffectAllow then deny_push env ?job (''policy denied: '' @ er_Reason ?r) (''push denied by policy: '' @ er_Reason ?r) s1
          else case enforceOwnershipGate (sg_gate cfg) ident branch (Some bu) of
            Some e \<Rightarrow> deny_push env ?job (gate_text e) (''push denied by ownership gate: '' @ gate_text e) s1
          | None \<Rightarrow> run_job env ?job ''workspace source push job accepted'' (runWorkspaceCommitPushJob cfg env jobID req branch entry) s1)"
        unfolding PushWorkspaceCommits_def g Some prod.case option.case b(1) b(2) sum.case Let_def if_not_P [OF w] by simp
      show ?thesis
      proof (cases "er_Effect ?r = EffectAllow")
        case False
        then have d: "deny_push env ?job (''policy denied: '' @ er_Reason ?r) (''push denied by policy: '' @ er_Reason ?r) s1 = (err, s')" using p assms by simp
        show ?thesis by (rule denied [OF _ _ d]) (simp_all add: g)
      next
        case allow: True
        show ?thesis
        proof (cases "enforceOwnershipGate (sg_gate cfg) ident branch (Some bu)")
          case (Some e)
          then have d: "deny_push env ?job (gate_text e) (''push denied by ownership gate: '' @ gate_text e) s1 = (err, s')" using p allow assms by simp
          show ?thesis by (rule denied [OF _ _ d]) (simp_all add: g)
        next
          case None
          then have r: "run_job env ?job ''workspace source push job accepted'' (runWorkspaceCommitPushJob cfg env jobID req branch entry) s1 = (err, s')" using p allow assms by simp
          show ?thesis by (rule accepted [OF _ b allow None r]) (simp add: g \<open>b = Some entry\<close>)
        qed
      qed
    qed
  qed
qed

lemma push_finished:
  assumes "rely env jobID" "PushWorkspaceCommits cfg env jobID clientID ident req s = (None, s')"
  shows "job_holds finished_ok jobID s'"
  using assms(2)
proof (cases rule: push_cases)
  case (denied job e msg s1)
  then show ?thesis using deny_push_finished [of env job e msg s1 s'] assms(1) by simp
next
  case (accepted entry s1 bu branch)
  from run_job_finished [OF _ accepted(6)] show ?thesis using assms(1) run_push_finished [OF assms(1)] by simp
qed simp


subsection \<open>What a push asks of the other services\<close>

text \<open>The calls of a push of the given data to the given branch.\<close>

definition push_calls :: "bytes \<Rightarrow> string \<Rightarrow> call set" where
  "push_calls data branch =
     {c. case c of
           CallStageCommits b w d \<Rightarrow> d = data
         | CallStartPush j w b l m \<Rightarrow> l = branch
         | CallStageBundle b w d \<Rightarrow> False
         | CallStartPublish j w r \<Rightarrow> False
         | CallProbe j w rs \<Rightarrow> False
         | CallIngest u b p \<Rightarrow> False
         | _ \<Rightarrow> True}"

lemma push_calls_in [simp]:
  "CallDiscard a b \<in> push_calls d l" "CallReindex a b c e f \<in> push_calls d l" "CallOutcome po \<in> push_calls d l"
  "CallCreatePR a b c e f \<in> push_calls d l" "CallReviewers a b rs \<in> push_calls d l" "CallStageCommits a b d \<in> push_calls d l" "CallStartPush a b c l e \<in> push_calls d l"
  by (simp_all add: push_calls_def)

lemma section_calls:
  assumes "rely env jobID" "C \<subseteq> X"
  shows "section_inv env (\<lambda>s. set (wy_calls s) \<subseteq> X) C"
proof -
  have "wy_calls (snd (tick env s)) = wy_calls s" for s using tick_calls [OF assms(1), of s "fst (tick env s)" "snd (tick env s)"] by simp
  then show ?thesis using assms(2) unfolding section_inv_def by auto
qed

lemma keeps_push_loop:
  assumes inv: "section_inv env I (push_calls d l)"
  shows "keeps I (push_loop cfg env jobID pushMode entry results)"
proof (induction results)
  case Nil
  show ?case unfolding push_loop.simps by (intro keeps_andThen keeps_jobs [OF inv])
next
  case (Cons progress results)
  let ?c = "\<lambda>repo s. CallOutcome (push_outcome (snapshot s jobID) pushMode repo)"
  have rest: "keeps I (\<lambda>s. let c = ?c repo s in case do_call env c s of (n, s) \<Rightarrow> (case en_fails env n c of
      Some e \<Rightarrow> fail_terminal env jobID (''failed to persist push outcome: '' @ e) ''workspace source push job failed'' s
    | None \<Rightarrow> andThen (send env jobID (workspaceEventTypeForRepository repo) (Some repo) (rr_Message repo)) (push_loop cfg env jobID pushMode entry results) s))" for repo
  proof -
    have 1: "I (snd (do_call env (?c repo s) s))" if "I s" for s using keeps_do_call [OF inv push_calls_in(3)] that by (simp add: keeps_def)
    have 2: "keeps I (andThen (send env jobID (workspaceEventTypeForRepository repo) (Some repo) (rr_Message repo)) (push_loop cfg env jobID pushMode entry results))"
      by (intro keeps_andThen keeps_send [OF inv] Cons)
    have 3: "keeps I (fail_terminal env jobID e m)" for e m by (rule keeps_jobs(6) [OF inv])
    show ?thesis unfolding keeps_def Let_def
    proof (intro allI impI)
      fix s assume "I s"
      obtain n s1 where d: "do_call env (?c repo s) s = (n, s1)" by (rule prod.exhaust)
      have "I s1" using 1 [OF \<open>I s\<close>] d by simp
      then show "I (snd (case do_call env (?c repo s) s of (n, sa) \<Rightarrow> (case en_fails env n (?c repo s) of
          Some e \<Rightarrow> fail_terminal env jobID (''failed to persist push outcome: '' @ e) ''workspace source push job failed'' sa
        | None \<Rightarrow> andThen (send env jobID (workspaceEventTypeForRepository repo) (Some repo) (rr_Message repo)) (push_loop cfg env jobID pushMode entry results) sa)))"
        using 2 3 unfolding keeps_def d by (cases "en_fails env n (?c repo s)") simp_all
    qed
  qed
  have can: "keeps I (andThen (cancelWorkspaceSyncJob env jobID) (sendWorkspaceSyncTerminalEvent env jobID ''workspace source push job cancelled''))"
    by (intro keeps_andThen keeps_jobs [OF inv])
  have upd: "keeps I (andThen (updateWorkspaceSyncRepository env jobID repo) (\<lambda>s. let c = ?c repo s in case do_call env c s of (n, s) \<Rightarrow> (case en_fails env n c of
      Some e \<Rightarrow> fail_terminal env jobID (''failed to persist push outcome: '' @ e) ''workspace source push job failed'' s
    | None \<Rightarrow> andThen (send env jobID (workspaceEventTypeForRepository repo) (Some repo) (rr_Message repo)) (push_loop cfg env jobID pushMode entry results) s)))" for repo
    by (intro keeps_andThen keeps_jobs(1) [OF inv] rest)
  show ?case unfolding keeps_def
  proof (intro allI impI)
    fix s assume "I s"
    obtain dn s1 where d: "is_done env jobID s = (dn, s1)" by (rule prod.exhaust)
    have i1: "I s1" by (rule keepsD [OF keeps_is_done [OF inv], OF d \<open>I s\<close>])
    obtain repo s2 where a: "attachPullRequest cfg env (workspaceRepositoryResultFromPublish progress) (sb_commitBundle entry) jobID s1 = (repo, s2)" by (rule prod.exhaust)
    have i2: "I s2" by (rule keepsD [OF keeps_attach(1) [OF inv push_calls_in(4,5)], OF a i1])
    have i3: "I (if rr_Status repo = RsPublished then triggerSearchReindex cfg env repo ''source_push'' s2 else s2)"
      using i2 trigger_inv [OF inv push_calls_in(2) i2] by simp
    show "I (snd (push_loop cfg env jobID pushMode entry (progress # results) s))"
      unfolding push_loop.simps d a prod.case Let_def
      using can i1 upd [unfolded keeps_def Let_def] i3 unfolding keeps_def by (cases dn) simp_all
  qed
qed


lemma keeps_discarding:
  assumes "section_inv env I C" "CallDiscard ws b \<in> C" "keeps I f"
  shows "keeps I (discarding env ws b f)"
proof (rule keepsI)
  fix s r s' assume "I s" "discarding env ws b f s = (r, s')"
  moreover obtain e s1 where f: "f s = (e, s1)" by (rule prod.exhaust)
  moreover have "I s1" by (rule keepsD [OF assms(3), OF f \<open>I s\<close>])
  ultimately show "I s'" using keeps_do_call [OF assms(1,2)] by (auto simp: discarding_def keeps_def)
qed

lemma keeps_run_push:
  assumes inv: "section_inv env I (push_calls (sb_data entry) branch)"
  shows "keeps I (runWorkspaceCommitPushJob cfg env jobID req branch entry)"
proof -
  let ?m = "resolveSourcePushMode (sq_SourcePushMode req) (sg_SourcePushMode cfg)"
  let ?c = "CallStageCommits (sq_BundleId req) (sb_workspaceID entry) (sb_data entry)" and ?d = "CallStartPush jobID (sb_workspaceID entry) (sq_BundleId req) branch ?m"
  let ?f = "\<lambda>s. let c = ?c in case do_call env c s of (n, s) \<Rightarrow> (case en_fails env n c of
      Some e \<Rightarrow> fail_terminal env jobID e ''workspace source push job failed'' s
    | None \<Rightarrow> let pushMode = ?m; c = CallStartPush jobID (sb_workspaceID entry) (sq_BundleId req) branch pushMode in case do_call env c s of (n, s) \<Rightarrow> (case en_progress env n c of
        Inl e \<Rightarrow> fail_terminal env jobID e ''workspace source push job failed'' s | Inr results \<Rightarrow> push_loop cfg env jobID pushMode entry results s))"
  have ft: "keeps I (fail_terminal env jobID e m)" for e m by (rule keeps_jobs(6) [OF inv])
  have f: "keeps I ?f"
  proof (rule keepsI)
    fix s r s' assume s: "I s" and r: "?f s = (r, s')"
    obtain n s2 where c: "do_call env ?c s = (n, s2)" by (rule prod.exhaust)
    have i2: "I s2" by (rule keepsD [OF keeps_do_call [OF inv push_calls_in(6)], OF c s])
    obtain m s3 where d: "do_call env ?d s2 = (m, s3)" by (rule prod.exhaust)
    have i3: "I s3" by (rule keepsD [OF keeps_do_call [OF inv push_calls_in(7)], OF d i2])
    show "I s'"
    proof (cases "en_fails env n ?c")
      case (Some e)
      then have "fail_terminal env jobID e ''workspace source push job failed'' s2 = (r, s')" using r c by simp
      then show ?thesis by (rule keepsD [OF ft _ i2])
    next
      case None
      show ?thesis
      proof (cases "en_progress env m ?d")
        case (Inl e)
        then have "fail_terminal env jobID e ''workspace source push job failed'' s3 = (r, s')" using r c d None by simp
        then show ?thesis by (rule keepsD [OF ft _ i3])
      next
        case (Inr results)
        then have "push_loop cfg env jobID ?m entry results s3 = (r, s')" using r c d None by simp
        then show ?thesis by (rule keepsD [OF keeps_push_loop [OF inv] _ i3])
      qed
    qed
  qed
  have "keeps I (\<lambda>s. if \<not> sg_fetcher cfg then fail_terminal env jobID ''fetcher cluster not configured'' ''workspace source push job failed'' s
      else discarding env (sb_workspaceID entry) (sq_BundleId req) ?f s)"
    using ft keeps_discarding [OF inv push_calls_in(1) f] by (cases "sg_fetcher cfg") simp_all
  then show ?thesis unfolding runWorkspaceCommitPushJob_def by (intro keeps_andThen keeps_update [OF inv] keeps_send [OF inv])
qed

lemma keeps_run_job:
  assumes inv: "section_inv env I C" and "keeps I run"
  shows "keeps I (run_job env job msg run)"
proof -
  have set: "I (set_cancel env (jb_JobId job) s)" if "I s" for s
  proof -
    obtain n s1 where t: "tick env s = (n, s1)" by (rule prod.exhaust)
    have "I s1" by (rule section_invD(1) [OF inv that t])
    then show ?thesis using t section_invD(4) [OF inv] by (auto simp: set_cancel_def split: option.splits)
  qed
  have call: "I (call_cancel i s)" if "I s" for i s using that section_invD(4) [OF inv that] by (auto simp: call_cancel_def split: option.splits)
  have "keeps I (\<lambda>s. case run (set_cancel env (jb_JobId job) s) of (err, s) \<Rightarrow> (err, call_cancel (jb_JobId job) s))"
  proof (rule keepsI)
    fix s r s' assume s: "I s" and r: "(case run (set_cancel env (jb_JobId job) s) of (err, s) \<Rightarrow> (err, call_cancel (jb_JobId job) s)) = (r, s')"
    obtain e s1 where e: "run (set_cancel env (jb_JobId job) s) = (e, s1)" by (rule prod.exhaust)
    have "I s1" by (rule keepsD [OF assms(2), OF e set [OF s]])
    then show "I s'" using r e call by auto
  qed
  then show ?thesis unfolding run_job_def by (intro keeps_andThen keeps_store [OF inv] keeps_send [OF inv])
qed

lemma keeps_deny:
  assumes "section_inv env I C" shows "keeps I (deny_push env job e msg)"
proof -
  have "keeps I (andThen (storeWorkspaceSyncJob env j) (send env i EvJobCompleted None msg))" for j i
    by (intro keeps_andThen keeps_store [OF assms] keeps_send [OF assms])
  then show ?thesis by (simp add: keeps_def deny_push_def)
qed

lemma get_bundle_calls: "rely env jobID \<Longrightarrow> wy_calls (snd (getWorkspaceBundle env b s)) = wy_calls s"
  using tick_calls [of env jobID s "fst (tick env s)" "snd (tick env s)"]
  by (auto simp: getWorkspaceBundle_def split: prod.splits option.splits)

subsection \<open>Properties\<close>

text \<open>C28: Nothing of a source push leaves the router unless the push is allowed. Every call to another service that \<open>PushWorkspaceCommits\<close> adds belongs to a bundle that
  was found under the requested identifier, whose repositories and branch the workspace policy allows for the client and whose changes pass the ownership gate;
  the data that is staged is the data of that bundle, and the branch of the push is the branch that was checked. \<close>

theorem push_gated:
  assumes r: "rely env jobID" and p: "PushWorkspaceCommits cfg env jobID clientID ident req s = (err, s')" and c: "c \<in> set (wy_calls s')" "c \<notin> set (wy_calls s)"
  shows "\<exists>entry s1 bu branch. getWorkspaceBundle env (sq_BundleId req) s = (Some entry, s1) \<and> sb_commitBundle entry = Some bu \<and>
    resolveSourcePushLogicalBranch (sq_LogicalBranch req) (Some bu) = Inr branch \<and>
    er_Effect (evalPolicy cfg (push_policy_request cfg (newWorkspaceCommitPushJob jobID (en_now env (wy_tick s1)) req (Some bu) branch clientID) req branch (Some bu))) = EffectAllow \<and>
    enforceOwnershipGate (sg_gate cfg) ident branch (Some bu) = None \<and> c \<in> push_calls (sb_data entry) branch"
  using p
proof (cases rule: push_cases)
  case refused
  then show ?thesis using c get_bundle_calls [OF r] by simp
next
  case (denied job e msg s1)
  have inv: "section_inv env (\<lambda>x. set (wy_calls x) \<subseteq> set (wy_calls s)) {}" by (rule section_calls [OF r]) simp
  have "set (wy_calls s1) \<subseteq> set (wy_calls s)" unfolding denied(2) get_bundle_calls [OF r] by simp
  from keepsD [OF keeps_deny [OF inv], OF denied(3) this] show ?thesis using c by blast
next
  case (accepted entry s1 bu branch)
  let ?X = "set (wy_calls s) \<union> push_calls (sb_data entry) branch"
  have inv: "section_inv env (\<lambda>x. set (wy_calls x) \<subseteq> ?X) (push_calls (sb_data entry) branch)" by (rule section_calls [OF r]) simp
  have "wy_calls s1 = wy_calls s" using get_bundle_calls [OF r, of "sq_BundleId req" s] accepted(1) by simp
  then have "set (wy_calls s1) \<subseteq> ?X" by simp
  from keepsD [OF keeps_run_job [OF inv keeps_run_push [OF inv]], OF accepted(6) this] have "c \<in> push_calls (sb_data entry) branch" using c by blast
  then show ?thesis using accepted(1-5) by blast
qed

text \<open>C29: A handler that returns without an error has finished its job, whatever cancellations of the job come in between: a refresh, a publish or a source push leaves it
  succeeded, failed or cancelled, and succeeded only if none of its repositories failed, was in conflict or was rolled back. \<close>

theorem handlers_finish:
  assumes "rely env jobID"
  shows "(RefreshWorkspace cfg env jobID clientID rreq s = (None, s') \<longrightarrow> job_holds finished_ok jobID s') \<and>
    (PublishWorkspace cfg env jobID clientID preq s = (None, s') \<longrightarrow> job_holds finished_ok jobID s') \<and>
    (PushWorkspaceCommits cfg env jobID clientID ident req s = (None, s') \<longrightarrow> job_holds finished_ok jobID s')"
proof (intro conjI impI)
  assume "RefreshWorkspace cfg env jobID clientID rreq s = (None, s')"
  from run_job_finished [OF _ this [unfolded RefreshWorkspace_def]] show "job_holds finished_ok jobID s'" using assms run_refresh_finished [OF assms] by simp
qed (rule publish_finished [OF assms] push_finished [OF assms], assumption)+


text \<open>A quiet environment, a router without a durable store, and one repository.\<close>

definition demo_codec :: "(SyncJob, nat) ws_codec" where
  "demo_codec =
     \<lparr>wc_job_id = jb_JobId, wc_job = (\<lambda>_. Inl ''''), wc_unjob = (\<lambda>_. None), wc_bundle = (\<lambda>_. Inl ''''), wc_unbundle = (\<lambda>_. None),
      wc_audit = (\<lambda>_. Inl ''''), wc_unaudit = (\<lambda>_. None), wc_entry = (\<lambda>_. Inl ''''), wc_unentry = (\<lambda>_. None), wc_snapshot = (\<lambda>_. Inl ''''),
      wc_unsnapshot = (\<lambda>_. None), wc_checkpoint = (\<lambda>_. Inl ''''), wc_uncheckpoint = (\<lambda>_. None)\<rparr>"

definition demo_ref :: WorkspaceRepositoryRef where
  "demo_ref = \<lparr>wr_StorageId = ''r'', wr_DisplayPath = ''d'', wr_RepoUrl = ''u'', wr_Branch = ''main'', wr_BaseCommit = ''c0''\<rparr>"

definition demo_progress :: "RepoSyncStatus \<Rightarrow> RepoSyncProgress" where
  "demo_progress st = \<lparr>pg_Repository = Some demo_ref, pg_Status = st, pg_RemoteCommit = ''c1'', pg_Message = '''', pg_PushedCommit = '''', pg_TargetBranch = '''', pg_ConflictReason = ''''\<rparr>"

definition demo_env :: "RepoSyncStatus \<Rightarrow> nat sync_env" where
  "demo_env st =
     \<lparr>en_codec = demo_codec, en_others = (\<lambda>_ s. s), en_now = (\<lambda>_. 0), en_write = (\<lambda>_. WriteOk), en_send = (\<lambda>_. None), en_fails = (\<lambda>_ _. None),
      en_progress = (\<lambda>_ _. Inr [Some (demo_progress st)]), en_pr = (\<lambda>_ _. Inl ''none'')\<rparr>"

definition demo_cfg :: sync_config where
  "demo_cfg = \<lparr>sg_PolicyGateEnabled = False, sg_policyCfg = None, sg_SourcePushMode = '''',
     sg_gate = \<lparr>gr_OwnershipGateEnabled = False, gr_ownershipResolver = None, gr_ownershipResolverFull = None, gr_mergeRequests = None\<rparr>,
     sg_fetcher = True, sg_search = False\<rparr>"

definition demo_bundle :: SourceCommitBundle where
  "demo_bundle = \<lparr>scb_WorkspaceID = ''w'', scb_PrincipalID = ''p'', scb_LogicalBranch = '''', scb_Commits = []\<rparr>"

definition demo_router :: "nat sync_router" where
  "demo_router =
     \<lparr>wy_jobs = [],
      wy_bundles = [''b'' \<mapsto> \<lparr>sb_bundleID = ''b'', sb_workspaceID = ''w'', sb_data = [1], sb_bundle = None, sb_commitBundle = Some demo_bundle, sb_createdAt = 0, sb_expiresAt = 1800\<rparr>],
      wy_store = None, wy_sent = [], wy_calls = [], wy_tick = 0\<rparr>"

definition demo_push :: PushRequest where
  "demo_push = \<lparr>sq_WorkspaceId = ''w'', sq_BundleId = ''b'', sq_LogicalBranch = ''feature'', sq_SourcePushMode = PushUnspecified\<rparr>"

definition demo_refresh :: RefreshRequest where
  "demo_refresh = \<lparr>rq_WorkspaceId = ''w'', rq_Repositories = [demo_ref], rq_AllowFastForwardOnly = False, rq_RejectIfLocalChanges = False\<rparr>"

definition demo_ident :: Identity where
  "demo_ident = \<lparr>id_Subject = ''s'', id_Email = '''', id_Groups = [], id_ClientID = ''''\<rparr>"

lemma demo_rely: "rely (demo_env st) jobID"
  by (simp add: rely_def demo_env_def only_cancelled_def)

lemma demo_push_run:
  "case PushWorkspaceCommits demo_cfg (demo_env RyPublished) ''j'' ''c'' demo_ident demo_push demo_router of
     (err, s) \<Rightarrow> err = None \<and> CallStartPush ''j'' ''w'' ''b'' ''feature'' ''squash'' \<in> set (wy_calls s)"
  by code_simp

theorem push_gated_witness:
  "\<exists>entry s1 bu branch. getWorkspaceBundle (demo_env RyPublished) ''b'' demo_router = (Some entry, s1) \<and> sb_commitBundle entry = Some bu \<and>
     enforceOwnershipGate (sg_gate demo_cfg) demo_ident branch (Some bu) = None \<and>
     CallStartPush ''j'' ''w'' ''b'' ''feature'' ''squash'' \<in> push_calls (sb_data entry) branch"
proof -
  obtain err s' where p: "PushWorkspaceCommits demo_cfg (demo_env RyPublished) ''j'' ''c'' demo_ident demo_push demo_router = (err, s')" by (rule prod.exhaust)
  have c: "CallStartPush ''j'' ''w'' ''b'' ''feature'' ''squash'' \<in> set (wy_calls s')" using demo_push_run unfolding p by simp
  have "CallStartPush ''j'' ''w'' ''b'' ''feature'' ''squash'' \<notin> set (wy_calls demo_router)" by (simp add: demo_router_def)
  from push_gated [OF demo_rely p c this] show ?thesis by (auto simp: demo_push_def)
qed

theorem handlers_finish_witness:
  "\<exists>s'. PushWorkspaceCommits demo_cfg (demo_env RyPublished) ''j'' ''c'' demo_ident demo_push demo_router = (None, s') \<and> job_holds finished_ok ''j'' s'"
proof -
  obtain err s' where p: "PushWorkspaceCommits demo_cfg (demo_env RyPublished) ''j'' ''c'' demo_ident demo_push demo_router = (err, s')" by (rule prod.exhaust)
  then have "err = None" using demo_push_run by simp
  then have "PushWorkspaceCommits demo_cfg (demo_env RyPublished) ''j'' ''c'' demo_ident demo_push demo_router = (None, s')" using p by simp
  then show ?thesis using handlers_finish [OF demo_rely [of RyPublished "''j''"], where cfg = demo_cfg] by blast
qed



text \<open>A push does not depend on the policy once it is allowed.\<close>

lemma policy_irrelevant:
  "requestPullReviewers (cfg\<lparr>sg_policyCfg := pol\<rparr>) env repo prID created paths s = requestPullReviewers cfg env repo prID created paths s"
  "openPullRequest (cfg\<lparr>sg_policyCfg := pol\<rparr>) env repo title body paths s = openPullRequest cfg env repo title body paths s"
  "triggerSearchReindex (cfg\<lparr>sg_policyCfg := pol\<rparr>) env repo reason s = triggerSearchReindex cfg env repo reason s"
proof -
  show r: "requestPullReviewers (cfg\<lparr>sg_policyCfg := pol\<rparr>) env repo prID created paths s = requestPullReviewers cfg env repo prID created paths s" for env repo prID created paths s
    by (simp add: requestPullReviewers_def)
  show "openPullRequest (cfg\<lparr>sg_policyCfg := pol\<rparr>) env repo title body paths s = openPullRequest cfg env repo title body paths s"
    unfolding openPullRequest_def r ..
  show "triggerSearchReindex (cfg\<lparr>sg_policyCfg := pol\<rparr>) env repo reason s = triggerSearchReindex cfg env repo reason s"
    by (simp add: triggerSearchReindex_def)
qed

lemma push_loop_policy: "push_loop (cfg\<lparr>sg_policyCfg := pol\<rparr>) env jobID pushMode entry results = push_loop cfg env jobID pushMode entry results"
proof (induction results)
  case (Cons p results)
  have a: "attachPullRequest (cfg\<lparr>sg_policyCfg := pol\<rparr>) env repo bu jobID s = attachPullRequest cfg env repo bu jobID s" for repo bu s
    by (simp add: attachPullRequest_def policy_irrelevant split: prod.splits)
  show ?case unfolding push_loop.simps a policy_irrelevant Cons ..
qed simp

lemma run_push_policy: "runWorkspaceCommitPushJob (cfg\<lparr>sg_policyCfg := pol\<rparr>) env jobID req branch entry = runWorkspaceCommitPushJob cfg env jobID req branch entry"
proof -
  have f: "sg_fetcher (cfg\<lparr>sg_policyCfg := pol\<rparr>) = sg_fetcher cfg" "sg_SourcePushMode (cfg\<lparr>sg_policyCfg := pol\<rparr>) = sg_SourcePushMode cfg" by simp_all
  show ?thesis unfolding runWorkspaceCommitPushJob_def push_loop_policy f ..
qed


definition demo_policy :: PolicyConfig where
  "demo_policy =
     (let none = \<lparr>ms_PrincipalIDs = [], ms_WorkspaceIDs = [], ms_LogicalBranches = [], ms_RepositoryIDs = [], ms_Actions = [], ms_PushModes = [], ms_BranchStrategies = []\<rparr> in
      \<lparr>pc_Version = 1, pc_Default = EffectAllow,
       pc_Rules = [\<lparr>pu_Name = ''no direct pushes'', pu_Match = none\<lparr>ms_BranchStrategies := [BranchStrategyDirect]\<rparr>, pu_MatchNot = none, pu_Effect = EffectDeny, pu_Reason = ''''\<rparr>]\<rparr>)"


end
