(* ===== verification/Merge3.thy ===== *)
theory Merge3
  imports GoStrings
begin

section \<open>Three-way merge\<close>

text \<open>
  \<^verbatim>\<open>internal/fuse/merge3.go\<close>: the line-based three-way merge a session runs when a refresh
  brings new upstream content. The matching blocks come from the third-party package
  \<^verbatim>\<open>go-difflib\<close>: they are the parameter \<open>mb\<close> of the definitions, and
  \<open>blocks_ok\<close> is what its documentation promises of them. File content is a string; a slice
  expression with its bounds out of order or out of range panics (\<open>None\<close>).
\<close>

subsection \<open>Data\<close>

record Match =
  m_A :: nat
  m_B :: nat
  m_Size :: nat

record syncRegion =
  BaseStart :: nat
  BaseEnd :: nat
  OursStart :: nat
  OursEnd :: nat
  TheirsStart :: nat
  TheirsEnd :: nat

record unsyncedResult =
  ur_lines :: "string list"
  ur_conflicts :: nat

type_synonym matcher = "string list \<Rightarrow> string list \<Rightarrow> Match list"

definition nl :: string where "nl = [CHR 0x0A]"
definition mergeConflictStart :: string where "mergeConflictStart = ''<<<<<<< MONOFS-LOCAL''"
definition mergeConflictBase :: string where "mergeConflictBase = ''||||||| BASE''"
definition mergeConflictSep :: string where "mergeConflictSep = ''=======''"
definition mergeConflictEnd :: string where "mergeConflictEnd = ''>>>>>>> MONOFS-UPSTREAM''"

subsection \<open>Lines\<close>

definition splitLines :: "string \<Rightarrow> string list" where
  "splitLines content =
     (if content = [] then []
      else let parts = Split content CHR 0x0A; tail = last parts
        in map (\<lambda>p. p @ nl) (butlast parts) @ (if tail \<noteq> [] then [tail] else []))"

fun equal_from :: "string list \<Rightarrow> string list \<Rightarrow> bool" where
  "equal_from (a # as) (b # bs) = (if a \<noteq> b then False else equal_from as bs)"
| "equal_from _ _ = True"

definition equalLines :: "string list \<Rightarrow> string list \<Rightarrow> bool" where
  "equalLines a b = (if length a \<noteq> length b then False else equal_from a b)"

definition hasConflictMarkers :: "string \<Rightarrow> bool" where
  "hasConflictMarkers content \<longleftrightarrow>
     Contains content mergeConflictStart \<or> Contains content mergeConflictEnd"

subsection \<open>Regions on which all three versions agree\<close>

definition intersect_region :: "Match \<Rightarrow> Match \<Rightarrow> nat \<Rightarrow> nat \<Rightarrow> syncRegion" where
  "intersect_region om tm start fin =
     \<lparr>BaseStart = start, BaseEnd = fin,
      OursStart = m_B om + (start - m_A om), OursEnd = m_B om + (fin - m_A om),
      TheirsStart = m_B tm + (start - m_A tm), TheirsEnd = m_B tm + (fin - m_A tm)\<rparr>"

fun intersect_blocks :: "Match list \<Rightarrow> Match list \<Rightarrow> syncRegion list" where
  "intersect_blocks (om # oms) (tm # tms) =
     (let start = max (m_A om) (m_A tm);
          fin = min (m_A om + m_Size om) (m_A tm + m_Size tm);
          here = (if fin > start then [intersect_region om tm start fin] else [])
      in here @
        (if m_A om + m_Size om < m_A tm + m_Size tm then intersect_blocks oms (tm # tms)
         else if m_A om + m_Size om > m_A tm + m_Size tm then intersect_blocks (om # oms) tms
         else intersect_blocks oms tms))"
| "intersect_blocks [] _ = []"
| "intersect_blocks _ [] = []"

fun coalesce :: "syncRegion list \<Rightarrow> syncRegion list \<Rightarrow> syncRegion list" where
  "coalesce merged [] = merged"
| "coalesce merged (r # rs) =
     (if merged \<noteq> [] \<and> BaseEnd (last merged) = BaseStart r \<and>
         OursEnd (last merged) = OursStart r \<and> TheirsEnd (last merged) = TheirsStart r
      then coalesce (butlast merged @ [(last merged)\<lparr>BaseEnd := BaseEnd r, OursEnd := OursEnd r,
             TheirsEnd := TheirsEnd r\<rparr>]) rs
      else coalesce (merged @ [r]) rs)"

definition findSyncRegions :: "matcher \<Rightarrow> string list \<Rightarrow> string list \<Rightarrow> string list \<Rightarrow> syncRegion list" where
  "findSyncRegions mb base ours theirs =
     coalesce [] (intersect_blocks (mb base ours) (mb base theirs))"

subsection \<open>Merging\<close>

definition conflictRegion :: "string list \<Rightarrow> string list \<Rightarrow> string list \<Rightarrow> string list" where
  "conflictRegion base ours theirs =
     [mergeConflictStart @ nl] @ ours @ [mergeConflictBase @ nl] @ base @
     [mergeConflictSep @ nl] @ theirs @ [mergeConflictEnd @ nl]"

definition mergeUnsyncedRegion :: "string list \<Rightarrow> string list \<Rightarrow> string list \<Rightarrow> unsyncedResult" where
  "mergeUnsyncedRegion base ours theirs =
     (let oursChanged = \<not> equalLines base ours; theirsChanged = \<not> equalLines base theirs in
      if \<not> oursChanged \<and> \<not> theirsChanged then \<lparr>ur_lines = base, ur_conflicts = 0\<rparr>
      else if \<not> oursChanged then \<lparr>ur_lines = theirs, ur_conflicts = 0\<rparr>
      else if \<not> theirsChanged then \<lparr>ur_lines = ours, ur_conflicts = 0\<rparr>
      else if equalLines ours theirs then \<lparr>ur_lines = ours, ur_conflicts = 0\<rparr>
      else \<lparr>ur_lines = conflictRegion base ours theirs, ur_conflicts = 1\<rparr>)"

definition slice :: "'a list \<Rightarrow> nat \<Rightarrow> nat \<Rightarrow> 'a list option" where
  "slice xs lo hi = (if lo \<le> hi \<and> hi \<le> length xs then Some (take (hi - lo) (drop lo xs)) else None)"

fun merge_regions ::
  "string list \<Rightarrow> string list \<Rightarrow> string list \<Rightarrow> syncRegion list \<Rightarrow> nat \<Rightarrow> nat \<Rightarrow> nat \<Rightarrow>
   string list \<Rightarrow> nat \<Rightarrow> (string list \<times> nat) option"
where
  "merge_regions base ours theirs [] basePos oursPos theirsPos result conflicts =
     (case (slice base basePos (length base), slice ours oursPos (length ours),
            slice theirs theirsPos (length theirs)) of
        (Some b, Some o', Some t) \<Rightarrow>
          (let u = mergeUnsyncedRegion b o' t
           in Some (result @ ur_lines u, conflicts + ur_conflicts u))
      | _ \<Rightarrow> None)"
| "merge_regions base ours theirs (r # rs) basePos oursPos theirsPos result conflicts =
     (case (slice base basePos (BaseStart r), slice ours oursPos (OursStart r),
            slice theirs theirsPos (TheirsStart r), slice base (BaseStart r) (BaseEnd r)) of
        (Some b, Some o', Some t, Some s) \<Rightarrow>
          (let u = mergeUnsyncedRegion b o' t
           in merge_regions base ours theirs rs (BaseEnd r) (OursEnd r) (TheirsEnd r)
                (result @ ur_lines u @ s) (conflicts + ur_conflicts u))
      | _ \<Rightarrow> None)"

definition merge3Lines ::
  "matcher \<Rightarrow> string list \<Rightarrow> string list \<Rightarrow> string list \<Rightarrow> (string list \<times> nat) option"
where
  "merge3Lines mb base ours theirs =
     merge_regions base ours theirs (findSyncRegions mb base ours theirs) 0 0 0 [] 0"

definition Merge3 :: "matcher \<Rightarrow> string \<Rightarrow> string \<Rightarrow> string \<Rightarrow> (string \<times> nat) option" where
  "Merge3 mb base ours theirs =
     map_option (\<lambda>(result, conflicts). (Join result [], conflicts))
       (merge3Lines mb (splitLines base) (splitLines ours) (splitLines theirs))"

subsection \<open>What the matcher promises\<close>

text \<open>From position \<open>(i, j)\<close> on, the blocks follow each other in both sequences and each one
  names two equal slices.\<close>

fun blocks_from :: "'a list \<Rightarrow> 'a list \<Rightarrow> nat \<Rightarrow> nat \<Rightarrow> Match list \<Rightarrow> bool" where
  "blocks_from a b i j [] = True"
| "blocks_from a b i j (m # ms) \<longleftrightarrow>
     i \<le> m_A m \<and> j \<le> m_B m \<and> m_A m + m_Size m \<le> length a \<and> m_B m + m_Size m \<le> length b \<and>
     take (m_Size m) (drop (m_A m) a) = take (m_Size m) (drop (m_B m) b) \<and>
     blocks_from a b (m_A m + m_Size m) (m_B m + m_Size m) ms"

definition blocks_ok :: "matcher \<Rightarrow> bool" where
  "blocks_ok mb \<longleftrightarrow> (\<forall>a b. blocks_from a b 0 0 (mb a b))"

subsection \<open>The regions are well formed\<close>

fun regions_from :: "'a list \<Rightarrow> 'a list \<Rightarrow> 'a list \<Rightarrow> nat \<Rightarrow> nat \<Rightarrow> nat \<Rightarrow> syncRegion list \<Rightarrow> bool" where
  "regions_from base ours theirs bp op tp [] \<longleftrightarrow>
     bp \<le> length base \<and> op \<le> length ours \<and> tp \<le> length theirs"
| "regions_from base ours theirs bp op tp (r # rs) \<longleftrightarrow>
     bp \<le> BaseStart r \<and> op \<le> OursStart r \<and> tp \<le> TheirsStart r \<and>
     (\<exists>n > 0. BaseEnd r = BaseStart r + n \<and> OursEnd r = OursStart r + n \<and> TheirsEnd r = TheirsStart r + n \<and>
        take n (drop (OursStart r) ours) = take n (drop (BaseStart r) base) \<and>
        take n (drop (TheirsStart r) theirs) = take n (drop (BaseStart r) base)) \<and>
     regions_from base ours theirs (BaseEnd r) (OursEnd r) (TheirsEnd r) rs"

lemma slice_shift:
  assumes "take n (drop i a) = take n (drop j b)" "d + m \<le> n"
  shows "take m (drop (i + d) a) = take m (drop (j + d) b)"
proof -
  have "take m (drop d (take n (drop i a))) = take m (drop d (take n (drop j b)))" using assms(1) by simp
  moreover have "m \<le> n - d" using assms(2) by simp
  ultimately show ?thesis by (simp add: drop_take min_def add.commute)
qed

lemma block_slice:
  assumes "take (m_Size m) (drop (m_A m) a) = take (m_Size m) (drop (m_B m) b)"
    "m_A m \<le> start" "start \<le> fin" "fin \<le> m_A m + m_Size m"
  shows "take (fin - start) (drop (m_B m + (start - m_A m)) b) = take (fin - start) (drop start a)"
  using slice_shift [OF assms(1), of "start - m_A m" "fin - start"] assms(2-4) by simp

lemma intersect_region_step:
  assumes "blocks_from base ours i j (om # oms)" "blocks_from base theirs k l (tm # tms)"
    "start = max (m_A om) (m_A tm)" "fin = min (m_A om + m_Size om) (m_A tm + m_Size tm)" "start < fin"
    "bp \<le> start" "op \<le> m_B om + (bp - m_A om)" "tp \<le> m_B tm + (bp - m_A tm)"
    "regions_from base ours theirs fin (m_B om + (fin - m_A om)) (m_B tm + (fin - m_A tm)) rs"
  shows "regions_from base ours theirs bp op tp (intersect_region om tm start fin # rs)"
proof -
  define n where "n = fin - start"
  have b: "m_A om \<le> start" "m_A tm \<le> start" "fin \<le> m_A om + m_Size om" "fin \<le> m_A tm + m_Size tm"
    "0 < n" "fin = start + n" using assms(3-5) by (auto simp: n_def)
  have o: "take (m_Size om) (drop (m_A om) base) = take (m_Size om) (drop (m_B om) ours)"
    and t: "take (m_Size tm) (drop (m_A tm) base) = take (m_Size tm) (drop (m_B tm) theirs)"
    using assms(1,2) by simp_all
  have "take n (drop (m_B om + (start - m_A om)) ours) = take n (drop start base)"
    "take n (drop (m_B tm + (start - m_A tm)) theirs) = take n (drop start base)"
    using block_slice [OF o b(1) _ b(3)] block_slice [OF t b(2) _ b(4)] b(6) by simp_all
  moreover have "m_B om + (fin - m_A om) = m_B om + (start - m_A om) + n"
    "m_B tm + (fin - m_A tm) = m_B tm + (start - m_A tm) + n"
    "op \<le> m_B om + (start - m_A om)" "tp \<le> m_B tm + (start - m_A tm)"
    using b assms(6-8) by linarith+
  ultimately show ?thesis
    unfolding intersect_region_def regions_from.simps syncRegion.simps
    using assms(6,9) b(5,6) by blast
qed

definition block_behind :: "nat \<Rightarrow> nat \<Rightarrow> Match list \<Rightarrow> bool" where
  "block_behind bp op ms \<longleftrightarrow>
     (ms \<noteq> [] \<longrightarrow> bp \<le> m_A (hd ms) + m_Size (hd ms) \<and> op \<le> m_B (hd ms) + (bp - m_A (hd ms)))"

lemma block_behind_next:
  assumes "blocks_from a b i j (m # ms)" "block_behind bp op (m # ms)"
  shows "block_behind bp op ms" "ms \<noteq> [] \<Longrightarrow> bp \<le> m_A (hd ms)"
  using assms by (cases ms; auto simp: block_behind_def)+

lemma block_behind_at:
  "m_A m \<le> fin \<Longrightarrow> fin \<le> m_A m + m_Size m \<Longrightarrow> block_behind fin (m_B m + (fin - m_A m)) (m # ms)"
  by (simp add: block_behind_def)

lemma intersect_blocks_ok:
  assumes "blocks_from base ours i j oms" "blocks_from base theirs k l tms"
    "bp \<le> length base" "op \<le> length ours" "tp \<le> length theirs"
    "block_behind bp op oms" "block_behind bp tp tms"
    "oms \<noteq> [] \<Longrightarrow> tms \<noteq> [] \<Longrightarrow> bp \<le> max (m_A (hd oms)) (m_A (hd tms))"
  shows "regions_from base ours theirs bp op tp (intersect_blocks oms tms)"
  using assms
proof (induction oms tms arbitrary: i j k l bp op tp rule: intersect_blocks.induct)
  case (1 om oms tm tms)
  let ?oe = "m_A om + m_Size om" and ?te = "m_A tm + m_Size tm"
  define start where "start = max (m_A om) (m_A tm)"
  define fin where "fin = min ?oe ?te"
  define rest where "rest = (if ?oe < ?te then intersect_blocks oms (tm # tms)
     else if ?oe > ?te then intersect_blocks (om # oms) tms else intersect_blocks oms tms)"
  have oms: "blocks_from base ours ?oe (m_B om + m_Size om) oms"
    and tms: "blocks_from base theirs ?te (m_B tm + m_Size tm) tms" using "1.prems"(1,2) by auto
  have eq: "intersect_blocks (om # oms) (tm # tms) =
      (if start < fin then [intersect_region om tm start fin] else []) @ rest"
    by (simp add: Let_def start_def fin_def rest_def)
  have rest: "regions_from base ours theirs bp' op' tp' rest"
    if "bp' \<le> length base" "op' \<le> length ours" "tp' \<le> length theirs"
      "block_behind bp' op' (om # oms)" "block_behind bp' tp' (tm # tms)" "bp' \<le> start \<or> bp' = fin"
    for bp' op' tp'
  proof -
    note o_next = block_behind_next [OF "1.prems"(1) that(4)]
    note t_next = block_behind_next [OF "1.prems"(2) that(5)]
    consider "?oe < ?te" | "?oe > ?te" | "?oe = ?te" by linarith
    then show ?thesis
    proof cases
      case 1
      then have "regions_from base ours theirs bp' op' tp' (intersect_blocks oms (tm # tms))"
        using o_next by (intro "1.IH"(1) [OF refl refl refl 1 oms "1.prems"(2) that(1-3)])
          (use that o_next in \<open>auto simp: le_max_iff_disj\<close>)
      with 1 show ?thesis by (simp add: rest_def)
    next
      case 2
      then have "regions_from base ours theirs bp' op' tp' (intersect_blocks (om # oms) tms)"
        using t_next by (intro "1.IH"(2) [OF refl refl refl _ 2 "1.prems"(1) tms that(1-3)])
          (use that t_next in \<open>auto simp: le_max_iff_disj\<close>)
      with 2 show ?thesis by (simp add: rest_def)
    next
      case 3
      then have "regions_from base ours theirs bp' op' tp' (intersect_blocks oms tms)"
        using t_next by (intro "1.IH"(3) [OF refl refl refl _ _ oms tms that(1-3)])
          (use that o_next t_next in \<open>auto simp: le_max_iff_disj\<close>)
      with 3 show ?thesis by (simp add: rest_def)
    qed
  qed
  show ?case
  proof (cases "start < fin")
    case True
    have bounds: "m_A om \<le> fin" "fin \<le> ?oe" "m_A tm \<le> fin" "fin \<le> ?te"
      using True by (auto simp: start_def fin_def)
    have tail: "regions_from base ours theirs fin (m_B om + (fin - m_A om)) (m_B tm + (fin - m_A tm)) rest"
      using "1.prems"(1,2) bounds by (intro rest block_behind_at) auto
    have "bp \<le> start" "op \<le> m_B om + (bp - m_A om)" "tp \<le> m_B tm + (bp - m_A tm)"
      using "1.prems"(6-8) by (simp_all add: block_behind_def start_def)
    from intersect_region_step [OF "1.prems"(1,2) start_def fin_def True this tail] True
    show ?thesis unfolding eq by simp
  next
    case False
    have "bp \<le> start \<or> bp = fin" using "1.prems"(8) by (simp add: start_def)
    with False show ?thesis unfolding eq using rest [OF "1.prems"(3-7)] by simp
  qed
qed auto

lemma regions_from_append_cong:
  assumes "regions_from base ours theirs bp op tp (xs @ ys)"
    "\<And>bp op tp. regions_from base ours theirs bp op tp ys \<Longrightarrow> regions_from base ours theirs bp op tp zs"
  shows "regions_from base ours theirs bp op tp (xs @ zs)"
  using assms(1) by (induction xs arbitrary: bp op tp) (auto simp: assms(2))

lemma take_join:
  "take n (drop i a) = take n (drop j b) \<Longrightarrow> take m (drop (i + n) a) = take m (drop (j + n) b) \<Longrightarrow>
     take (n + m) (drop i a) = take (n + m) (drop j b)"
  unfolding take_add drop_drop by (simp add: add.commute)

lemma regions_from_join:
  assumes "regions_from base ours theirs bp op tp (a # r # rs)"
    "BaseEnd a = BaseStart r" "OursEnd a = OursStart r" "TheirsEnd a = TheirsStart r"
  shows "regions_from base ours theirs bp op tp
     (a\<lparr>BaseEnd := BaseEnd r, OursEnd := OursEnd r, TheirsEnd := TheirsEnd r\<rparr> # rs)"
proof -
  obtain n m where nm: "n > 0" "BaseEnd a = BaseStart a + n" "OursEnd a = OursStart a + n"
      "TheirsEnd a = TheirsStart a + n" "BaseEnd r = BaseStart r + m" "OursEnd r = OursStart r + m"
      "TheirsEnd r = TheirsStart r + m"
    and s: "take n (drop (OursStart a) ours) = take n (drop (BaseStart a) base)"
      "take n (drop (TheirsStart a) theirs) = take n (drop (BaseStart a) base)"
      "take m (drop (OursStart r) ours) = take m (drop (BaseStart r) base)"
      "take m (drop (TheirsStart r) theirs) = take m (drop (BaseStart r) base)"
    using assms(1) by auto
  have "take (n + m) (drop (OursStart a) ours) = take (n + m) (drop (BaseStart a) base)"
    "take (n + m) (drop (TheirsStart a) theirs) = take (n + m) (drop (BaseStart a) base)"
    using s nm assms(2-4) by (auto intro!: take_join)
  then show ?thesis using nm assms by (auto intro!: exI [of _ "n + m"])
qed

lemma coalesce_ok:
  "regions_from base ours theirs bp op tp (merged @ rs) \<Longrightarrow>
     regions_from base ours theirs bp op tp (coalesce merged rs)"
proof (induction merged rs rule: coalesce.induct)
  case (2 merged r rs)
  show ?case
  proof (cases "merged \<noteq> [] \<and> BaseEnd (last merged) = BaseStart r \<and>
         OursEnd (last merged) = OursStart r \<and> TheirsEnd (last merged) = TheirsStart r")
    case True
    then have "merged @ r # rs = butlast merged @ last merged # r # rs" by simp
    then have "regions_from base ours theirs bp op tp (butlast merged @ last merged # r # rs)"
      using "2.prems" by metis
    then have "regions_from base ours theirs bp op tp (butlast merged @ (last merged)\<lparr>BaseEnd := BaseEnd r,
        OursEnd := OursEnd r, TheirsEnd := TheirsEnd r\<rparr> # rs)"
      by (rule regions_from_append_cong) (use True regions_from_join in blast)
    with "2.IH"(1) [OF True] True show ?thesis by simp
  next
    case False
    have "regions_from base ours theirs bp op tp ((merged @ [r]) @ rs)" using "2.prems" by simp
    from "2.IH"(2) [OF False this] show ?thesis unfolding coalesce.simps if_not_P [OF False] .
  qed
qed simp

text \<open>A property of single regions that survives joining.\<close>

lemma coalesce_all:
  assumes "\<forall>r \<in> set merged \<union> set rs. P r"
    "\<And>a r. P a \<Longrightarrow> P r \<Longrightarrow> P (a\<lparr>BaseEnd := BaseEnd r, OursEnd := OursEnd r, TheirsEnd := TheirsEnd r\<rparr>)"
  shows "\<forall>r \<in> set (coalesce merged rs). P r"
  using assms(1)
proof (induction merged rs rule: coalesce.induct)
  case (2 merged r rs)
  then show ?case by (auto simp: assms(2) dest: in_set_butlastD)
qed simp

lemma findSyncRegions_ok:
  assumes "blocks_ok mb"
  shows "regions_from base ours theirs 0 0 0 (findSyncRegions mb base ours theirs)"
  unfolding findSyncRegions_def
proof (rule coalesce_ok, simp)
  show "regions_from base ours theirs 0 0 0 (intersect_blocks (mb base ours) (mb base theirs))"
    by (rule intersect_blocks_ok [of _ _ 0 0 _ _ 0 0])
      (use assms in \<open>auto simp: blocks_ok_def block_behind_def\<close>)
qed

subsection \<open>The merge as a list of chunks\<close>

text \<open>A chunk is an unsynchronised part of each version followed by a part on which all agree.\<close>

fun chunks :: "'a list \<Rightarrow> 'a list \<Rightarrow> 'a list \<Rightarrow> nat \<Rightarrow> nat \<Rightarrow> nat \<Rightarrow> syncRegion list \<Rightarrow>
   ('a list \<times> 'a list \<times> 'a list \<times> 'a list) list"
where
  "chunks base ours theirs bp op tp [] = [(drop bp base, drop op ours, drop tp theirs, [])]"
| "chunks base ours theirs bp op tp (r # rs) =
     (take (BaseStart r - bp) (drop bp base), take (OursStart r - op) (drop op ours),
      take (TheirsStart r - tp) (drop tp theirs), take (BaseEnd r - BaseStart r) (drop (BaseStart r) base))
     # chunks base ours theirs (BaseEnd r) (OursEnd r) (TheirsEnd r) rs"

lemma equal_from_iff: "length a = length b \<Longrightarrow> equal_from a b \<longleftrightarrow> a = b"
  by (induction a b rule: equal_from.induct) auto

lemma equalLines_iff [simp]: "equalLines a b \<longleftrightarrow> a = b"
  by (auto simp: equalLines_def equal_from_iff)

lemma regions_from_end:
  "regions_from base ours theirs bp op tp rs \<Longrightarrow> bp \<le> length base \<and> op \<le> length ours \<and> tp \<le> length theirs"
  by (induction rs arbitrary: bp op tp) fastforce+

lemma merge_regions_chunks:
  "regions_from base ours theirs bp op tp rs \<Longrightarrow>
   merge_regions base ours theirs rs bp op tp result c =
     Some (result @ concat (map (\<lambda>(b, o', t, s). ur_lines (mergeUnsyncedRegion b o' t) @ s)
             (chunks base ours theirs bp op tp rs)),
           c + sum_list (map (\<lambda>(b, o', t, s). ur_conflicts (mergeUnsyncedRegion b o' t))
             (chunks base ours theirs bp op tp rs)))"
proof (induction rs arbitrary: bp op tp result c)
  case (Cons r rs)
  then have tail: "regions_from base ours theirs (BaseEnd r) (OursEnd r) (TheirsEnd r) rs" by simp
  have "BaseStart r \<le> BaseEnd r" "OursStart r \<le> OursEnd r" "TheirsStart r \<le> TheirsEnd r" using Cons.prems by auto
  with Cons.prems regions_from_end [OF tail] show ?case by (simp add: slice_def Let_def Cons.IH [OF tail])
qed (simp add: slice_def Let_def)

lemma chunk_join: "i \<le> j \<Longrightarrow> j \<le> k \<Longrightarrow> take (j - i) (drop i a) @ take (k - j) (drop j a) @ drop k a = drop i a"
proof -
  assume "i \<le> j" "j \<le> k"
  have "take (k - j) (drop j a) @ drop k a = drop j a"
    using append_take_drop_id [of "k - j" "drop j a"] \<open>j \<le> k\<close> by simp
  then show ?thesis using append_take_drop_id [of "j - i" "drop i a"] \<open>i \<le> j\<close> by simp
qed

lemma chunks_concat:
  "regions_from base ours theirs bp op tp rs \<Longrightarrow>
     concat (map (\<lambda>(b, o', t, s). b @ s) (chunks base ours theirs bp op tp rs)) = drop bp base \<and>
     concat (map (\<lambda>(b, o', t, s). o' @ s) (chunks base ours theirs bp op tp rs)) = drop op ours \<and>
     concat (map (\<lambda>(b, o', t, s). t @ s) (chunks base ours theirs bp op tp rs)) = drop tp theirs"
proof (induction rs arbitrary: bp op tp)
  case (Cons r rs)
  then obtain n where n: "BaseEnd r = BaseStart r + n" "OursEnd r = OursStart r + n" "TheirsEnd r = TheirsStart r + n"
    "take n (drop (OursStart r) ours) = take n (drop (BaseStart r) base)"
    "take n (drop (TheirsStart r) theirs) = take n (drop (BaseStart r) base)" by auto
  have "bp \<le> BaseStart r" "op \<le> OursStart r" "tp \<le> TheirsStart r"
    "regions_from base ours theirs (BaseEnd r) (OursEnd r) (TheirsEnd r) rs" using Cons.prems by auto
  with n show ?case
    using Cons.IH [of "BaseEnd r" "OursEnd r" "TheirsEnd r"] chunk_join [of bp "BaseStart r" "BaseEnd r" base]
      chunk_join [of op "OursStart r" "OursEnd r" ours] chunk_join [of tp "TheirsStart r" "TheirsEnd r" theirs]
    by simp
qed simp

text \<open>Chunks of two versions that coincide.\<close>

lemma chunks_ours_theirs:
  "\<forall>r \<in> set rs. OursStart r = TheirsStart r \<and> OursEnd r = TheirsEnd r \<Longrightarrow>
     \<forall>(b, o', t, s) \<in> set (chunks base x x bp op op rs). o' = t"
  by (induction rs arbitrary: bp op) auto

lemma chunks_base_theirs:
  "\<forall>r \<in> set rs. TheirsStart r = BaseStart r \<and> TheirsEnd r = BaseEnd r \<Longrightarrow>
     \<forall>(b, o', t, s) \<in> set (chunks base ours base bp op bp rs). t = b"
  by (induction rs arbitrary: bp op) auto

lemma chunks_base_ours:
  "\<forall>r \<in> set rs. OursStart r = BaseStart r \<and> OursEnd r = BaseEnd r \<Longrightarrow>
     \<forall>(b, o', t, s) \<in> set (chunks base base theirs bp bp tp rs). o' = b"
  by (induction rs arbitrary: bp tp) auto

lemma intersect_same:
  "\<forall>r \<in> set (intersect_blocks ms ms). OursStart r = TheirsStart r \<and> OursEnd r = TheirsEnd r"
  by (induction ms) (auto simp: Let_def intersect_region_def)

lemma intersect_blocks_mem:
  "r \<in> set (intersect_blocks oms tms) \<Longrightarrow>
     \<exists>om \<in> set oms. \<exists>tm \<in> set tms. \<exists>start fin. r = intersect_region om tm start fin \<and>
       m_A om \<le> start \<and> m_A tm \<le> start \<and> start < fin"
proof (induction oms tms rule: intersect_blocks.induct)
  case (1 om oms tm tms)
  let ?oe = "m_A om + m_Size om" and ?te = "m_A tm + m_Size tm"
  let ?start = "max (m_A om) (m_A tm)" and ?fin = "min ?oe ?te"
  note IH = "1.IH" [OF refl refl refl]
  have "(?start < ?fin \<and> r = intersect_region om tm ?start ?fin) \<or>
      (?oe < ?te \<and> r \<in> set (intersect_blocks oms (tm # tms))) \<or>
      (\<not> ?oe < ?te \<and> ?oe > ?te \<and> r \<in> set (intersect_blocks (om # oms) tms)) \<or>
      (\<not> ?oe < ?te \<and> \<not> ?oe > ?te \<and> r \<in> set (intersect_blocks oms tms))"
    using "1.prems" unfolding intersect_blocks.simps Let_def set_append
    by (auto simp only: Un_iff list.set insert_iff empty_iff split: if_splits)
  then show ?case
  proof (elim disjE conjE)
    assume "?start < ?fin" "r = intersect_region om tm ?start ?fin"
    moreover have "m_A om \<le> ?start" "m_A tm \<le> ?start" by auto
    ultimately show ?thesis by (metis list.set_intros(1))
  qed (use IH in \<open>metis list.set_intros\<close>)+
qed simp_all

lemma intersect_theirs_diag:
  assumes "\<forall>m \<in> set tms. m_A m = m_B m"
  shows "\<forall>r \<in> set (intersect_blocks oms tms). TheirsStart r = BaseStart r \<and> TheirsEnd r = BaseEnd r"
  using assms by (force simp: intersect_region_def dest: intersect_blocks_mem)

lemma intersect_ours_diag:
  assumes "\<forall>m \<in> set oms. m_A m = m_B m"
  shows "\<forall>r \<in> set (intersect_blocks oms tms). OursStart r = BaseStart r \<and> OursEnd r = BaseEnd r"
  using assms by (force simp: intersect_region_def dest: intersect_blocks_mem)

lemma merge_clean:
  assumes "regions_from base ours theirs 0 0 0 rs"
    "\<forall>(b, o', t, s) \<in> set (chunks base ours theirs 0 0 0 rs). o' = t \<or> t = b"
  shows "merge_regions base ours theirs rs 0 0 0 [] 0 = Some (ours, 0)"
proof -
  have eqs: "map (\<lambda>(b, o', t, s). ur_lines (mergeUnsyncedRegion b o' t) @ s) (chunks base ours theirs 0 0 0 rs)
      = map (\<lambda>(b, o', t, s). o' @ s) (chunks base ours theirs 0 0 0 rs)"
    "map (\<lambda>(b, o', t, s). ur_conflicts (mergeUnsyncedRegion b o' t)) (chunks base ours theirs 0 0 0 rs)
      = map (\<lambda>_. 0) (chunks base ours theirs 0 0 0 rs)"
    using assms(2) by (auto simp: mergeUnsyncedRegion_def Let_def)
  show ?thesis
    unfolding merge_regions_chunks [OF assms(1)] eqs using chunks_concat [OF assms(1)] by simp
qed

lemma merge_clean_theirs:
  assumes "regions_from base ours theirs 0 0 0 rs"
    "\<forall>(b, o', t, s) \<in> set (chunks base ours theirs 0 0 0 rs). o' = b"
  shows "merge_regions base ours theirs rs 0 0 0 [] 0 = Some (theirs, 0)"
proof -
  have eqs: "map (\<lambda>(b, o', t, s). ur_lines (mergeUnsyncedRegion b o' t) @ s) (chunks base ours theirs 0 0 0 rs)
      = map (\<lambda>(b, o', t, s). t @ s) (chunks base ours theirs 0 0 0 rs)"
    "map (\<lambda>(b, o', t, s). ur_conflicts (mergeUnsyncedRegion b o' t)) (chunks base ours theirs 0 0 0 rs)
      = map (\<lambda>_. 0) (chunks base ours theirs 0 0 0 rs)"
    using assms(2) by (auto simp: mergeUnsyncedRegion_def Let_def)
  show ?thesis
    unfolding merge_regions_chunks [OF assms(1)] eqs using chunks_concat [OF assms(1)] by simp
qed

subsection \<open>Content and lines\<close>

lemma Join_Nil_sep: "Join ws [] = concat ws"
  by (induction ws rule: induct_list012) auto

lemma Join_nl_lines: "ws \<noteq> [] \<Longrightarrow> Join ws nl = concat (map (\<lambda>p. p @ nl) (butlast ws)) @ last ws"
  by (induction ws rule: induct_list012) (auto simp: Join_Cons)

lemma concat_splitLines [simp]: "concat (splitLines c) = c"
proof (cases "c = []")
  case False
  have "Join (Split c CHR 0x0A) nl = c" using Join_Split [of c "CHR 0x0A"] by (simp add: nl_def)
  with False show ?thesis
    using Join_nl_lines [of "Split c CHR 0x0A"] by (auto simp: splitLines_def Let_def)
qed (simp add: splitLines_def)

lemma Merge3_chunks:
  fixes base ours theirs :: string
  assumes "blocks_ok mb"
  defines "cs \<equiv> chunks (splitLines base) (splitLines ours) (splitLines theirs) 0 0 0
     (findSyncRegions mb (splitLines base) (splitLines ours) (splitLines theirs))"
  shows "Merge3 mb base ours theirs =
     Some (concat (concat (map (\<lambda>(b, o', t, s). ur_lines (mergeUnsyncedRegion b o' t) @ s) cs)),
           sum_list (map (\<lambda>(b, o', t, s). ur_conflicts (mergeUnsyncedRegion b o' t)) cs))"
  unfolding Merge3_def merge3Lines_def Join_Nil_sep
    merge_regions_chunks [OF findSyncRegions_ok [OF assms(1)]] by (simp add: cs_def)

lemma ur_conflicts_merge:
  "ur_conflicts (mergeUnsyncedRegion b o' t) = (if o' \<noteq> b \<and> t \<noteq> b \<and> o' \<noteq> t then 1 else 0)"
  by (auto simp: mergeUnsyncedRegion_def Let_def)

lemma conflict_marker_in:
  assumes "(b, o', t, s) \<in> set cs" "ur_conflicts (mergeUnsyncedRegion b o' t) > 0"
  shows "hasConflictMarkers (concat (concat (map (\<lambda>(b, o', t, s). ur_lines (mergeUnsyncedRegion b o' t) @ s) cs)))"
proof -
  have "ur_lines (mergeUnsyncedRegion b o' t) = conflictRegion b o' t"
    using assms(2) by (auto simp: mergeUnsyncedRegion_def Let_def split: if_splits)
  then obtain rest where "ur_lines (mergeUnsyncedRegion b o' t) @ s = (mergeConflictStart @ nl) # rest"
    by (simp add: conflictRegion_def)
  moreover obtain cs1 cs2 where "cs = cs1 @ (b, o', t, s) # cs2" using assms(1) by (meson split_list)
  ultimately show ?thesis unfolding hasConflictMarkers_def Contains_iff by simp blast
qed

lemma sum_list_pos: "(0::nat) < sum_list (map f xs) \<Longrightarrow> \<exists>x \<in> set xs. 0 < f x"
  by (induction xs) auto

lemma findSyncRegions_diag:
  "(\<forall>r \<in> set (findSyncRegions mb base x x). OursStart r = TheirsStart r \<and> OursEnd r = TheirsEnd r)"
  "\<forall>m \<in> set (mb base base). m_A m = m_B m \<Longrightarrow>
     \<forall>r \<in> set (findSyncRegions mb base ours base). TheirsStart r = BaseStart r \<and> TheirsEnd r = BaseEnd r"
  "\<forall>m \<in> set (mb base base). m_A m = m_B m \<Longrightarrow>
     \<forall>r \<in> set (findSyncRegions mb base base theirs). OursStart r = BaseStart r \<and> OursEnd r = BaseEnd r"
  unfolding findSyncRegions_def
  by (rule coalesce_all; use intersect_same intersect_theirs_diag intersect_ours_diag in simp)+

text \<open>A matcher for the witnesses: the common prefix, then the empty block at the end.\<close>

fun common :: "string list \<Rightarrow> string list \<Rightarrow> nat" where
  "common (a # as) (b # bs) = (if a = b then Suc (common as bs) else 0)"
| "common _ _ = 0"

definition prefix_matcher :: matcher where
  "prefix_matcher a b =
     [\<lparr>m_A = 0, m_B = 0, m_Size = common a b\<rparr>, \<lparr>m_A = length a, m_B = length b, m_Size = 0\<rparr>]"

lemma common_take: "common a b \<le> length a \<and> common a b \<le> length b \<and> take (common a b) a = take (common a b) b"
  by (induction a b rule: common.induct) auto

lemma common_self [simp]: "common a a = length a"
  by (induction a) auto

lemma prefix_matcher_ok: "blocks_ok prefix_matcher"
  using common_take by (auto simp: blocks_ok_def prefix_matcher_def)

subsection \<open>Properties\<close>



text \<open>Merges that cannot conflict. When both sides made the same change the result is that
  change; when one side is unchanged, and the matcher aligns a sequence with itself on the
  diagonal, the result is the other side. In all three cases there is no conflict.\<close>

theorem Merge3_trivial:
  assumes "blocks_ok mb"
  shows "Merge3 mb base x x = Some (x, 0) \<and>
    ((\<forall>a. \<forall>m \<in> set (mb a a). m_A m = m_B m) \<longrightarrow>
       Merge3 mb base x base = Some (x, 0) \<and> Merge3 mb base base x = Some (x, 0))"
proof -
  let ?b = "splitLines base" and ?x = "splitLines x"
  note ok = findSyncRegions_ok [OF assms]
  have "\<forall>(b, o', t, s) \<in> set (chunks ?b ?x ?x 0 0 0 (findSyncRegions mb ?b ?x ?x)). o' = t"
    by (rule chunks_ours_theirs [OF findSyncRegions_diag(1)])
  then have "merge3Lines mb ?b ?x ?x = Some (?x, 0)"
    unfolding merge3Lines_def by (intro merge_clean ok) auto
  moreover have "merge3Lines mb ?b ?x ?b = Some (?x, 0)" "merge3Lines mb ?b ?b ?x = Some (?x, 0)"
    if diag: "\<forall>a. \<forall>m \<in> set (mb a a). m_A m = m_B m"
  proof -
    have d: "\<forall>m \<in> set (mb ?b ?b). m_A m = m_B m" using diag by blast
    have "\<forall>(b, o', t, s) \<in> set (chunks ?b ?x ?b 0 0 0 (findSyncRegions mb ?b ?x ?b)). t = b"
      by (rule chunks_base_theirs [OF findSyncRegions_diag(2) [of mb ?b, OF d]])
    then show "merge3Lines mb ?b ?x ?b = Some (?x, 0)"
      unfolding merge3Lines_def by (intro merge_clean ok) auto
    have "\<forall>(b, o', t, s) \<in> set (chunks ?b ?b ?x 0 0 0 (findSyncRegions mb ?b ?b ?x)). o' = b"
      by (rule chunks_base_ours [OF findSyncRegions_diag(3) [of mb ?b, OF d]])
    then show "merge3Lines mb ?b ?b ?x = Some (?x, 0)"
      unfolding merge3Lines_def by (intro merge_clean_theirs ok) auto
  qed
  ultimately show ?thesis by (simp add: Merge3_def Join_Nil_sep)
qed

theorem Merge3_trivial_witness:
  "Merge3 prefix_matcher ''old'' ''new'' ''new'' = Some (''new'', 0) \<and>
   Merge3 prefix_matcher ''old'' ''new'' ''old'' = Some (''new'', 0)"
proof -
  have "\<forall>a. \<forall>m \<in> set (prefix_matcher a a). m_A m = m_B m" by (simp add: prefix_matcher_def)
  then show ?thesis
    using Merge3_trivial [OF prefix_matcher_ok, of "''old''" "''new''"] by simp
qed

lemma blocks_disjoint:
  "set a \<inter> set b = {} \<Longrightarrow> blocks_from a b i j ms \<Longrightarrow> \<forall>m \<in> set ms. m_Size m = 0"
proof (induction ms arbitrary: i j)
  case (Cons m ms)
  have "m_Size m = 0"
  proof (rule ccontr)
    assume "m_Size m \<noteq> 0"
    then have "a ! m_A m = b ! m_B m" "m_A m < length a" "m_B m < length b"
      using Cons.prems(2) by (auto dest!: arg_cong [where f = "\<lambda>l. l ! 0"])
    then show False using Cons.prems(1) by (metis disjoint_iff nth_mem)
  qed
  with Cons show ?case by auto
qed simp

lemma intersect_empty_blocks:
  "\<forall>m \<in> set oms. m_Size m = 0 \<Longrightarrow> intersect_blocks oms tms = []"
proof (rule ccontr)
  assume zero: "\<forall>m \<in> set oms. m_Size m = 0" and "intersect_blocks oms tms \<noteq> []"
  then obtain r where "r \<in> set (intersect_blocks oms tms)" by (meson list.set_sel(1))
  then show False using zero
    by (induction oms tms rule: intersect_blocks.induct) (auto simp: Let_def split: if_splits)
qed

text \<open>C11: A conflict marker can share its line with content. When the versions have no line in
  common the whole file is one conflict, and the output is the three versions between the
  markers as they are; so if the local version does not end with a newline its last line and
  the base marker form one line.\<close>

theorem Merge3_disjoint_conflict:
  assumes "blocks_ok mb" "set (splitLines base) \<inter> set (splitLines ours) = {}"
    "base \<noteq> ours" "base \<noteq> theirs" "ours \<noteq> theirs"
  shows "Merge3 mb base ours theirs =
    Some (mergeConflictStart @ nl @ ours @ mergeConflictBase @ nl @ base @ mergeConflictSep @ nl @
          theirs @ mergeConflictEnd @ nl, 1)"
proof -
  have "\<forall>m \<in> set (mb (splitLines base) (splitLines ours)). m_Size m = 0"
    using assms(1) blocks_disjoint [OF assms(2)] unfolding blocks_ok_def by blast
  then have "findSyncRegions mb (splitLines base) (splitLines ours) (splitLines theirs) = []"
    by (simp add: findSyncRegions_def intersect_empty_blocks)
  moreover have "splitLines x = splitLines y \<Longrightarrow> x = y" for x y by (metis concat_splitLines)
  ultimately show ?thesis
    using assms(3-5) by (auto simp: Merge3_def merge3Lines_def slice_def Let_def mergeUnsyncedRegion_def
        conflictRegion_def Join_Nil_sep)
qed

theorem Merge3_disjoint_conflict_witness:
  "Merge3 prefix_matcher (''a'' @ nl) ''b'' ''c'' =
    Some (''<<<<<<< MONOFS-LOCAL'' @ nl @ ''b||||||| BASE'' @ nl @ ''a'' @ nl @ ''======='' @ nl @
          ''c>>>>>>> MONOFS-UPSTREAM'' @ nl, 1)"
proof -
  have "set (splitLines (''a'' @ nl)) \<inter> set (splitLines ''b'') = {}"
    by (simp add: splitLines_def nl_def)
  from Merge3_disjoint_conflict [OF prefix_matcher_ok this, of "''c''"] show ?thesis
    by (simp add: nl_def mergeConflictStart_def mergeConflictBase_def mergeConflictSep_def mergeConflictEnd_def)
qed

end
