(* ===== verification/GoJson.thy ===== *)
theory GoJson
  imports GoUtf8 GoNum GoHash
begin

text \<open>
  \<^verbatim>\<open>encoding/json\<close> as far as the sources hash its output: the text of a JSON value whose
  objects list their members in the order in which \<open>json.Marshal\<close> writes them (struct fields in
  declaration order, map keys sorted). Strings are escaped as \<open>Marshal\<close> does it, with the HTML
  characters escaped and every invalid byte replaced.
\<close>

datatype json = JNull | JBool bool | JInt int | JStr string | JArr "json list" | JObj "(string \<times> json) list"

definition bslash :: char where "bslash = CHR 0x5C"

definition u_escape :: "nat \<Rightarrow> string" where
  "u_escape r = [bslash, CHR ''u'', hex_digit (r div 4096), hex_digit (r div 256 mod 16), hex_digit (r div 16 mod 16), hex_digit (r mod 16)]"

definition escape_byte :: "nat \<Rightarrow> string" where
  "escape_byte b =
     (if b = 34 then [bslash, CHR 0x22] else if b = 92 then [bslash, bslash]
      else if b = 8 then [bslash, CHR ''b''] else if b = 12 then [bslash, CHR ''f'']
      else if b = 10 then [bslash, CHR ''n''] else if b = 13 then [bslash, CHR ''r'']
      else if b = 9 then [bslash, CHR ''t'']
      else if b < 32 \<or> b = 60 \<or> b = 62 \<or> b = 38 then u_escape b
      else [char_of b])"

function escape :: "string \<Rightarrow> string" where
  "escape s =
     (if s = [] then []
      else let (r, n) = DecodeRune s in
        (if byte_at s 0 < 0x80 then escape_byte (byte_at s 0)
         else if r = RuneError \<and> n = 1 then u_escape RuneError
         else if r = 0x2028 \<or> r = 0x2029 then u_escape r
         else take n s) @ escape (drop n s))"
  by pat_completeness auto
termination
proof (relation "measure length")
  fix s :: string and x r n
  assume "s \<noteq> []" "x = DecodeRune s" "(r, n) = x"
  then have "0 < n" using DecodeRune_width [of s] by (metis snd_conv)
  with \<open>s \<noteq> []\<close> show "(drop n s, s) \<in> measure length" by simp
qed simp

declare escape.simps [simp del]

definition quote :: "string \<Rightarrow> string" where
  "quote s = CHR 0x22 # escape s @ [CHR 0x22]"

fun json_Marshal :: "json \<Rightarrow> string" and json_elems :: "json list \<Rightarrow> string" and json_members :: "(string \<times> json) list \<Rightarrow> string" where
  "json_Marshal JNull = ''null''"
| "json_Marshal (JBool b) = (if b then ''true'' else ''false'')"
| "json_Marshal (JInt i) = Itoa i"
| "json_Marshal (JStr s) = quote s"
| "json_Marshal (JArr xs) = CHR ''['' # json_elems xs @ '']''"
| "json_Marshal (JObj ms) = CHR ''{'' # json_members ms @ ''}''"
| "json_elems [] = ''''"
| "json_elems [x] = json_Marshal x"
| "json_elems (x # y # xs) = json_Marshal x @ '','' @ json_elems (y # xs)"
| "json_members [] = ''''"
| "json_members [(k, v)] = quote k @ '':'' @ json_Marshal v"
| "json_members ((k, v) # m # ms) = quote k @ '':'' @ json_Marshal v @ '','' @ json_members (m # ms)"

text \<open>A struct field tagged \<open>omitempty\<close>, and a slice, which is \<open>null\<close> when it was never appended to.\<close>

definition omit_str :: "string \<Rightarrow> string \<Rightarrow> (string \<times> json) list" where
  "omit_str k s = (if s = '''' then [] else [(k, JStr s)])"

definition omit_list :: "string \<Rightarrow> json list \<Rightarrow> (string \<times> json) list" where
  "omit_list k xs = (if xs = [] then [] else [(k, JArr xs)])"

definition nil_slice :: "json list \<Rightarrow> json" where
  "nil_slice xs = (if xs = [] then JNull else JArr xs)"

end
