(* ===== verification/AccessPolicy.thy ===== *)
theory AccessPolicy
  imports Authz GoJson GoPath
begin

section \<open>The access policy\<close>

text \<open>
  The decisions of the package \<^verbatim>\<open>src/pkg/authz/policy\<close>: the bundle with its index of AWS
  bindings and its access decisions (\<^verbatim>\<open>policy.go\<close>, \<^verbatim>\<open>match.go\<close>).
\<close>

subsection \<open>Bundles\<close>

definition ScopePartitions :: string where "ScopePartitions = ''partitions''"
definition ScopeLogs :: string where "ScopeLogs = ''logs''"
definition ScopeTraces :: string where "ScopeTraces = ''traces''"
definition ScopeMonoFS :: string where "ScopeMonoFS = ''monofs''"
definition SignalMetrics :: string where "SignalMetrics = ''metrics''"
definition SignalLogs :: string where "SignalLogs = ''logs''"
definition SignalTraces :: string where "SignalTraces = ''traces''"

definition AllScopes :: "string list" where
  "AllScopes = [ScopePartitions, ScopeLogs, ScopeTraces, ScopeMonoFS]"

record Defaults =
  df_Partitions :: bool
  df_Logs :: bool
  df_Traces :: bool
  df_MonoFS :: bool

definition defaults_allows :: "Defaults \<Rightarrow> string \<Rightarrow> bool" where
  "defaults_allows d scope =
     (if scope = ScopePartitions then df_Partitions d
      else if scope = ScopeLogs then df_Logs d
      else if scope = ScopeTraces then df_Traces d
      else if scope = ScopeMonoFS then df_MonoFS d
      else False)"

record AWSBinding =
  ab_Partition :: string
  ab_Account :: string
  ab_Region :: string

record PolicyGrant =
  pg_Group :: string
  pg_User :: string
  pg_Client :: string
  pg_Partitions :: "string list"
  pg_Logs :: "string list"
  pg_Traces :: "string list"
  pg_MonoFS :: "string list"
  pg_Role :: string
  pg_Deny :: "string list"

record Bundle =
  bu_FormatVersion :: int
  bu_Version :: string
  bu_GeneratedAt :: string
  bu_Defaults :: Defaults
  bu_Grants :: "PolicyGrant list"
  bu_AWSBindings :: "AWSBinding list"
  bu_CatalogDigest :: string

record Policy =
  po_bundle :: Bundle
  po_awsExact :: "string \<Rightarrow> string option"
  po_awsAccount :: "string \<Rightarrow> string option"
  po_awsRegion :: "string \<Rightarrow> string option"
  po_awsRegionFallback :: "string \<Rightarrow> string option"
  po_awsWildcard :: string

subsection \<open>The index of AWS bindings\<close>

definition put_absent :: "'k \<Rightarrow> 'v \<Rightarrow> ('k \<Rightarrow> 'v option) \<Rightarrow> 'k \<Rightarrow> 'v option" where
  "put_absent k v m = (case m k of None \<Rightarrow> m(k \<mapsto> v) | Some _ \<Rightarrow> m)"

definition aws_key :: "string \<Rightarrow> string \<Rightarrow> string" where
  "aws_key account region = account @ [CHR 0x00] @ region"

definition index_binding :: "Policy \<Rightarrow> AWSBinding \<Rightarrow> Policy" where
  "index_binding p binding =
     (let part = TrimSpace (ab_Partition binding) in
      if part = '''' then p
      else let account = TrimSpace (ab_Account binding); region = TrimSpace (ab_Region binding) in
        if account \<noteq> '''' \<and> region \<noteq> '''' then
          p\<lparr>po_awsExact := put_absent (aws_key account region) part (po_awsExact p),
            po_awsRegionFallback := put_absent region part (po_awsRegionFallback p)\<rparr>
        else if account \<noteq> '''' then p\<lparr>po_awsAccount := put_absent account part (po_awsAccount p)\<rparr>
        else if region \<noteq> '''' then
          p\<lparr>po_awsRegion := put_absent region part (po_awsRegion p),
            po_awsRegionFallback := put_absent region part (po_awsRegionFallback p)\<rparr>
        else if po_awsWildcard p = '''' then p\<lparr>po_awsWildcard := part\<rparr>
        else p)"

definition indexAWSBindings :: "Policy \<Rightarrow> Policy" where
  "indexAWSBindings p = foldl index_binding p (bu_AWSBindings (po_bundle p))"

definition policy_New :: "Bundle \<Rightarrow> Policy" where
  "policy_New bundle = indexAWSBindings
     \<lparr>po_bundle = bundle, po_awsExact = Map.empty, po_awsAccount = Map.empty, po_awsRegion = Map.empty,
      po_awsRegionFallback = Map.empty, po_awsWildcard = ''''\<rparr>"

definition or_wildcard :: "string \<Rightarrow> string option \<Rightarrow> string option" where
  "or_wildcard w found = (case found of Some part \<Rightarrow> Some part | None \<Rightarrow> if w \<noteq> '''' then Some w else None)"

definition PartitionForAWS :: "Policy option \<Rightarrow> string \<Rightarrow> string \<Rightarrow> string option" where
  "PartitionForAWS pol account region =
     (case pol of
        None \<Rightarrow> None
      | Some p \<Rightarrow>
          (let account = TrimSpace account; region = TrimSpace region in
           if account = '''' \<and> region = '''' then None
           else or_wildcard (po_awsWildcard p)
             (if account \<noteq> '''' then
                (case (if region \<noteq> '''' then po_awsExact p (aws_key account region) else None) of
                   Some part \<Rightarrow> Some part
                 | None \<Rightarrow>
                     (case po_awsAccount p account of
                        Some part \<Rightarrow> Some part
                      | None \<Rightarrow> if region \<noteq> '''' then po_awsRegion p region else None))
              else po_awsRegionFallback p region)))"

subsection \<open>Decisions\<close>

definition grant_matches :: "PolicyGrant \<Rightarrow> Identity \<Rightarrow> bool" where
  "grant_matches g ident =
     (if IsAnonymous ident then False
      else if pg_Client g \<noteq> '''' then id_ClientID ident \<noteq> '''' \<and> pg_Client g = id_ClientID ident
      else if pg_User g \<noteq> '''' then
        (if id_Subject ident \<noteq> '''' \<and> pg_User g = id_Subject ident then True
         else id_Email ident \<noteq> '''' \<and> EqualFold (pg_User g) (id_Email ident))
      else if pg_Group g \<noteq> '''' then HasGroup ident (pg_Group g)
      else False)"

definition deniesScope :: "PolicyGrant \<Rightarrow> string \<Rightarrow> bool" where
  "deniesScope g scope = list_ex (\<lambda>d. d = scope) (pg_Deny g)"

definition scopeAllows :: "string list \<Rightarrow> string \<Rightarrow> bool" where
  "scopeAllows xs name = list_ex (\<lambda>item. item = ''*'' \<or> item = name) xs"

definition roleRank :: "string \<Rightarrow> int" where
  "roleRank r = (if r = RoleViewer then 1 else if r = RoleIngester then 2 else if r = RoleMaintainer then 3
     else if r = RoleAdmin then 4 else 0)"

definition matching :: "Policy \<Rightarrow> Identity \<Rightarrow> PolicyGrant list" where
  "matching p ident = filter (\<lambda>g. grant_matches g ident) (bu_Grants (po_bundle p))"

definition denied :: "Policy \<Rightarrow> Identity \<Rightarrow> string \<Rightarrow> bool" where
  "denied p ident scope = list_ex (\<lambda>g. deniesScope g scope) (matching p ident)"

definition IsAdmin :: "Policy option \<Rightarrow> Identity \<Rightarrow> bool" where
  "IsAdmin pol ident =
     (case pol of
        None \<Rightarrow> False
      | Some p \<Rightarrow>
          if IsAnonymous ident then False
          else list_ex (\<lambda>g. pg_Role g = RoleAdmin \<and> grant_matches g ident) (bu_Grants (po_bundle p)))"

definition scope_list :: "PolicyGrant \<Rightarrow> string \<Rightarrow> string list" where
  "scope_list g scope =
     (if scope = ScopePartitions then pg_Partitions g
      else if scope = ScopeLogs then pg_Logs g
      else if scope = ScopeTraces then pg_Traces g
      else [])"

definition policy_can :: "Policy option \<Rightarrow> Identity \<Rightarrow> string \<Rightarrow> string \<Rightarrow> bool" where
  "policy_can pol ident scope part =
     (case pol of
        None \<Rightarrow> False
      | Some p \<Rightarrow>
          if IsAnonymous ident then False
          else if IsAdmin pol ident then True
          else if denied p ident scope then False
          else if list_ex (\<lambda>g. \<not> deniesScope g scope \<and> scopeAllows (scope_list g scope) part) (matching p ident) then True
          else defaults_allows (bu_Defaults (po_bundle p)) scope)"

definition CanSeePartition :: "Policy option \<Rightarrow> Identity \<Rightarrow> string \<Rightarrow> bool" where
  "CanSeePartition pol ident part = policy_can pol ident ScopePartitions part"

definition CanReadSignal :: "Policy option \<Rightarrow> Identity \<Rightarrow> string \<Rightarrow> string \<Rightarrow> bool" where
  "CanReadSignal pol ident part signal =
     (if signal = SignalMetrics then True
      else if signal = SignalLogs then policy_can pol ident ScopeLogs part
      else if signal = SignalTraces then policy_can pol ident ScopeTraces part
      else False)"

text \<open>\<open>pathAllowed\<close> of \<^verbatim>\<open>match.go\<close>, one pattern at a time.\<close>

definition pattern_allows :: "string \<Rightarrow> string \<Rightarrow> bool" where
  "pattern_allows pattern displayPath =
     (let p = Trim (TrimSpace pattern) CHR ''/'' in
      if p = '''' then False
      else if p = ''*'' then True
      else if HasSuffix p ''/**'' then
        (let pre = TrimSuffix p ''/**'' in displayPath = pre \<or> HasPrefix displayPath (pre @ ''/''))
      else path_Match p displayPath = Some True)"

definition pathAllowed :: "string list \<Rightarrow> string \<Rightarrow> bool" where
  "pathAllowed patterns displayPath =
     (let displayPath = Trim (TrimSpace displayPath) CHR ''/'' in
      if displayPath = '''' then False else list_ex (\<lambda>p. pattern_allows p displayPath) patterns)"

definition CanReadPath :: "Policy option \<Rightarrow> Identity \<Rightarrow> string \<Rightarrow> bool" where
  "CanReadPath pol ident displayPath =
     (case pol of
        None \<Rightarrow> False
      | Some p \<Rightarrow>
          if IsAnonymous ident then False
          else if IsAdmin pol ident then True
          else if denied p ident ScopeMonoFS then False
          else if list_ex (\<lambda>g. pathAllowed (pg_MonoFS g) displayPath) (matching p ident) then True
          else df_MonoFS (bu_Defaults (po_bundle p)))"

fun best_role :: "string \<Rightarrow> string \<Rightarrow> PolicyGrant list \<Rightarrow> string" where
  "best_role part best [] = best"
| "best_role part best (g # gs) =
     (if pg_Role g = '''' \<or> deniesScope g ScopePartitions then best_role part best gs
      else if \<not> scopeAllows (pg_Partitions g) part then best_role part best gs
      else best_role part (if roleRank (pg_Role g) > roleRank best then pg_Role g else best) gs)"

definition policy_Role :: "Policy option \<Rightarrow> Identity \<Rightarrow> string \<Rightarrow> string" where
  "policy_Role pol ident part =
     (case pol of
        None \<Rightarrow> ''''
      | Some p \<Rightarrow> if IsAnonymous ident then '''' else best_role part '''' (matching p ident))"

text \<open>\<open>VisiblePartitions\<close>; \<open>None\<close> stands for the wildcard result. The keys of \<open>seen\<close> are collected
  and sorted.\<close>

definition VisiblePartitions :: "Policy option \<Rightarrow> Identity \<Rightarrow> string list option" where
  "VisiblePartitions pol ident =
     (case pol of
        None \<Rightarrow> Some []
      | Some p \<Rightarrow>
          if IsAnonymous ident then Some []
          else if IsAdmin pol ident then None
          else if denied p ident ScopePartitions then Some []
          else let names = concat (map pg_Partitions (matching p ident)) in
            if ''*'' \<in> set names then None else Some (sort_slice (<) (remdups names)))"

definition ResolveVisiblePartitions :: "Policy option \<Rightarrow> Identity \<Rightarrow> string list \<Rightarrow> string list" where
  "ResolveVisiblePartitions pol ident catalog =
     (case VisiblePartitions pol ident of None \<Rightarrow> catalog | Some names \<Rightarrow> names)"

record Explanation =
  ex_Admin :: bool
  ex_Matches :: "PolicyGrant list"
  ex_Defaults :: Defaults

definition policy_Defaults :: "Policy option \<Rightarrow> Defaults" where
  "policy_Defaults pol =
     (case pol of None \<Rightarrow> \<lparr>df_Partitions = False, df_Logs = False, df_Traces = False, df_MonoFS = False\<rparr>
      | Some p \<Rightarrow> bu_Defaults (po_bundle p))"

definition Explain :: "Policy option \<Rightarrow> Identity \<Rightarrow> Explanation" where
  "Explain pol ident =
     \<lparr>ex_Admin = IsAdmin pol ident,
      ex_Matches = (case pol of None \<Rightarrow> [] | Some p \<Rightarrow> matching p ident),
      ex_Defaults = policy_Defaults pol\<rparr>"

subsection \<open>The index answers like a scan\<close>

definition acct :: "AWSBinding \<Rightarrow> string" where "acct b = TrimSpace (ab_Account b)"
definition regn :: "AWSBinding \<Rightarrow> string" where "regn b = TrimSpace (ab_Region b)"
definition partn :: "AWSBinding \<Rightarrow> string" where "partn b = TrimSpace (ab_Partition b)"

text \<open>The partition of the first usable binding with a property.\<close>

definition first_with :: "(AWSBinding \<Rightarrow> bool) \<Rightarrow> AWSBinding list \<Rightarrow> string option" where
  "first_with P bs = map_option partn (find (\<lambda>b. partn b \<noteq> [] \<and> P b) bs)"

lemma find_snoc: "find P (xs @ [x]) = (case find P xs of Some y \<Rightarrow> Some y | None \<Rightarrow> if P x then Some x else None)"
  by (induction xs) simp_all

lemma first_with_Nil [simp]: "first_with P [] = None"
  by (simp add: first_with_def)

lemma first_with_snoc:
  "first_with P (bs @ [b]) = (case first_with P bs of Some p \<Rightarrow> Some p
     | None \<Rightarrow> if partn b \<noteq> [] \<and> P b then Some (partn b) else None)"
  by (simp add: first_with_def find_snoc split: option.split)

lemma first_with_nonempty: "first_with P bs \<noteq> Some []"
  by (auto simp: first_with_def find_Some_iff)

lemma put_absent_get: "put_absent k v m k' = (case m k' of Some x \<Rightarrow> Some x | None \<Rightarrow> if k' = k then Some v else None)"
  by (auto simp: put_absent_def split: option.split)

definition wildcard_text :: "string option \<Rightarrow> string" where
  "wildcard_text w = (case w of None \<Rightarrow> [] | Some p \<Rightarrow> p)"

lemma index_spec:
  fixes b0 :: Bundle
  defines "p0 \<equiv> \<lparr>po_bundle = b0, po_awsExact = Map.empty, po_awsAccount = Map.empty, po_awsRegion = Map.empty,
      po_awsRegionFallback = Map.empty, po_awsWildcard = []\<rparr>"
  shows "po_awsExact (foldl index_binding p0 bs) k =
      first_with (\<lambda>b. acct b \<noteq> [] \<and> regn b \<noteq> [] \<and> aws_key (acct b) (regn b) = k) bs \<and>
    po_awsAccount (foldl index_binding p0 bs) a = first_with (\<lambda>b. acct b \<noteq> [] \<and> regn b = [] \<and> acct b = a) bs \<and>
    po_awsRegion (foldl index_binding p0 bs) r = first_with (\<lambda>b. acct b = [] \<and> regn b \<noteq> [] \<and> regn b = r) bs \<and>
    po_awsRegionFallback (foldl index_binding p0 bs) r = first_with (\<lambda>b. regn b \<noteq> [] \<and> regn b = r) bs \<and>
    po_awsWildcard (foldl index_binding p0 bs) = wildcard_text (first_with (\<lambda>b. acct b = [] \<and> regn b = []) bs)"
proof (induction bs rule: rev_induct)
  case Nil
  show ?case by (simp add: p0_def wildcard_text_def)
next
  case (snoc b bs)
  have w: "wildcard_text w = [] \<longleftrightarrow> w = None" if "w \<noteq> Some []" for w :: "string option"
    using that by (auto simp: wildcard_text_def split: option.splits)
  note w = w [OF first_with_nonempty]
  show ?case
    using snoc w [of "\<lambda>b. acct b = [] \<and> regn b = []" bs]
    by (cases "partn b = []"; cases "acct b = []"; cases "regn b = []")
      (auto simp: index_binding_def Let_def acct_def [symmetric] regn_def [symmetric] partn_def [symmetric]
        first_with_snoc put_absent_get wildcard_text_def split: option.splits)
qed

lemma set_TrimSpace: "set (TrimSpace s) \<subseteq> set s"
  unfolding TrimSpace_def Trim_by_def TrimRight_by_def by (auto dest!: set_dropWhileD)

lemma aws_key_inject:
  "CHR 0x00 \<notin> set a \<Longrightarrow> CHR 0x00 \<notin> set a' \<Longrightarrow> aws_key a r = aws_key a' r' \<longleftrightarrow> a = a' \<and> r = r'"
proof (induction a arbitrary: a')
  case Nil
  then show ?case by (cases a') (auto simp: aws_key_def)
next
  case (Cons x a)
  then show ?case by (cases a') (auto simp: aws_key_def)
qed

text \<open>The specificity order, as a scan of the bindings: account and region, the account alone, the
  region alone, everything. Without an account the first binding with the region counts.\<close>

definition first_some :: "'a option list \<Rightarrow> 'a option" where
  "first_some xs = (case find (\<lambda>x. x \<noteq> None) xs of None \<Rightarrow> None | Some x \<Rightarrow> x)"

definition scan_bindings :: "AWSBinding list \<Rightarrow> string \<Rightarrow> string \<Rightarrow> string option" where
  "scan_bindings bs a r =
     (if a = [] \<and> r = [] then None
      else first_some
        ((if a \<noteq> [] then
            (if r \<noteq> [] then [first_with (\<lambda>b. acct b = a \<and> regn b = r) bs] else []) @
            [first_with (\<lambda>b. acct b = a \<and> regn b = []) bs] @
            (if r \<noteq> [] then [first_with (\<lambda>b. acct b = [] \<and> regn b = r) bs] else [])
          else [first_with (\<lambda>b. regn b = r) bs]) @
         [first_with (\<lambda>b. acct b = [] \<and> regn b = []) bs]))"

lemma first_with_cong:
  "(\<And>b. b \<in> set bs \<Longrightarrow> P b \<longleftrightarrow> Q b) \<Longrightarrow> first_with P bs = first_with Q bs"
  unfolding first_with_def by (rule arg_cong [where f = "map_option partn"], rule find_cong) auto

subsection \<open>Properties\<close>

text \<open>The index of AWS bindings answers like a scan of the list in the documented order of
  specificity: the first binding with the record's account and region, else the first with the account
  alone, else the first with the region alone, else the first without either; a record without an
  account gets the first binding with its region, and a record without both gets none. (Accounts do not
  contain the NUL byte that separates account and region in the index.)\<close>

theorem PartitionForAWS_correct:
  assumes "CHR 0x00 \<notin> set account" "list_all (\<lambda>b. CHR 0x00 \<notin> set (ab_Account b)) (bu_AWSBindings bu)"
  shows "PartitionForAWS (Some (policy_New bu)) account region =
    scan_bindings (bu_AWSBindings bu) (TrimSpace account) (TrimSpace region)"
proof -
  let ?bs = "bu_AWSBindings bu" and ?a = "TrimSpace account" and ?r = "TrimSpace region"
  have nul: "CHR 0x00 \<notin> set ?a" using assms(1) set_TrimSpace by blast
  have nulb: "CHR 0x00 \<notin> set (acct b)" if "b \<in> set ?bs" for b
    using that assms(2) set_TrimSpace [of "ab_Account b"] unfolding acct_def list_all_iff by blast
  have key: "first_with (\<lambda>b. acct b \<noteq> [] \<and> regn b \<noteq> [] \<and> aws_key (acct b) (regn b) = aws_key ?a ?r) ?bs =
      first_with (\<lambda>b. acct b = ?a \<and> regn b = ?r) ?bs" if "?a \<noteq> []" "?r \<noteq> []"
  proof (rule first_with_cong)
    fix b assume "b \<in> set ?bs"
    from aws_key_inject [OF nulb [OF this] nul, of "regn b" ?r] that
    show "(acct b \<noteq> [] \<and> regn b \<noteq> [] \<and> aws_key (acct b) (regn b) = aws_key ?a ?r) \<longleftrightarrow> acct b = ?a \<and> regn b = ?r" by metis
  qed
  have acc: "first_with (\<lambda>b. acct b \<noteq> [] \<and> regn b = [] \<and> acct b = ?a) ?bs = first_with (\<lambda>b. acct b = ?a \<and> regn b = []) ?bs"
    if "?a \<noteq> []" using that by (intro first_with_cong) metis
  have reg: "first_with (\<lambda>b. acct b = [] \<and> regn b \<noteq> [] \<and> regn b = ?r) ?bs = first_with (\<lambda>b. acct b = [] \<and> regn b = ?r) ?bs"
    "first_with (\<lambda>b. regn b \<noteq> [] \<and> regn b = ?r) ?bs = first_with (\<lambda>b. regn b = ?r) ?bs"
    if "?r \<noteq> []" using that by (rule_tac [!] first_with_cong) metis+
  define P where "P = policy_New bu"
  have P: "P = foldl index_binding \<lparr>po_bundle = bu, po_awsExact = Map.empty, po_awsAccount = Map.empty, po_awsRegion = Map.empty,
      po_awsRegionFallback = Map.empty, po_awsWildcard = []\<rparr> ?bs"
    by (simp add: P_def policy_New_def indexAWSBindings_def)
  note ix = index_spec [of bu ?bs, folded P]
  have wild: "or_wildcard (po_awsWildcard P) x = first_some [x, first_with (\<lambda>b. acct b = [] \<and> regn b = []) ?bs]" for x
    using ix first_with_nonempty [of "\<lambda>b. acct b = [] \<and> regn b = []" ?bs]
    by (auto simp: or_wildcard_def wildcard_text_def first_some_def split: option.splits)
  have flat: "first_some ([x, y]) = (case x of None \<Rightarrow> y | Some v \<Rightarrow> Some v)"
    "first_some (x # y # z # zs) = first_some ((case x of None \<Rightarrow> y | Some v \<Rightarrow> Some v) # z # zs)" for x y z :: "string option" and zs
    by (auto simp: first_some_def split: option.splits)
  show ?thesis
    unfolding PartitionForAWS_def scan_bindings_def option.case Let_def P_def [symmetric] wild
    using ix key acc reg by (cases "?a = []"; cases "?r = []") (simp_all add: flat split: option.split)
qed

definition sample_bundle :: Bundle where
  "sample_bundle = \<lparr>bu_FormatVersion = 1, bu_Version = ''v'', bu_GeneratedAt = '''',
     bu_Defaults = \<lparr>df_Partitions = False, df_Logs = False, df_Traces = False, df_MonoFS = False\<rparr>,
     bu_Grants = [\<lparr>pg_Group = ''dev'', pg_User = '''', pg_Client = '''', pg_Partitions = [''a''], pg_Logs = [], pg_Traces = [],
       pg_MonoFS = [''github.com/org/**''], pg_Role = ''viewer'', pg_Deny = [''logs'']\<rparr>],
     bu_AWSBindings = [\<lparr>ab_Partition = ''a'', ab_Account = ''1'', ab_Region = ''us''\<rparr>,
       \<lparr>ab_Partition = ''b'', ab_Account = ''1'', ab_Region = ''''\<rparr>],
     bu_CatalogDigest = ''''\<rparr>"

theorem PartitionForAWS_correct_witness:
  "PartitionForAWS (Some (policy_New sample_bundle)) ''1'' ''eu'' =
     scan_bindings (bu_AWSBindings sample_bundle) (TrimSpace ''1'') (TrimSpace ''eu'') \<and>
   scan_bindings (bu_AWSBindings sample_bundle) (TrimSpace ''1'') (TrimSpace ''eu'') = Some ''b''"
proof
  show "PartitionForAWS (Some (policy_New sample_bundle)) ''1'' ''eu'' =
     scan_bindings (bu_AWSBindings sample_bundle) (TrimSpace ''1'') (TrimSpace ''eu'')"
    by (rule PartitionForAWS_correct) (simp, code_simp)
qed code_simp

text \<open>The list of visible partitions agrees with the single decision up to the default: a partition
  is visible exactly if the list is the wildcard, if it contains the partition, or if the caller is
  authenticated and not denied and the default of the scope allows it. The list is sorted and has no
  repetitions.\<close>

theorem VisiblePartitions_correct:
  "(CanSeePartition (Some p) ident part \<longleftrightarrow>
      (case VisiblePartitions (Some p) ident of None \<Rightarrow> True | Some names \<Rightarrow> part \<in> set names) \<or>
      \<not> IsAnonymous ident \<and> \<not> denied p ident ScopePartitions \<and> df_Partitions (bu_Defaults (po_bundle p))) \<and>
   (case VisiblePartitions (Some p) ident of None \<Rightarrow> True | Some names \<Rightarrow> sorted names \<and> distinct names)"
proof -
  have "sorted (sort_slice (<) xs)" for xs :: "string list" using sorted_sort_slice_key [of "\<lambda>x. x" xs] by simp
  moreover have "list_ex (\<lambda>g. \<not> deniesScope g ScopePartitions \<and> scopeAllows (scope_list g ScopePartitions) part) (matching p ident)
      \<longleftrightarrow> ''*'' \<in> set (concat (map pg_Partitions (matching p ident))) \<or> part \<in> set (concat (map pg_Partitions (matching p ident)))"
    if "\<not> denied p ident ScopePartitions"
    using that by (auto simp: denied_def list_ex_iff scope_list_def scopeAllows_def)
  ultimately show ?thesis
    by (cases "IsAnonymous ident"; cases "IsAdmin (Some p) ident"; cases "denied p ident ScopePartitions")
      (simp_all add: CanSeePartition_def policy_can_def VisiblePartitions_def defaults_allows_def Let_def)
qed

end
