(* ===== verification/PolicyCompile.thy ===== *)
theory PolicyCompile
  imports AccessPolicy
begin

section \<open>Compiling the access policy\<close>

text \<open>
  The raw access document with its imports (\<^verbatim>\<open>src/pkg/authz/policy/parse.go\<close>) and its
  validation and compilation against the partition catalog (\<^verbatim>\<open>compile.go\<close>). The theorem at
  the end relates the decisions of the compiled bundle to the document.

  The YAML library is not part of the sources: \<open>ParseFile\<close> takes the decoded document. Lint
  findings keep the values they quote, not the formatted text. The time stamp of a bundle is an
  argument of \<open>build\<close>.
\<close>

subsection \<open>The raw document\<close>

record Subject =
  sj_Partitions :: "string list"
  sj_Logs :: "string list"
  sj_Traces :: "string list"
  sj_MonoFS :: "string list"
  sj_Role :: string
  sj_Deny :: "string list"

text \<open>A \<open>Selector\<close> is its labels. The decoded YAML document has the same fields as \<open>File\<close>.\<close>

record File =
  fi_Version :: int
  fi_Imports :: "string list"
  fi_Defaults :: "(string, string) gomap"
  fi_Selectors :: "(string, (string, string) gomap) gomap"
  fi_Groups :: "(string, Subject) gomap"
  fi_Users :: "(string, Subject) gomap"
  fi_Clients :: "(string, Subject) gomap"
  fi_AWSBindings :: "AWSBinding list"

datatype scope_error = AlwaysVisible string | UnknownScope string

definition validateScope :: "string \<Rightarrow> scope_error option" where
  "validateScope scope =
     (if scope = SignalMetrics then Some (AlwaysVisible scope)
      else if scope \<in> set AllScopes then None
      else Some (UnknownScope scope))"

datatype policy_error = ParseError string | UnsupportedVersion int | BadScope scope_error | SelectorWithoutLabels string
  | ImportDepth string | ImportCycle string | NoImportReader string | ImportFailed string string

definition ParseFile :: "(string, File) result \<Rightarrow> (policy_error, File) result" where
  "ParseFile decoded =
     (case decoded of
        Inl e \<Rightarrow> Inl (ParseError e)
      | Inr doc \<Rightarrow>
          if fi_Version doc \<noteq> 1 then Inl (UnsupportedVersion (fi_Version doc))
          else case List.map_filter (\<lambda>(scope, _). validateScope scope) (fi_Defaults doc) of
            e # _ \<Rightarrow> Inl (BadScope e)
          | [] \<Rightarrow>
              (case filter (\<lambda>(name, labels). labels = []) (fi_Selectors doc) of
                 (name, _) # _ \<Rightarrow> Inl (SelectorWithoutLabels name)
               | [] \<Rightarrow> Inr doc))"

definition merge_maps :: "('k, 'v) gomap \<Rightarrow> ('k, 'v) gomap \<Rightarrow> ('k, 'v) gomap" where
  "merge_maps base child = foldl (\<lambda>m (k, v). gm_set k v m) (foldl (\<lambda>m (k, v). gm_set k v m) [] base) child"

definition mergeFiles :: "File \<Rightarrow> File \<Rightarrow> File" where
  "mergeFiles base child =
     \<lparr>fi_Version = fi_Version base, fi_Imports = [],
      fi_Defaults = merge_maps (fi_Defaults base) (fi_Defaults child),
      fi_Selectors = merge_maps (fi_Selectors base) (fi_Selectors child),
      fi_Groups = merge_maps (fi_Groups base) (fi_Groups child),
      fi_Users = merge_maps (fi_Users base) (fi_Users child),
      fi_Clients = merge_maps (fi_Clients base) (fi_Clients child),
      fi_AWSBindings = (if fi_AWSBindings child \<noteq> [] then fi_AWSBindings child else fi_AWSBindings base)\<rparr>"

definition empty_file :: "int \<Rightarrow> File" where
  "empty_file version = \<lparr>fi_Version = version, fi_Imports = [], fi_Defaults = [], fi_Selectors = [], fi_Groups = [],
     fi_Users = [], fi_Clients = [], fi_AWSBindings = []\<rparr>"

text \<open>\<open>left\<close> is \<open>11 - depth\<close>: the recursion stops at depth eleven. \<open>seen\<close> holds the paths that
  are being loaded.\<close>

fun loadFile ::
  "(string \<Rightarrow> (string, File) result) \<Rightarrow> (string \<Rightarrow> (string, string) result) option \<Rightarrow> nat \<Rightarrow> string list \<Rightarrow>
   string \<Rightarrow> string \<Rightarrow> (policy_error, File) result"
and loadImports ::
  "(string \<Rightarrow> (string, File) result) \<Rightarrow> (string \<Rightarrow> (string, string) result) \<Rightarrow> nat \<Rightarrow> string list \<Rightarrow>
   string \<Rightarrow> File \<Rightarrow> string list \<Rightarrow> (policy_error, File) result"
where
  "loadFile decode read 0 seen basePath data = Inl (ImportDepth basePath)"
| "loadFile decode read (Suc left) seen basePath data =
     (if basePath \<in> set seen then Inl (ImportCycle basePath)
      else case ParseFile (decode data) of
        Inl e \<Rightarrow> Inl e
      | Inr file \<Rightarrow>
          if fi_Imports file = [] then Inr file
          else case read of
            None \<Rightarrow> Inl (NoImportReader basePath)
          | Some rd \<Rightarrow>
              (case loadImports decode rd left (basePath # seen) (path_Dir basePath) (empty_file (fi_Version file)) (fi_Imports file) of
                 Inl e \<Rightarrow> Inl e
               | Inr merged \<Rightarrow> Inr (mergeFiles merged file)))"
| "loadImports decode rd left seen dir merged [] = Inr merged"
| "loadImports decode rd left seen dir merged (imp # imps) =
     (case rd imp of
        Inl e \<Rightarrow> Inl (ImportFailed imp e)
      | Inr impData \<Rightarrow>
          (case loadFile decode (Some rd) left seen (path_Clean (path_Join dir imp)) impData of
             Inl e \<Rightarrow> Inl e
           | Inr base \<Rightarrow> loadImports decode rd left seen dir (mergeFiles merged base) imps))"

definition LoadFile ::
  "(string \<Rightarrow> (string, File) result) \<Rightarrow> (string \<Rightarrow> (string, string) result) option \<Rightarrow> string \<Rightarrow> string \<Rightarrow>
   (policy_error, File) result"
where
  "LoadFile decode read basePath data = loadFile decode read 11 [] basePath data"

subsection \<open>Validation\<close>

record Partition =
  pa_Name :: string
  pa_Labels :: "(string, string) gomap"

type_synonym Catalog = "Partition list"

datatype severity = SevError | SevWarning | SevInfo

datatype finding = BadDefaultScope scope_error | BadDefaultValue string string | AdminRole string string
  | BadRole string string string | BadDeny string string scope_error | DeniesUngranted string string string
  | EmptySubject string string | EmptyEntry string string string | SelectorMatchesNothing string string string string
  | GlobMatchesNothing string string string string | NotInCatalog string string string string
  | BindingWithoutPartition | BindingWithoutAccount string | BindingNotInCatalog string

type_synonym Issue = "severity \<times> finding"

definition hasErrors :: "Issue list \<Rightarrow> bool" where
  "hasErrors issues = list_ex (\<lambda>i. fst i = SevError) issues"

definition countErrors :: "Issue list \<Rightarrow> int" where
  "countErrors issues = int (length (filter (\<lambda>i. fst i = SevError) issues))"

definition label_of :: "Partition \<Rightarrow> string \<Rightarrow> string" where
  "label_of p k = (case gm_get (pa_Labels p) k of None \<Rightarrow> '''' | Some v \<Rightarrow> v)"

definition selects :: "(string, string) gomap \<Rightarrow> Partition \<Rightarrow> bool" where
  "selects labels p = list_all (\<lambda>(k, v). label_of p k = v) labels"

definition matchSelector :: "Catalog \<Rightarrow> (string, string) gomap \<Rightarrow> string list" where
  "matchSelector catalog labels = sort_slice (<) (map pa_Name (filter (selects labels) catalog))"

definition expandGlob :: "Catalog \<Rightarrow> string \<Rightarrow> string list" where
  "expandGlob catalog pattern = sort_slice (<) (map pa_Name (filter (\<lambda>p. path_Match pattern (pa_Name p) = Some True) catalog))"

definition in_catalog :: "Catalog \<Rightarrow> string \<Rightarrow> bool" where
  "in_catalog catalog name = list_ex (\<lambda>p. pa_Name p = name) catalog"

definition checkEntry :: "File \<Rightarrow> Catalog option \<Rightarrow> string \<Rightarrow> string \<Rightarrow> string \<Rightarrow> string \<Rightarrow> Issue list" where
  "checkEntry file catalog kind name scope entry =
     (let entry = TrimSpace entry in
      if entry = '''' then [(SevError, EmptyEntry kind name scope)]
      else if entry = ''*'' then []
      else case gm_get (fi_Selectors file) entry of
        Some labels \<Rightarrow>
          (case catalog of
             Some c \<Rightarrow> if matchSelector c labels = [] then [(SevWarning, SelectorMatchesNothing kind name scope entry)] else []
           | None \<Rightarrow> [])
      | None \<Rightarrow>
          if Contains entry ''*'' then
            (case catalog of
               Some c \<Rightarrow> if expandGlob c entry = [] then [(SevWarning, GlobMatchesNothing kind name scope entry)] else []
             | None \<Rightarrow> [])
          else case catalog of
            Some c \<Rightarrow> if in_catalog c entry then [] else [(SevWarning, NotInCatalog kind name scope entry)]
          | None \<Rightarrow> [])"

definition validate_subject :: "File \<Rightarrow> Catalog option \<Rightarrow> string \<Rightarrow> string \<Rightarrow> Subject \<Rightarrow> Issue list" where
  "validate_subject file catalog kind name sub =
     (if sj_Role sub \<noteq> '''' then
        (if sj_Role sub = RoleAdmin then [(SevInfo, AdminRole kind name)]
         else if \<not> role_Valid (sj_Role sub) then [(SevError, BadRole kind name (sj_Role sub))] else [])
      else []) @
     List.map_filter (\<lambda>scope. map_option (\<lambda>e. (SevError, BadDeny kind name e)) (validateScope scope)) (sj_Deny sub) @
     concat (map (checkEntry file catalog kind name ScopePartitions) (sj_Partitions sub)) @
     concat (map (checkEntry file catalog kind name ScopeLogs) (sj_Logs sub)) @
     concat (map (checkEntry file catalog kind name ScopeTraces) (sj_Traces sub)) @
     (let allowed = (if sj_Partitions sub \<noteq> [] then [ScopePartitions] else []) @
        (if sj_Logs sub \<noteq> [] then [ScopeLogs] else []) @ (if sj_Traces sub \<noteq> [] then [ScopeTraces] else [])
      in map (\<lambda>scope. (SevWarning, DeniesUngranted kind name scope))
           (filter (\<lambda>scope. scope \<notin> set allowed) (remdups (sj_Deny sub)))) @
     (if length (sj_Partitions sub) + length (sj_Logs sub) + length (sj_Traces sub) + length (sj_MonoFS sub) = 0 \<and>
         sj_Role sub = '''' \<and> sj_Deny sub = [] then [(SevWarning, EmptySubject kind name)] else [])"

definition validateSubjects :: "File \<Rightarrow> Catalog option \<Rightarrow> string \<Rightarrow> (string, Subject) gomap \<Rightarrow> Issue list" where
  "validateSubjects file catalog kind subjects = concat (map (\<lambda>(name, sub). validate_subject file catalog kind name sub) subjects)"

definition validate_default :: "string \<times> string \<Rightarrow> Issue list" where
  "validate_default = (\<lambda>(scope, v).
     (case validateScope scope of
        Some e \<Rightarrow> [(SevError, BadDefaultScope e)]
      | None \<Rightarrow> if v \<noteq> ''allow'' \<and> v \<noteq> ''deny'' then [(SevError, BadDefaultValue scope v)] else []))"

definition validate_binding :: "Catalog option \<Rightarrow> AWSBinding \<Rightarrow> Issue list" where
  "validate_binding catalog b =
     (if TrimSpace (ab_Partition b) = '''' then [(SevError, BindingWithoutPartition)]
      else (if ab_Account b = '''' \<and> ab_Region b = '''' then [(SevError, BindingWithoutAccount (ab_Partition b))] else []) @
        (case catalog of
           Some c \<Rightarrow> if in_catalog c (ab_Partition b) then [] else [(SevWarning, BindingNotInCatalog (ab_Partition b))]
         | None \<Rightarrow> []))"

definition validate :: "File \<Rightarrow> Catalog option \<Rightarrow> Issue list" where
  "validate file catalog =
     concat (map validate_default (fi_Defaults file)) @
     validateSubjects file catalog ''group'' (fi_Groups file) @
     validateSubjects file catalog ''user'' (fi_Users file) @
     validateSubjects file catalog ''client'' (fi_Clients file) @
     concat (map (validate_binding catalog) (fi_AWSBindings file))"

subsection \<open>Compilation\<close>

fun dedupe :: "string list \<Rightarrow> string list \<Rightarrow> string list" where
  "dedupe seen [] = []"
| "dedupe seen (item # xs) =
     (let item = TrimSpace item in
      if item = '''' \<or> item \<in> set seen then dedupe seen xs else item # dedupe (item # seen) xs)"

definition dedupeSorted :: "string list \<Rightarrow> string list" where
  "dedupeSorted xs = sort_slice (<) (dedupe [] xs)"

fun resolve_entries :: "File \<Rightarrow> Catalog option \<Rightarrow> string list \<Rightarrow> string list option" where
  "resolve_entries file catalog [] = Some []"
| "resolve_entries file catalog (entry # es) =
     (let entry = TrimSpace entry in
      if entry = '''' then resolve_entries file catalog es
      else if entry = ''*'' then None
      else map_option ((@)
        (case gm_get (fi_Selectors file) entry of
           Some labels \<Rightarrow> (case catalog of None \<Rightarrow> [] | Some c \<Rightarrow> matchSelector c labels)
         | None \<Rightarrow>
             if Contains entry ''*'' then (case catalog of None \<Rightarrow> [] | Some c \<Rightarrow> expandGlob c entry)
             else [entry])) (resolve_entries file catalog es))"

text \<open>A star entry ends the loop with the wildcard list.\<close>

definition resolveScope :: "File \<Rightarrow> Catalog option \<Rightarrow> string list \<Rightarrow> string list" where
  "resolveScope file catalog xs =
     (case resolve_entries file catalog xs of None \<Rightarrow> [''*''] | Some out \<Rightarrow> dedupeSorted out)"

definition sortedKeys :: "(string, 'v) gomap \<Rightarrow> string list" where
  "sortedKeys m = sort_slice (<) (map fst m)"

definition build_default :: "Defaults \<Rightarrow> string \<times> string \<Rightarrow> Defaults" where
  "build_default d sv =
     (let allow = (snd sv = ''allow''); scope = fst sv in
      if scope = ScopePartitions then d\<lparr>df_Partitions := allow\<rparr>
      else if scope = ScopeLogs then d\<lparr>df_Logs := allow\<rparr>
      else if scope = ScopeTraces then d\<lparr>df_Traces := allow\<rparr>
      else if scope = ScopeMonoFS then d\<lparr>df_MonoFS := allow\<rparr>
      else d)"

definition subject_grant :: "File \<Rightarrow> Catalog option \<Rightarrow> string \<Rightarrow> string \<Rightarrow> string \<Rightarrow> Subject \<Rightarrow> PolicyGrant" where
  "subject_grant file catalog grp user client sub =
     \<lparr>pg_Group = grp, pg_User = user, pg_Client = client,
      pg_Partitions = resolveScope file catalog (sj_Partitions sub),
      pg_Logs = resolveScope file catalog (sj_Logs sub),
      pg_Traces = resolveScope file catalog (sj_Traces sub),
      pg_MonoFS = dedupeSorted (sj_MonoFS sub),
      pg_Role = sj_Role sub, pg_Deny = dedupeSorted (sj_Deny sub)\<rparr>"

definition get_subject :: "(string, Subject) gomap \<Rightarrow> string \<Rightarrow> Subject" where
  "get_subject m name = (case gm_get m name of Some sub \<Rightarrow> sub
     | None \<Rightarrow> \<lparr>sj_Partitions = [], sj_Logs = [], sj_Traces = [], sj_MonoFS = [], sj_Role = '''', sj_Deny = []\<rparr>)"

definition build_grants :: "File \<Rightarrow> Catalog option \<Rightarrow> PolicyGrant list" where
  "build_grants file catalog =
     map (\<lambda>name. subject_grant file catalog name '''' '''' (get_subject (fi_Groups file) name)) (sortedKeys (fi_Groups file)) @
     map (\<lambda>name. subject_grant file catalog '''' name '''' (get_subject (fi_Users file) name)) (sortedKeys (fi_Users file)) @
     map (\<lambda>name. subject_grant file catalog '''' '''' name (get_subject (fi_Clients file) name)) (sortedKeys (fi_Clients file))"

definition catalog_binding :: "Partition \<Rightarrow> AWSBinding option" where
  "catalog_binding p =
     (let account = label_of p ''aws.account''; region = label_of p ''aws.region'' in
      if account = '''' \<and> region = '''' then None
      else Some \<lparr>ab_Partition = pa_Name p, ab_Account = account, ab_Region = region\<rparr>)"

definition compileAWSBindings :: "File \<Rightarrow> Catalog option \<Rightarrow> AWSBinding list" where
  "compileAWSBindings file catalog =
     (let put = (\<lambda>m b. gm_set (ab_Partition b) b m);
          m = (case catalog of None \<Rightarrow> [] | Some c \<Rightarrow> foldl put [] (List.map_filter catalog_binding c));
          m = foldl put m (fi_AWSBindings file)
      in sort_slice (\<lambda>a b. ab_Partition a < ab_Partition b) (map snd m))"

definition json_partition :: "Partition \<Rightarrow> json" where
  "json_partition p = JObj ((''name'', JStr (pa_Name p)) #
     (if pa_Labels p = [] then [] else
       [(''labels'', JObj (map (\<lambda>k. (k, JStr (label_of p k))) (sortedKeys (pa_Labels p))))]))"

definition sha256_tag :: "string \<Rightarrow> string" where
  "sha256_tag data = ''sha256:'' @ hex_encode (sha256 (bytes_of data))"

definition catalogDigest :: "Catalog option \<Rightarrow> string" where
  "catalogDigest catalog =
     (case catalog of
        None \<Rightarrow> ''''
      | Some c \<Rightarrow> sha256_tag (json_Marshal (nil_slice (map json_partition (sort_slice (\<lambda>a b. pa_Name a < pa_Name b) c)))))"

definition json_grant :: "PolicyGrant \<Rightarrow> json" where
  "json_grant g = JObj
     (omit_str ''group'' (pg_Group g) @ omit_str ''user'' (pg_User g) @ omit_str ''client'' (pg_Client g) @
      omit_list ''partitions'' (map JStr (pg_Partitions g)) @ omit_list ''logs'' (map JStr (pg_Logs g)) @
      omit_list ''traces'' (map JStr (pg_Traces g)) @ omit_list ''monofs'' (map JStr (pg_MonoFS g)) @
      omit_str ''role'' (pg_Role g) @ omit_list ''deny'' (map JStr (pg_Deny g)))"

definition json_binding :: "AWSBinding \<Rightarrow> json" where
  "json_binding b = JObj ((''partition'', JStr (ab_Partition b)) #
     omit_str ''account'' (ab_Account b) @ omit_str ''region'' (ab_Region b))"

definition json_defaults :: "Defaults \<Rightarrow> json" where
  "json_defaults d = JObj [(''partitions'', JBool (df_Partitions d)), (''logs'', JBool (df_Logs d)),
     (''traces'', JBool (df_Traces d)), (''monofs'', JBool (df_MonoFS d))]"

definition json_bundle :: "Bundle \<Rightarrow> json" where
  "json_bundle b = JObj
     ([(''format_version'', JInt (bu_FormatVersion b)), (''version'', JStr (bu_Version b))] @
      omit_str ''generated_at'' (bu_GeneratedAt b) @
      [(''defaults'', json_defaults (bu_Defaults b)), (''grants'', nil_slice (map json_grant (bu_Grants b)))] @
      omit_list ''aws_bindings'' (map json_binding (bu_AWSBindings b)) @
      omit_str ''catalog_digest'' (bu_CatalogDigest b))"

definition computeVersion :: "Bundle \<Rightarrow> string" where
  "computeVersion bundle = sha256_tag (json_Marshal (json_bundle (bundle\<lparr>bu_Version := '''', bu_GeneratedAt := ''''\<rparr>)))"

definition FormatVersion :: int where "FormatVersion = 1"

definition build :: "File \<Rightarrow> Catalog option \<Rightarrow> string \<Rightarrow> Bundle" where
  "build file catalog generatedAt =
     (let defaults = foldl build_default \<lparr>df_Partitions = False, df_Logs = False, df_Traces = False, df_MonoFS = False\<rparr>
            (fi_Defaults file);
          bundle = \<lparr>bu_FormatVersion = FormatVersion, bu_Version = '''', bu_GeneratedAt = generatedAt, bu_Defaults = defaults,
            bu_Grants = build_grants file catalog, bu_AWSBindings = compileAWSBindings file catalog,
            bu_CatalogDigest = catalogDigest catalog\<rparr>
      in bundle\<lparr>bu_Version := computeVersion bundle\<rparr>)"

datatype compile_error = NoPolicyFile | ValidationFailed int

definition policy_Compile :: "File option \<Rightarrow> Catalog option \<Rightarrow> string \<Rightarrow> (compile_error, Bundle) result \<times> Issue list" where
  "policy_Compile file catalog generatedAt =
     (case file of
        None \<Rightarrow> (Inl NoPolicyFile, [])
      | Some f \<Rightarrow>
          (let issues = validate f catalog in
           if hasErrors issues then (Inl (ValidationFailed (countErrors issues)), issues)
           else (Inr (build f catalog generatedAt), issues)))"

subsection \<open>What a document means\<close>

text \<open>An entry of a scope list covers a partition: the star covers all, a selector and a glob the
  catalog's partitions that match, any other entry the partition it names.\<close>

definition entry_covers :: "File \<Rightarrow> Catalog option \<Rightarrow> string \<Rightarrow> string \<Rightarrow> bool" where
  "entry_covers file catalog part entry =
     (let e = TrimSpace entry; parts = (case catalog of None \<Rightarrow> [] | Some c \<Rightarrow> c) in
      if e = '''' then False
      else if e = ''*'' then True
      else case gm_get (fi_Selectors file) e of
        Some labels \<Rightarrow> list_ex (\<lambda>p. pa_Name p = part \<and> selects labels p) parts
      | None \<Rightarrow> if Contains e ''*'' then list_ex (\<lambda>p. pa_Name p = part \<and> path_Match e part = Some True) parts
          else e = part)"

text \<open>Partition names are not blank, have no outer space and are not the star.\<close>

definition catalog_ok :: "Catalog option \<Rightarrow> bool" where
  "catalog_ok catalog \<longleftrightarrow> (case catalog of None \<Rightarrow> True
     | Some c \<Rightarrow> list_all (\<lambda>p. pa_Name p \<noteq> '''' \<and> TrimSpace (pa_Name p) = pa_Name p \<and> pa_Name p \<noteq> ''*'') c)"

lemma set_dedupe: "set (dedupe seen xs) = {y \<in> TrimSpace ` set xs. y \<noteq> []} - set seen"
  by (induction seen xs rule: dedupe.induct) (auto simp: Let_def)

lemma set_dedupeSorted: "set (dedupeSorted xs) = {y \<in> TrimSpace ` set xs. y \<noteq> []}"
  by (simp add: dedupeSorted_def set_dedupe)

lemma set_dedupeSorted_id:
  assumes "\<And>y. y \<in> set ys \<Longrightarrow> y \<noteq> [] \<and> TrimSpace y = y" shows "set (dedupeSorted ys) = set ys"
proof -
  have "TrimSpace ` set ys = (\<lambda>y. y) ` set ys" using assms by (intro image_cong) blast+
  then show ?thesis unfolding set_dedupeSorted using assms by auto
qed

definition entry_names :: "File \<Rightarrow> Catalog option \<Rightarrow> string \<Rightarrow> string list" where
  "entry_names file catalog e =
     (case gm_get (fi_Selectors file) e of
        Some labels \<Rightarrow> (case catalog of None \<Rightarrow> [] | Some c \<Rightarrow> matchSelector c labels)
      | None \<Rightarrow> if Contains e ''*'' then (case catalog of None \<Rightarrow> [] | Some c \<Rightarrow> expandGlob c e) else [e])"

lemma resolve_entries_eq:
  "resolve_entries file catalog xs =
     (if ''*'' \<in> TrimSpace ` set xs then None
      else Some (concat (map (\<lambda>e. if TrimSpace e = [] then [] else entry_names file catalog (TrimSpace e)) xs)))"
  by (induction xs) (auto simp: Let_def entry_names_def)

lemma Contains_refl [simp]: "Contains s s"
  unfolding Contains_iff by (rule exI [of _ "[]"], rule exI [of _ "[]"]) simp

lemma entry_names_ok:
  assumes "catalog_ok catalog" "TrimSpace e = e" "e \<noteq> []" "e \<noteq> ''*''"
  shows "n \<in> set (entry_names file catalog e) \<Longrightarrow> n \<noteq> [] \<and> TrimSpace n = n \<and> n \<noteq> ''*''"
  using assms by (auto simp: entry_names_def matchSelector_def expandGlob_def catalog_ok_def list_all_iff
      split: option.splits if_splits)

lemma entry_names_covers:
  assumes "TrimSpace e \<noteq> []" "TrimSpace e \<noteq> ''*''"
  shows "entry_covers file catalog part e \<longleftrightarrow> part \<in> set (entry_names file catalog (TrimSpace e))"
  using assms by (auto simp: entry_covers_def entry_names_def matchSelector_def expandGlob_def Let_def list_ex_iff
      split: option.splits)

lemma scopeAllows_resolveScope:
  assumes "catalog_ok catalog"
  shows "scopeAllows (resolveScope file catalog xs) part \<longleftrightarrow> list_ex (entry_covers file catalog part) xs"
proof (cases "''*'' \<in> TrimSpace ` set xs")
  case True
  then obtain e where "e \<in> set xs" "TrimSpace e = ''*''" by auto
  then have "list_ex (entry_covers file catalog part) xs" by (auto simp: list_ex_iff entry_covers_def Let_def)
  with True show ?thesis by (simp add: resolveScope_def resolve_entries_eq scopeAllows_def)
next
  case False
  then have star_free: "e \<in> set xs \<Longrightarrow> TrimSpace e \<noteq> ''*''" for e using imageI [of e "set xs" TrimSpace] by argo
  let ?names = "concat (map (\<lambda>e. if TrimSpace e = [] then [] else entry_names file catalog (TrimSpace e)) xs)"
  have names_iff: "n \<in> set ?names \<longleftrightarrow> (\<exists>e \<in> set xs. TrimSpace e \<noteq> [] \<and> n \<in> set (entry_names file catalog (TrimSpace e)))" for n
    by (induction xs) simp_all
  have names: "n \<noteq> [] \<and> TrimSpace n = n \<and> n \<noteq> ''*''" if "n \<in> set ?names" for n
  proof -
    from that obtain e where e: "e \<in> set xs" "TrimSpace e \<noteq> []" "n \<in> set (entry_names file catalog (TrimSpace e))"
      unfolding names_iff by blast
    then have "TrimSpace e \<noteq> ''*''" using star_free by blast
    show ?thesis by (rule entry_names_ok [OF assms TrimSpace_idem e(2) \<open>TrimSpace e \<noteq> ''*''\<close> e(3)])
  qed
  then have "set (dedupeSorted ?names) = set ?names" by (intro set_dedupeSorted_id) blast
  moreover have "''*'' \<notin> set ?names" using names by blast
  ultimately have "scopeAllows (resolveScope file catalog xs) part \<longleftrightarrow> part \<in> set ?names"
    using False by (auto simp: resolveScope_def resolve_entries_eq scopeAllows_def list_ex_iff)
  also have "\<dots> \<longleftrightarrow> (\<exists>e \<in> set xs. TrimSpace e \<noteq> [] \<and> part \<in> set (entry_names file catalog (TrimSpace e)))"
    by (rule names_iff)
  also have "\<dots> \<longleftrightarrow> (\<exists>e \<in> set xs. entry_covers file catalog part e)"
  proof (intro bex_cong refl)
    fix e assume "e \<in> set xs"
    then have "TrimSpace e \<noteq> ''*''" using star_free by blast
    then show "(TrimSpace e \<noteq> [] \<and> part \<in> set (entry_names file catalog (TrimSpace e))) = entry_covers file catalog part e"
      using entry_names_covers [of e] by (cases "TrimSpace e = []") (auto simp: entry_covers_def)
  qed
  finally show ?thesis by (simp add: list_ex_iff)
qed

datatype subject_key = SGroup string | SUser string | SClient string

definition subjects :: "File \<Rightarrow> (subject_key \<times> Subject) list" where
  "subjects file = map (\<lambda>(n, s). (SGroup n, s)) (fi_Groups file) @ map (\<lambda>(n, s). (SUser n, s)) (fi_Users file) @
     map (\<lambda>(n, s). (SClient n, s)) (fi_Clients file)"

fun key_matches :: "subject_key \<Rightarrow> Identity \<Rightarrow> bool" where
  "key_matches (SGroup n) ident \<longleftrightarrow> n \<noteq> '''' \<and> HasGroup ident n"
| "key_matches (SUser n) ident \<longleftrightarrow> n \<noteq> '''' \<and> (n = id_Subject ident \<or> id_Email ident \<noteq> '''' \<and> EqualFold n (id_Email ident))"
| "key_matches (SClient n) ident \<longleftrightarrow> n \<noteq> '''' \<and> n = id_ClientID ident"

definition sj_entries :: "Subject \<Rightarrow> string \<Rightarrow> string list" where
  "sj_entries s scope = (if scope = ScopePartitions then sj_Partitions s else if scope = ScopeLogs then sj_Logs s
     else if scope = ScopeTraces then sj_Traces s else [])"

text \<open>The decision the document asks for: administrators see everything; otherwise a denied scope
  is closed, and an open one is visible where an entry covers the partition or the default says so.\<close>

definition document_allows :: "File \<Rightarrow> Catalog option \<Rightarrow> Identity \<Rightarrow> string \<Rightarrow> string \<Rightarrow> bool" where
  "document_allows file catalog ident scope part \<longleftrightarrow>
     (let mine = filter (\<lambda>(k, s). key_matches k ident) (subjects file) in
      \<not> IsAnonymous ident \<and>
      (list_ex (\<lambda>(k, s). sj_Role s = RoleAdmin) mine \<or>
       \<not> list_ex (\<lambda>(k, s). scope \<in> set (sj_Deny s)) mine \<and>
       (list_ex (\<lambda>(k, s). list_ex (entry_covers file catalog part) (sj_entries s scope)) mine \<or>
        gm_get (fi_Defaults file) scope = Some ''allow'')))"

definition file_wf :: "File \<Rightarrow> bool" where
  "file_wf file \<longleftrightarrow> gm_wf (fi_Defaults file) \<and> gm_wf (fi_Groups file) \<and> gm_wf (fi_Users file) \<and> gm_wf (fi_Clients file)"

subsection \<open>Compilation keeps the meaning\<close>

lemma get_subject_mem: "gm_wf m \<Longrightarrow> (n, s) \<in> set m \<Longrightarrow> get_subject m n = s"
  by (simp add: get_subject_def)

definition key_grant :: "File \<Rightarrow> Catalog option \<Rightarrow> subject_key \<times> Subject \<Rightarrow> PolicyGrant" where
  "key_grant file catalog = (\<lambda>(k, s). case k of
     SGroup n \<Rightarrow> subject_grant file catalog n '''' '''' s
   | SUser n \<Rightarrow> subject_grant file catalog '''' n '''' s
   | SClient n \<Rightarrow> subject_grant file catalog '''' '''' n s)"

lemma set_sorted_map:
  assumes "gm_wf m"
  shows "(\<lambda>n. f n (get_subject m n)) ` set (sortedKeys m) = (\<lambda>(n, s). f n s) ` set m"
  using get_subject_mem [OF assms] by (force simp: sortedKeys_def)

lemma set_build_grants:
  assumes "file_wf file" shows "set (build_grants file catalog) = key_grant file catalog ` set (subjects file)"
  using assms set_sorted_map [of "fi_Groups file" "\<lambda>n. subject_grant file catalog n [] []"]
    set_sorted_map [of "fi_Users file" "\<lambda>n. subject_grant file catalog [] n []"]
    set_sorted_map [of "fi_Clients file" "\<lambda>n. subject_grant file catalog [] [] n"]
  by (simp add: build_grants_def subjects_def file_wf_def image_Un image_image key_grant_def split_def)

lemma key_grant_simps [simp]:
  "pg_Role (key_grant file catalog (k, s)) = sj_Role s"
  "pg_Deny (key_grant file catalog (k, s)) = dedupeSorted (sj_Deny s)"
  "pg_Partitions (key_grant file catalog (k, s)) = resolveScope file catalog (sj_Partitions s)"
  "pg_Logs (key_grant file catalog (k, s)) = resolveScope file catalog (sj_Logs s)"
  "pg_Traces (key_grant file catalog (k, s)) = resolveScope file catalog (sj_Traces s)"
  by (cases k; simp add: key_grant_def subject_grant_def)+

lemma key_grant_matches:
  "\<not> IsAnonymous ident \<Longrightarrow> grant_matches (key_grant file catalog (k, s)) ident = key_matches k ident"
  by (cases k) (auto simp: key_grant_def subject_grant_def grant_matches_def)

lemma resolveScope_Nil [simp]: "resolveScope file catalog [] = []"
  by (simp add: resolveScope_def dedupeSorted_def sort_slice_def)

lemma key_grant_scope: "scope_list (key_grant file catalog (k, s)) scope = resolveScope file catalog (sj_entries s scope)"
  by (simp add: scope_list_def sj_entries_def)

lemma index_binding_bundle [simp]: "po_bundle (index_binding p b) = po_bundle p"
  by (simp add: index_binding_def Let_def)

lemma policy_New_bundle [simp]: "po_bundle (policy_New b) = b"
proof -
  have "po_bundle (foldl index_binding p bs) = po_bundle p" for p bs by (induction bs arbitrary: p) simp_all
  then show ?thesis by (simp add: policy_New_def indexAWSBindings_def)
qed

lemma build_simps [simp]:
  "bu_Grants (build file catalog ts) = build_grants file catalog"
  "bu_AWSBindings (build file catalog ts) = compileAWSBindings file catalog"
  by (simp_all add: build_def Let_def)

lemma scopes_distinct:
  "ScopePartitions \<noteq> ScopeLogs" "ScopePartitions \<noteq> ScopeTraces" "ScopePartitions \<noteq> ScopeMonoFS"
  "ScopeLogs \<noteq> ScopeTraces" "ScopeLogs \<noteq> ScopeMonoFS" "ScopeTraces \<noteq> ScopeMonoFS"
  "ScopeLogs \<noteq> ScopePartitions" "ScopeTraces \<noteq> ScopePartitions" "ScopeMonoFS \<noteq> ScopePartitions"
  "ScopeTraces \<noteq> ScopeLogs" "ScopeMonoFS \<noteq> ScopeLogs" "ScopeMonoFS \<noteq> ScopeTraces"
  by (simp_all add: ScopePartitions_def ScopeLogs_def ScopeTraces_def ScopeMonoFS_def)

lemma defaults_fold:
  assumes "scope \<in> set AllScopes"
  shows "gm_wf xs \<Longrightarrow> defaults_allows (foldl build_default d xs) scope =
    (case gm_get xs scope of Some v \<Rightarrow> v = ''allow'' | None \<Rightarrow> defaults_allows d scope)"
proof (induction xs arbitrary: d)
  case (Cons x xs)
  obtain k v where x: "x = (k, v)" by (cases x)
  have "defaults_allows (build_default d (k, v)) scope = (if k = scope then v = ''allow'' else defaults_allows d scope)"
    using assms by (auto simp: build_default_def defaults_allows_def AllScopes_def scopes_distinct Let_def)
  moreover have "k = scope \<Longrightarrow> gm_get xs scope = None" using Cons.prems x by (auto simp: map_of_eq_None_iff)
  ultimately show ?case using Cons x by (cases "gm_get xs scope") auto
qed simp

lemma build_defaults:
  assumes "scope \<in> set AllScopes" "file_wf file"
  shows "defaults_allows (bu_Defaults (build file catalog ts)) scope \<longleftrightarrow> gm_get (fi_Defaults file) scope = Some ''allow''"
proof -
  have "\<not> defaults_allows \<lparr>df_Partitions = False, df_Logs = False, df_Traces = False, df_MonoFS = False\<rparr> scope"
    by (simp add: defaults_allows_def)
  then show ?thesis using assms defaults_fold [OF assms(1)]
    by (simp add: build_def Let_def file_wf_def split: option.split)
qed

lemma scopes_trimmed: "d \<in> set AllScopes \<Longrightarrow> TrimSpace d = d \<and> d \<noteq> []"
proof -
  have "list_all (\<lambda>d. TrimSpace d = d \<and> d \<noteq> []) AllScopes" by code_simp
  then show "d \<in> set AllScopes \<Longrightarrow> ?thesis" by (simp add: list_all_iff)
qed

lemma validate_subject_subset:
  "(n, s) \<in> set m \<Longrightarrow> set (validate_subject file catalog kind n s) \<subseteq> set (validateSubjects file catalog kind m)"
  by (force simp: validateSubjects_def)

lemma validated_deny:
  assumes "\<not> hasErrors (validate file catalog)" "(k, s) \<in> set (subjects file)" "d \<in> set (sj_Deny s)"
  shows "d \<in> set AllScopes"
proof (rule ccontr)
  assume "d \<notin> set AllScopes"
  then obtain e where e: "validateScope d = Some e" by (cases "d = SignalMetrics") (simp_all add: validateScope_def)
  then have "(SevError, BadDeny kind name e) \<in> set (validate_subject file catalog kind name s)" for kind name
    using assms(3) by (auto simp: validate_subject_def set_map_filter)
  moreover have "\<exists>kind name. set (validate_subject file catalog kind name s) \<subseteq> set (validate file catalog)"
    using assms(2) validate_subject_subset [of _ s] unfolding subjects_def validate_def by fastforce
  ultimately have "\<exists>i \<in> set (validate file catalog). fst i = SevError" by force
  with assms(1) show False by (simp add: hasErrors_def list_ex_iff)
qed

lemma deniesScope_key_grant:
  assumes "\<not> hasErrors (validate file catalog)" "(k, s) \<in> set (subjects file)" "scope \<in> set AllScopes"
  shows "deniesScope (key_grant file catalog (k, s)) scope \<longleftrightarrow> scope \<in> set (sj_Deny s)"
proof -
  have "set (dedupeSorted (sj_Deny s)) = set (sj_Deny s)"
    using scopes_trimmed validated_deny [OF assms(1,2)] by (intro set_dedupeSorted_id) blast
  then show ?thesis by (auto simp: deniesScope_def list_ex_iff)
qed

lemma policy_can_matching:
  assumes "\<not> IsAnonymous ident"
  shows "policy_can (Some p) ident scope part \<longleftrightarrow>
    list_ex (\<lambda>g. pg_Role g = RoleAdmin) (matching p ident) \<or>
    \<not> list_ex (\<lambda>g. deniesScope g scope) (matching p ident) \<and>
    (list_ex (\<lambda>g. scopeAllows (scope_list g scope) part) (matching p ident) \<or> defaults_allows (bu_Defaults (po_bundle p)) scope)"
  using assms by (auto simp: policy_can_def IsAdmin_def denied_def matching_def list_ex_iff)

lemma matching_built:
  assumes "file_wf file" "\<not> IsAnonymous ident"
  shows "set (matching (policy_New (build file catalog ts)) ident) =
    key_grant file catalog ` set (filter (\<lambda>(k, s). key_matches k ident) (subjects file))"
  using assms key_grant_matches [OF assms(2), where catalog = catalog]
  by (auto simp: matching_def set_build_grants)

lemma list_ex_image: "set xs = f ` set ys \<Longrightarrow> list_ex P xs = list_ex (\<lambda>y. P (f y)) ys"
  by (simp add: list_ex_iff)

text \<open>C16: Compilation keeps the meaning of the document. When a document with distinct keys compiles
  against a catalog, the compiled policy answers every question about the scopes partitions, logs and
  traces as the document does: administrators see everything, a denied scope is closed, and otherwise
  a partition is visible where an entry (a name, a selector, a glob or the star) covers it or the
  default allows it.\<close>

theorem Compile_correct:
  assumes "policy_Compile (Some file) catalog ts = (Inr bundle, issues)" "file_wf file" "catalog_ok catalog"
    "scope \<in> {ScopePartitions, ScopeLogs, ScopeTraces}"
  shows "policy_can (Some (policy_New bundle)) ident scope part \<longleftrightarrow> document_allows file catalog ident scope part"
proof (cases "IsAnonymous ident")
  case True
  then show ?thesis by (simp add: policy_can_def document_allows_def)
next
  case False
  have bd: "bundle = build file catalog ts" and valid: "\<not> hasErrors (validate file catalog)"
    using assms(1) by (auto simp: policy_Compile_def Let_def split: if_splits)
  have scope: "scope \<in> set AllScopes" using assms(4) by (auto simp: AllScopes_def)
  note m = matching_built [OF assms(2) False, of catalog ts]
  let ?mine = "filter (\<lambda>(k, s). key_matches k ident) (subjects file)"
  note mine = list_ex_image [OF m, folded bd]
  have "list_ex (\<lambda>g. pg_Role g = RoleAdmin) (matching (policy_New bundle) ident) \<longleftrightarrow> list_ex (\<lambda>(k, s). sj_Role s = RoleAdmin) ?mine"
    unfolding mine by (auto simp: list_ex_iff)
  moreover have "list_ex (\<lambda>g. deniesScope g scope) (matching (policy_New bundle) ident) \<longleftrightarrow>
      list_ex (\<lambda>(k, s). scope \<in> set (sj_Deny s)) ?mine"
    unfolding mine using deniesScope_key_grant [OF valid _ scope] by (auto simp: list_ex_iff)
  moreover have "list_ex (\<lambda>g. scopeAllows (scope_list g scope) part) (matching (policy_New bundle) ident) \<longleftrightarrow>
      list_ex (\<lambda>(k, s). list_ex (entry_covers file catalog part) (sj_entries s scope)) ?mine"
    unfolding mine using key_grant_scope scopeAllows_resolveScope [OF assms(3)] by (auto simp: list_ex_iff)
  moreover have "defaults_allows (bu_Defaults bundle) scope \<longleftrightarrow> gm_get (fi_Defaults file) scope = Some ''allow''"
    using build_defaults [OF scope assms(2)] bd by simp
  ultimately show ?thesis
    unfolding policy_can_matching [OF False] document_allows_def Let_def using False by simp
qed

definition sample_file :: File where
  "sample_file = (empty_file 1)\<lparr>fi_Defaults := [(''logs'', ''allow'')], fi_Selectors := [(''core'', [(''tier'', ''1'')])],
     fi_Groups := [(''dev'', \<lparr>sj_Partitions = [''core'', ''test-*''], sj_Logs = [], sj_Traces = [''*''], sj_MonoFS = [],
       sj_Role = '''', sj_Deny = [''logs'']\<rparr>)]\<rparr>"

definition sample_catalog :: Catalog where
  "sample_catalog = [\<lparr>pa_Name = ''db'', pa_Labels = [(''tier'', ''1'')]\<rparr>, \<lparr>pa_Name = ''test-a'', pa_Labels = []\<rparr>]"

definition dev :: Identity where
  "dev = \<lparr>id_Subject = ''d'', id_Email = '''', id_Groups = [''dev''], id_ClientID = ''''\<rparr>"

theorem Compile_correct_witness:
  "\<exists>bu issues. policy_Compile (Some sample_file) (Some sample_catalog) ''now'' = (Inr bu, issues) \<and>
    (policy_can (Some (policy_New bu)) dev ScopePartitions ''db'' \<longleftrightarrow>
       document_allows sample_file (Some sample_catalog) dev ScopePartitions ''db'') \<and>
    document_allows sample_file (Some sample_catalog) dev ScopePartitions ''db''"
proof -
  have "\<not> hasErrors (validate sample_file (Some sample_catalog))" by code_simp
  then have c: "policy_Compile (Some sample_file) (Some sample_catalog) ''now'' =
      (Inr (build sample_file (Some sample_catalog) ''now''), validate sample_file (Some sample_catalog))"
    by (simp add: policy_Compile_def)
  moreover have "file_wf sample_file" "catalog_ok (Some sample_catalog)" by code_simp+
  moreover have "document_allows sample_file (Some sample_catalog) dev ScopePartitions ''db''" by code_simp
  ultimately show ?thesis using Compile_correct [OF c, of ScopePartitions dev "''db''"] by blast
qed

end
