(* ===== verification/RouterAuthz.thy ===== *)
theory RouterAuthz
  imports PolicyCompile Monopath
begin

section \<open>Authorization in the router and the search service\<close>

text \<open>
  Partition grants on ingest and read (\<^verbatim>\<open>src/internal/router/authz_ingest.go\<close>,
  \<^verbatim>\<open>authz_read.go\<close>), the access policy in the router (\<^verbatim>\<open>access_policy.go\<close>) with its loader
  (\<^verbatim>\<open>src/pkg/authz/policy/loader.go\<close>), and the filter on search results
  (\<^verbatim>\<open>src/internal/search/authz.go\<close>).

  A context is the identity attached to it, if any. JSON decoding and the file system are parameters
  of \<open>buildGrantEvaluator\<close> and of \<open>Refresh\<close>, and so is the token verifier. Authentication is that of
  \<^verbatim>\<open>src/pkg/authz/interceptor.go\<close>. Metrics, logging and its rate limit are not modelled.
\<close>

type_synonym goctx = "Identity option"
type_synonym evaluator = "Identity \<Rightarrow> string \<Rightarrow> string \<Rightarrow> bool"

definition no_identity :: Identity where
  "no_identity = \<lparr>id_Subject = '''', id_Email = '''', id_Groups = [], id_ClientID = ''''\<rparr>"

definition IdentityFromContext :: "goctx \<Rightarrow> Identity \<times> bool" where
  "IdentityFromContext ctx = (case ctx of None \<Rightarrow> (no_identity, False) | Some ident \<Rightarrow> (ident, True))"

definition ContextWithIdentity :: "goctx \<Rightarrow> Identity \<Rightarrow> goctx" where
  "ContextWithIdentity ctx ident = Some ident"

subsection \<open>Authentication\<close>

definition parseBearer :: "string \<Rightarrow> string" where
  "parseBearer header =
     (let header = TrimSpace header in
      if header = '''' then ''''
      else if length header \<ge> 7 \<and> EqualFold (take 7 header) ''bearer '' then TrimSpace (drop 7 header)
      else '''')"

text \<open>\<open>md\<close>: the values of the authorization metadata of the incoming call, if it has metadata.\<close>

definition bearerFromMetadata :: "string list option \<Rightarrow> string" where
  "bearerFromMetadata md =
     (case md of
        None \<Rightarrow> ''''
      | Some vs \<Rightarrow> (case filter (\<lambda>tok. tok \<noteq> '''') (map parseBearer vs) of [] \<Rightarrow> '''' | tok # _ \<Rightarrow> tok))"

type_synonym verifier = "string \<Rightarrow> (string, Identity) result"

record Authenticator =
  au_Verifier :: verifier
  au_RequireToken :: bool

definition NoopVerifier :: verifier where
  "NoopVerifier tok = Inr no_identity"

definition NewAuthenticator :: "verifier option \<Rightarrow> bool \<Rightarrow> Authenticator" where
  "NewAuthenticator v requireToken =
     \<lparr>au_Verifier = (case v of None \<Rightarrow> NoopVerifier | Some f \<Rightarrow> f), au_RequireToken = requireToken\<rparr>"

datatype auth_error = MissingToken | InvalidToken

definition authenticate :: "Authenticator \<Rightarrow> goctx \<Rightarrow> string \<Rightarrow> (auth_error, goctx) result" where
  "authenticate a ctx rawToken =
     (if TrimSpace rawToken = '''' then
        (if au_RequireToken a then Inl MissingToken else Inr (ContextWithIdentity ctx no_identity))
      else case au_Verifier a rawToken of
        Inl err \<Rightarrow> if au_RequireToken a then Inl InvalidToken else Inr (ContextWithIdentity ctx no_identity)
      | Inr ident \<Rightarrow> Inr (ContextWithIdentity ctx ident))"

text \<open>The interceptors and the middleware, as functions from the handler to the answer.\<close>

definition UnaryServerInterceptor ::
  "Authenticator \<Rightarrow> goctx \<Rightarrow> string list option \<Rightarrow> (goctx \<Rightarrow> 'a) \<Rightarrow> (auth_error, 'a) result"
where
  "UnaryServerInterceptor a ctx md handler =
     (case authenticate a ctx (bearerFromMetadata md) of Inl e \<Rightarrow> Inl e | Inr ctx \<Rightarrow> Inr (handler ctx))"

definition HTTPMiddleware :: "Authenticator \<Rightarrow> goctx \<Rightarrow> string \<Rightarrow> (goctx \<Rightarrow> 'a) \<Rightarrow> (auth_error, 'a) result" where
  "HTTPMiddleware a ctx header next =
     (let bearer = parseBearer header; (existing, ok) = IdentityFromContext ctx in
      if bearer = '''' \<and> ok \<and> \<not> IsAnonymous existing then Inr (next ctx)
      else case authenticate a ctx bearer of Inl e \<Rightarrow> Inl e | Inr ctx \<Rightarrow> Inr (next ctx))"

subsection \<open>Evaluators\<close>

definition AllowAllEvaluator :: evaluator where "AllowAllEvaluator ident part action = True"
definition DenyAllEvaluator :: evaluator where "DenyAllEvaluator ident part action = False"

subsection \<open>Building the evaluator\<close>

record grant_config =
  gc_AuthzGrantsJSON :: string
  gc_AuthzGrantsPath :: string
  gc_GuardianStateDir :: string

text \<open>The parts of the operating system and of the JSON decoder the grant file needs: creating a directory,
  reading a file (\<open>None\<close>: it does not exist), decoding a list of grants.\<close>

record grant_env =
  ge_MkdirAll :: "string \<Rightarrow> string option"
  ge_ReadFile :: "string \<Rightarrow> (string, string) result option"
  ge_Unmarshal :: "string \<Rightarrow> (string, Grant list) result"

definition GrantStore_load :: "grant_env \<Rightarrow> string \<Rightarrow> (string, Grant list) result" where
  "GrantStore_load env persistPath =
     (case ge_ReadFile env persistPath of
        None \<Rightarrow> Inr []
      | Some (Inl err) \<Rightarrow> Inl err
      | Some (Inr data) \<Rightarrow> ge_Unmarshal env data)"

definition NewGrantStore :: "grant_env \<Rightarrow> string \<Rightarrow> (string, Grant list) result" where
  "NewGrantStore env persistPath =
     (let persistPath = TrimSpace persistPath in
      if persistPath = '''' then Inr []
      else case ge_MkdirAll env (path_Dir persistPath) of
        Some err \<Rightarrow> Inl err
      | None \<Rightarrow> GrantStore_load env persistPath)"

definition buildGrantEvaluator :: "grant_env \<Rightarrow> grant_config \<Rightarrow> evaluator option" where
  "buildGrantEvaluator env cfg =
     (let raw = TrimSpace (gc_AuthzGrantsJSON cfg) in
      if raw \<noteq> '''' then
        (case ge_Unmarshal env raw of
           Inl e \<Rightarrow> Some DenyAllEvaluator
         | Inr grants \<Rightarrow>
             (case NewGrantStore env '''' of
                Inl e \<Rightarrow> Some DenyAllEvaluator
              | Inr store \<Rightarrow>
                  (case GrantStore_Replace (\<lambda>_. None) store grants of
                     (Some e, _) \<Rightarrow> Some DenyAllEvaluator
                   | (None, store) \<Rightarrow> Some (GrantStore_Can store))))
      else let pth = TrimSpace (gc_AuthzGrantsPath cfg);
               pth = (if pth = '''' \<and> TrimSpace (gc_GuardianStateDir cfg) \<noteq> ''''
                 then path_Join (gc_GuardianStateDir cfg) ''authz_grants.json'' else pth)
        in if pth = '''' then None
           else case NewGrantStore env pth of
             Inl e \<Rightarrow> Some DenyAllEvaluator
           | Inr store \<Rightarrow> Some (GrantStore_Can store))"

subsection \<open>Ingest and read\<close>

record authz_router =
  ar_grantEvaluator :: "evaluator option"
  ar_authzEnforceIngest :: bool
  ar_authzEnforceRead :: bool
  ar_breakGlassAdmins :: "string list"
  ar_serviceIdentity :: Identity

definition SetGrantEvaluator :: "authz_router \<Rightarrow> evaluator option \<Rightarrow> bool \<Rightarrow> authz_router" where
  "SetGrantEvaluator r store enforce = r\<lparr>ar_grantEvaluator := store, ar_authzEnforceIngest := enforce\<rparr>"

definition SetAuthzEnforceIngest :: "authz_router \<Rightarrow> bool \<Rightarrow> authz_router" where
  "SetAuthzEnforceIngest r enforce = r\<lparr>ar_authzEnforceIngest := enforce\<rparr>"

definition SetAuthzEnforceRead :: "authz_router \<Rightarrow> bool \<Rightarrow> authz_router" where
  "SetAuthzEnforceRead r enforce = r\<lparr>ar_authzEnforceRead := enforce\<rparr>"

definition AddBreakGlassAdmin :: "authz_router \<Rightarrow> string \<Rightarrow> authz_router" where
  "AddBreakGlassAdmin r clientID =
     (let s = TrimSpace clientID in
      if s \<noteq> '''' then r\<lparr>ar_breakGlassAdmins := s # ar_breakGlassAdmins r,
        ar_serviceIdentity := \<lparr>id_Subject = s, id_Email = '''', id_Groups = [], id_ClientID = s\<rparr>\<rparr>
      else r)"

definition internalIdentityContext :: "authz_router \<Rightarrow> goctx" where
  "internalIdentityContext r = ContextWithIdentity None (ar_serviceIdentity r)"

definition ingestContext :: "authz_router \<Rightarrow> goctx \<Rightarrow> goctx" where
  "ingestContext r ctx =
     (case IdentityFromContext ctx of (ident, ok) \<Rightarrow>
        if ok \<and> \<not> IsAnonymous ident then ctx else ContextWithIdentity ctx (ar_serviceIdentity r))"

definition isBreakGlassAdmin :: "authz_router \<Rightarrow> Identity \<Rightarrow> bool" where
  "isBreakGlassAdmin r ident \<longleftrightarrow>
     id_ClientID ident \<in> set (ar_breakGlassAdmins r) \<or> id_Subject ident \<in> set (ar_breakGlassAdmins r)"

datatype IngestionType = INGESTION_GIT | INGESTION_GUARDIAN | INGESTION_OTHER

record IngestRequest =
  ir_IngestionType :: IngestionType
  ir_SourceId :: string

text \<open>\<open>strings.SplitN(s, "/", 2)[0]\<close>: the text before the first slash.\<close>

definition first_segment :: "string \<Rightarrow> string" where
  "first_segment s = hd (Split s CHR ''/'')"

definition ingestPartitionForGrant :: "IngestRequest option \<Rightarrow> string \<Rightarrow> string" where
  "ingestPartitionForGrant req displayPath =
     (if (case req of Some q \<Rightarrow> ir_IngestionType q = INGESTION_GUARDIAN \<and> ir_SourceId q \<noteq> '''' | None \<Rightarrow> False)
      then first_segment (ir_SourceId (the req))
      else let displayPath = TrimPrefix displayPath ''/''; displayPath = TrimPrefix displayPath ''guardian/'' in
        if (case req of Some q \<Rightarrow> Contains displayPath ''/'' \<and> ir_IngestionType q = INGESTION_GIT | None \<Rightarrow> False)
        then first_segment displayPath
        else displayPath)"

datatype authz_error = NoGrantEvaluator | AnonymousDenied | NotAuthorized string string

definition authorizeIngest :: "authz_router \<Rightarrow> goctx \<Rightarrow> IngestRequest option \<Rightarrow> string \<Rightarrow> authz_error option" where
  "authorizeIngest r ctx req displayPath =
     (if \<not> ar_authzEnforceIngest r then None
      else case ar_grantEvaluator r of
        None \<Rightarrow> Some NoGrantEvaluator
      | Some can \<Rightarrow>
          (let ident = fst (IdentityFromContext ctx) in
           if IsAnonymous ident then Some AnonymousDenied
           else let part = ingestPartitionForGrant req displayPath in
             if isBreakGlassAdmin r ident then None
             else if can ident part ActionIngest then None
             else Some (NotAuthorized (PrincipalID ident) part)))"

definition authorizeRead :: "authz_router \<Rightarrow> goctx \<Rightarrow> string \<Rightarrow> authz_error option" where
  "authorizeRead r ctx part =
     (if \<not> ar_authzEnforceRead r then None
      else case ar_grantEvaluator r of
        None \<Rightarrow> None
      | Some can \<Rightarrow>
          (let ident = fst (IdentityFromContext ctx) in
           if isBreakGlassAdmin r ident then None
           else if can ident part ActionView then None
           else Some (NotAuthorized (PrincipalID ident) part)))"

subsection \<open>The loader\<close>

record Loader =
  lo_policy :: "Policy option"
  lo_etag :: string
  lo_lastErr :: "string option"
  lo_fetches :: int

definition NewLoader :: Loader where
  "NewLoader = \<lparr>lo_policy = None, lo_etag = '''', lo_lastErr = None, lo_fetches = 0\<rparr>"

definition ParseBundle :: "(string \<Rightarrow> (string, AccessPolicy.Bundle) result) \<Rightarrow> string \<Rightarrow> (string, Policy) result" where
  "ParseBundle unmarshal data =
     (case unmarshal data of
        Inl e \<Rightarrow> Inl e
      | Inr bu \<Rightarrow> if bu_FormatVersion bu \<noteq> FormatVersion then Inl ''unsupported bundle format'' else Inr (policy_New bu))"

text \<open>\<open>fetched\<close> is what the source returned: an error, or the data (\<open>None\<close>: unchanged) with the tag.\<close>

definition Refresh ::
  "(string \<Rightarrow> (string, AccessPolicy.Bundle) result) \<Rightarrow> Loader \<Rightarrow> (string, string option \<times> string) result \<Rightarrow> string option \<times> Loader"
where
  "Refresh unmarshal l fetched =
     (case fetched of
        Inl err \<Rightarrow> (Some err, l\<lparr>lo_lastErr := Some err\<rparr>)
      | Inr (data, etag) \<Rightarrow>
          (let l = l\<lparr>lo_fetches := lo_fetches l + 1\<rparr> in
           if data = None \<or> etag \<noteq> '''' \<and> etag = lo_etag l \<and> lo_policy l \<noteq> None
           then (None, l\<lparr>lo_lastErr := None\<rparr>)
           else case ParseBundle unmarshal (the data) of
             Inl perr \<Rightarrow> (Some perr, l\<lparr>lo_lastErr := Some perr\<rparr>)
           | Inr p \<Rightarrow> (None, l\<lparr>lo_policy := Some p, lo_etag := etag, lo_lastErr := None\<rparr>)))"

subsection \<open>The access policy in the router\<close>

record accessPolicyState =
  aps_loader :: Loader
  aps_enforce :: bool

text \<open>\<open>None\<close>: the feature is disabled.\<close>

type_synonym policy_router = "accessPolicyState option"

definition policyInstance :: "policy_router \<Rightarrow> Policy option" where
  "policyInstance r = (case r of None \<Rightarrow> None | Some st \<Rightarrow> lo_policy (aps_loader st))"

definition accessAdmin :: "policy_router \<Rightarrow> Identity \<Rightarrow> bool" where
  "accessAdmin r ident =
     (if id_Subject ident = ''break-glass-admin'' then True
      else policyInstance r \<noteq> None \<and> IsAdmin (policyInstance r) ident)"

definition enforced :: "accessPolicyState \<Rightarrow> bool \<Rightarrow> bool" where
  "enforced st allowed = (if aps_enforce st then allowed else True)"

definition canReadDisplayPath :: "policy_router \<Rightarrow> Identity \<Rightarrow> string \<Rightarrow> bool" where
  "canReadDisplayPath r ident displayPath =
     (case r of
        None \<Rightarrow> True
      | Some st \<Rightarrow>
          if accessAdmin r ident then True
          else enforced st (lo_policy (aps_loader st) \<noteq> None \<and> CanReadPath (lo_policy (aps_loader st)) ident displayPath))"

definition canSeePartition :: "policy_router \<Rightarrow> Identity \<Rightarrow> string \<Rightarrow> bool" where
  "canSeePartition r ident part =
     (case r of
        None \<Rightarrow> True
      | Some st \<Rightarrow>
          if accessAdmin r ident then True
          else enforced st (lo_policy (aps_loader st) \<noteq> None \<and> CanSeePartition (lo_policy (aps_loader st)) ident part))"

definition canReadGuardianRepo :: "policy_router \<Rightarrow> Identity \<Rightarrow> string \<Rightarrow> bool" where
  "canReadGuardianRepo r ident displayPath =
     (if displayPath = ''guardian-system'' then (case r of None \<Rightarrow> True | Some _ \<Rightarrow> accessAdmin r ident)
      else if HasPrefix displayPath ''guardian/'' then canSeePartition r ident (TrimPrefix displayPath ''guardian/'')
      else canReadDisplayPath r ident displayPath)"

definition repo_visible :: "policy_router \<Rightarrow> Identity \<Rightarrow> string \<Rightarrow> bool" where
  "repo_visible r ident displayPath =
     (if HasPrefix displayPath ''guardian/'' \<or> displayPath = ''guardian-system''
      then canReadGuardianRepo r ident displayPath else canReadDisplayPath r ident displayPath)"

text \<open>A repository of the list is its \<open>repo_id\<close> (empty when missing) with its other fields.\<close>

definition filterRepositoriesData :: "policy_router \<Rightarrow> goctx \<Rightarrow> (string \<times> 'a) list option \<Rightarrow> (string \<times> 'a) list option" where
  "filterRepositoriesData r ctx data =
     (if r = None then data
      else map_option (filter (\<lambda>(repoID, _). if repoID = '''' then True
        else repo_visible r (fst (IdentityFromContext ctx)) repoID)) data)"

definition canReadWorkspaceJob :: "policy_router \<Rightarrow> Identity \<Rightarrow> string list \<Rightarrow> bool" where
  "canReadWorkspaceJob r ident displayPaths =
     (if r = None then True
      else if displayPaths = [] then accessAdmin r ident
      else list_ex (repo_visible r ident) displayPaths)"

text \<open>A job is the list of the display paths of its repositories with its other fields.\<close>

definition filterWorkspaceJobs :: "policy_router \<Rightarrow> goctx \<Rightarrow> (string list \<times> 'a) list option \<Rightarrow> (string list \<times> 'a) list option" where
  "filterWorkspaceJobs r ctx resp =
     (if r = None then resp
      else let ident = fst (IdentityFromContext ctx) in
        if accessAdmin r ident then resp
        else map_option (filter (\<lambda>(paths, _). canReadWorkspaceJob r ident paths)) resp)"

text \<open>\<open>None\<close>: the query is not restricted.\<close>

definition queryScope :: "policy_router \<Rightarrow> goctx \<Rightarrow> string \<Rightarrow> string list option" where
  "queryScope r ctx signal =
     (case r of
        None \<Rightarrow> None
      | Some st \<Rightarrow>
          if \<not> aps_enforce st then None
          else case lo_policy (aps_loader st) of
            None \<Rightarrow> Some []
          | Some p \<Rightarrow>
              (let ident = fst (IdentityFromContext ctx) in
               if IsAdmin (Some p) ident then None
               else if signal = SignalMetrics then None
               else VisiblePartitions (Some p) ident))"

subsection \<open>Search results\<close>

record SearchResult =
  sr_DisplayPath :: string
  sr_FilePath :: string

record search_service =
  ss_policy :: "Loader option"
  ss_enforceRead :: bool

definition hitDisplayPath :: "SearchResult option \<Rightarrow> string" where
  "hitDisplayPath hit =
     (case hit of
        None \<Rightarrow> ''''
      | Some h \<Rightarrow>
          (let full = (if sr_FilePath h \<noteq> '''' then path_Join (sr_DisplayPath h) (sr_FilePath h) else sr_DisplayPath h) in
           case SplitDisplayPath full of
             Some (displayPath, _) \<Rightarrow> displayPath
           | None \<Rightarrow> Trim (TrimSpace (sr_DisplayPath h)) CHR ''/''))"

definition hit_allowed :: "Policy \<Rightarrow> Identity \<Rightarrow> SearchResult option \<Rightarrow> bool" where
  "hit_allowed p ident hit = (IsAdmin (Some p) ident \<or> CanReadPath (Some p) ident (hitDisplayPath hit))"

definition filterHits :: "Policy option \<Rightarrow> Identity \<Rightarrow> SearchResult option list \<Rightarrow> SearchResult option list \<times> int" where
  "filterHits pol ident hits =
     (case pol of
        None \<Rightarrow> (hits, 0)
      | Some p \<Rightarrow>
          (let real = filter (\<lambda>h. h \<noteq> None) hits
           in (filter (hit_allowed p ident) real, int (length (filter (\<lambda>h. \<not> hit_allowed p ident h) real)))))"

datatype search_error = PolicyUnavailable | AuthenticationRequired

definition applyReadPolicy ::
  "search_service \<Rightarrow> bool \<Rightarrow> goctx \<Rightarrow> SearchResult option list \<Rightarrow> (search_error, SearchResult option list \<times> int) result"
where
  "applyReadPolicy s is_internal ctx hits =
     (case ss_policy s of
        None \<Rightarrow> Inr (hits, 0)
      | Some l \<Rightarrow>
          if is_internal then Inr (hits, 0)
          else case lo_policy l of
            None \<Rightarrow> if ss_enforceRead s then Inl PolicyUnavailable else Inr (hits, 0)
          | Some p \<Rightarrow>
              (let ident = fst (IdentityFromContext ctx) in
               if IsAnonymous ident then (if ss_enforceRead s then Inl AuthenticationRequired else Inr (hits, 0))
               else let (kept, dropped) = filterHits (Some p) ident hits in
                 if \<not> ss_enforceRead s then Inr (hits, dropped) else Inr (kept, dropped)))"

subsection \<open>The contract of a grant evaluator\<close>

text \<open>Every evaluator the router builds refuses anonymous callers.\<close>

locale grant_evaluator =
  fixes can :: evaluator
  assumes can_named: "can ident part action \<Longrightarrow> \<not> IsAnonymous ident"
begin

lemma ingest_admitted:
  assumes "ar_grantEvaluator r = Some can" "ar_authzEnforceIngest r"
  shows "authorizeIngest r ctx req displayPath = None \<longleftrightarrow>
    \<not> IsAnonymous (fst (IdentityFromContext ctx)) \<and>
    (isBreakGlassAdmin r (fst (IdentityFromContext ctx)) \<or>
     can (fst (IdentityFromContext ctx)) (ingestPartitionForGrant req displayPath) ActionIngest)"
  using assms by (auto simp: authorizeIngest_def Let_def)

lemma read_admitted:
  assumes "ar_grantEvaluator r = Some can" "ar_authzEnforceRead r"
  shows "authorizeRead r ctx part = None \<longleftrightarrow>
    isBreakGlassAdmin r (fst (IdentityFromContext ctx)) \<or> can (fst (IdentityFromContext ctx)) part ActionView"
  using assms by (auto simp: authorizeRead_def Let_def)

lemma admitted_named:
  assumes "ar_grantEvaluator r = Some can" "'''' \<notin> set (ar_breakGlassAdmins r)"
  shows "ar_authzEnforceIngest r \<Longrightarrow> authorizeIngest r ctx req displayPath = None \<Longrightarrow>
      \<not> IsAnonymous (fst (IdentityFromContext ctx))"
    and "ar_authzEnforceRead r \<Longrightarrow> authorizeRead r ctx part = None \<Longrightarrow> \<not> IsAnonymous (fst (IdentityFromContext ctx))"
  using assms can_named ingest_admitted [OF assms(1)] read_admitted [OF assms(1)]
  by (auto simp: isBreakGlassAdmin_def IsAnonymous_def)

end

interpretation grants: grant_evaluator "GrantStore_Can gs" for gs
  by unfold_locales (simp add: GrantStore_Can_def split: if_splits)

interpretation deny_all: grant_evaluator DenyAllEvaluator
  by unfold_locales (simp add: DenyAllEvaluator_def)

text \<open>The router after start-up: the evaluator built from the configuration, both kinds of
  enforcement on, and some break-glass administrators.\<close>

definition configured :: "grant_env \<Rightarrow> grant_config \<Rightarrow> string list \<Rightarrow> authz_router" where
  "configured env cfg admins =
     foldl AddBreakGlassAdmin
       (SetAuthzEnforceRead (SetGrantEvaluator \<lparr>ar_grantEvaluator = None, ar_authzEnforceIngest = False,
          ar_authzEnforceRead = False, ar_breakGlassAdmins = [], ar_serviceIdentity = no_identity\<rparr>
          (buildGrantEvaluator env cfg) True) True) admins"

lemma add_admins:
  "ar_grantEvaluator (foldl AddBreakGlassAdmin r as) = ar_grantEvaluator r"
  "ar_authzEnforceIngest (foldl AddBreakGlassAdmin r as) = ar_authzEnforceIngest r"
  "ar_authzEnforceRead (foldl AddBreakGlassAdmin r as) = ar_authzEnforceRead r"
  "set (ar_breakGlassAdmins (foldl AddBreakGlassAdmin r as)) =
     {s \<in> TrimSpace ` set as. s \<noteq> []} \<union> set (ar_breakGlassAdmins r)"
  by (induction as arbitrary: r) (auto simp: AddBreakGlassAdmin_def Let_def)

lemma built_evaluator:
  assumes "buildGrantEvaluator env cfg = Some can"
  shows "can = DenyAllEvaluator \<or> (\<exists>gs. can = GrantStore_Can gs)"
  using assms by (auto simp: buildGrantEvaluator_def Let_def split: if_splits sum.splits prod.splits option.splits)

lemma built_named:
  assumes "buildGrantEvaluator env cfg = Some can" shows "grant_evaluator can"
  using built_evaluator [OF assms] deny_all.grant_evaluator_axioms grants.grant_evaluator_axioms by blast

lemma configured_sel:
  "ar_grantEvaluator (configured env cfg admins) = buildGrantEvaluator env cfg"
  "ar_authzEnforceIngest (configured env cfg admins)" "ar_authzEnforceRead (configured env cfg admins)"
  "'''' \<notin> set (ar_breakGlassAdmins (configured env cfg admins))"
  by (simp_all add: configured_def add_admins SetGrantEvaluator_def SetAuthzEnforceRead_def)

lemma ingest_by_config:
  "authorizeIngest (configured env cfg admins) ctx req displayPath = None \<longleftrightarrow>
    (case buildGrantEvaluator env cfg of
       None \<Rightarrow> False
     | Some can \<Rightarrow> \<not> IsAnonymous (fst (IdentityFromContext ctx)) \<and>
         (isBreakGlassAdmin (configured env cfg admins) (fst (IdentityFromContext ctx)) \<or>
          can (fst (IdentityFromContext ctx)) (ingestPartitionForGrant req displayPath) ActionIngest))"
proof (cases "buildGrantEvaluator env cfg")
  case None
  then show ?thesis by (simp add: authorizeIngest_def configured_sel)
next
  case (Some can)
  then show ?thesis
    using grant_evaluator.ingest_admitted [OF built_named [OF Some], of "configured env cfg admins"]
    by (simp add: configured_sel)
qed

lemma read_by_config:
  "authorizeRead (configured env cfg admins) ctx part = None \<longleftrightarrow>
    (case buildGrantEvaluator env cfg of
       None \<Rightarrow> True
     | Some can \<Rightarrow> \<not> IsAnonymous (fst (IdentityFromContext ctx)) \<and>
         (isBreakGlassAdmin (configured env cfg admins) (fst (IdentityFromContext ctx)) \<or>
          can (fst (IdentityFromContext ctx)) part ActionView))"
proof (cases "buildGrantEvaluator env cfg")
  case None
  then show ?thesis by (simp add: authorizeRead_def configured_sel)
next
  case (Some can)
  note ge = built_named [OF Some]
  show ?thesis
    using grant_evaluator.read_admitted [OF ge, of "configured env cfg admins" ctx part]
      grant_evaluator.admitted_named(2) [OF ge, of "configured env cfg admins" ctx part] Some
    by (auto simp: configured_sel)
qed

lemma trimmed_bearer: "TrimSpace (bearerFromMetadata md) = bearerFromMetadata md"
proof -
  have t: "TrimSpace (parseBearer v) = parseBearer v" for v by (simp add: parseBearer_def Let_def)
  have "TrimSpace tok = tok" if "filter (\<lambda>tok. tok \<noteq> '''') (map parseBearer vs) = tok # rest" for vs tok rest
  proof -
    have "tok \<in> set (map parseBearer vs)" using arg_cong [OF that, of set] by auto
    then show ?thesis using t by auto
  qed
  then show ?thesis by (simp add: bearerFromMetadata_def split: option.split list.split)
qed

subsection \<open>Properties\<close>

text \<open>With enforcement on, an ingest is admitted exactly if an evaluator could be built and the caller is
  authenticated and either a break-glass administrator or granted the ingest action on the partition by
  the evaluator; a read is admitted exactly if there is no evaluator, or the caller is a break-glass
  administrator or granted the view action. In no configuration with an evaluator is an anonymous caller
  admitted, and a configured but unusable grant source admits break-glass administrators only.\<close>

theorem authorize_correct:
  fixes env cfg admins ctx
  defines "r \<equiv> configured env cfg admins" and "ident \<equiv> fst (IdentityFromContext ctx)"
  shows "(authorizeIngest r ctx req displayPath = None \<longleftrightarrow>
      (case buildGrantEvaluator env cfg of
         None \<Rightarrow> False
       | Some can \<Rightarrow> \<not> IsAnonymous ident \<and>
           (isBreakGlassAdmin r ident \<or> can ident (ingestPartitionForGrant req displayPath) ActionIngest))) \<and>
    (authorizeRead r ctx part = None \<longleftrightarrow>
      (case buildGrantEvaluator env cfg of
         None \<Rightarrow> True
       | Some can \<Rightarrow> \<not> IsAnonymous ident \<and> (isBreakGlassAdmin r ident \<or> can ident part ActionView)))"
  unfolding r_def ident_def using ingest_by_config read_by_config by blast


definition log_reader :: Identity where
  "log_reader = \<lparr>id_Subject = ''d'', id_Email = '''', id_Groups = [''dev''], id_ClientID = ''''\<rparr>"

definition log_policy :: policy_router where
  "log_policy = Some \<lparr>aps_loader = NewLoader\<lparr>lo_policy := Some (policy_New sample_bundle)\<rparr>, aps_enforce = True\<rparr>"

text \<open>A telemetry query for logs or traces is scoped by partition visibility alone: the scope is the
  same for both signals, and there are a policy and an authenticated caller for whom the log query is
  scoped to a partition although the policy denies the caller every log of it.\<close>

theorem queryScope_ignores_signal:
  "queryScope r ctx SignalLogs = queryScope r ctx SignalTraces \<and>
   queryScope log_policy (Some log_reader) SignalLogs = Some [''a''] \<and>
   \<not> CanReadSignal (policyInstance log_policy) log_reader ''a'' SignalLogs"
proof (intro conjI)
  have "SignalLogs \<noteq> SignalMetrics" "SignalTraces \<noteq> SignalMetrics"
    by (simp_all add: SignalLogs_def SignalTraces_def SignalMetrics_def)
  then show "queryScope r ctx SignalLogs = queryScope r ctx SignalTraces"
    by (cases r) (simp_all add: queryScope_def Let_def split: option.split)
  show "queryScope log_policy (Some log_reader) SignalLogs = Some [''a'']" by code_simp
  show "\<not> CanReadSignal (policyInstance log_policy) log_reader ''a'' SignalLogs" by code_simp
qed

text \<open>When the search service enforces the policy, an external caller gets exactly the hits whose
  repository the policy lets the caller read, in their order, with the number of the hits left out; an
  anonymous caller and a missing policy are errors.\<close>

theorem applyReadPolicy_correct:
  assumes "ss_policy s = Some l" "ss_enforceRead s"
  shows "applyReadPolicy s False ctx hits =
    (case lo_policy l of
       None \<Rightarrow> Inl PolicyUnavailable
     | Some p \<Rightarrow>
         let ident = fst (IdentityFromContext ctx);
             kept = filter (\<lambda>h. h \<noteq> None \<and> CanReadPath (Some p) ident (hitDisplayPath h)) hits
         in if IsAnonymous ident then Inl AuthenticationRequired
            else Inr (kept, int (length (filter (\<lambda>h. h \<noteq> None) hits)) - int (length kept)))"
proof (cases "lo_policy l")
  case (Some p)
  let ?ident = "fst (IdentityFromContext ctx)"
  have "hit_allowed p ?ident h = CanReadPath (Some p) ?ident (hitDisplayPath h)" if "\<not> IsAnonymous ?ident" for h
    using that by (simp add: hit_allowed_def CanReadPath_def)
  moreover have "int (length (filter (\<lambda>x. Q x \<and> \<not> P x) xs)) = int (length (filter Q xs)) - int (length (filter (\<lambda>x. Q x \<and> P x) xs))"
    for P Q and xs :: "SearchResult option list"
    by (induction xs) auto
  ultimately show ?thesis
    using assms Some by (simp add: applyReadPolicy_def filterHits_def Let_def conj_commute)
qed (use assms in \<open>simp add: applyReadPolicy_def\<close>)

theorem applyReadPolicy_correct_witness:
  "applyReadPolicy \<lparr>ss_policy = Some NewLoader, ss_enforceRead = True\<rparr> False None [Some \<lparr>sr_DisplayPath = ''a'', sr_FilePath = ''b''\<rparr>] =
     Inl PolicyUnavailable"
  using applyReadPolicy_correct [of "\<lparr>ss_policy = Some NewLoader, ss_enforceRead = True\<rparr>" NewLoader None
    "[Some \<lparr>sr_DisplayPath = ''a'', sr_FilePath = ''b''\<rparr>]"] by (simp add: NewLoader_def)

end
