(* ===== verification/GuardianPaths.thy ===== *)
theory GuardianPaths
  imports GoPath Sharding
begin

section \<open>Guardian paths and who may change them\<close>

text \<open>
  \<^verbatim>\<open>internal/router/guardian_path_mapper.go\<close>: the logical paths of Guardian, their mapping to
  the display path and the relative path of the storage layer, and the way back; and
  \<open>authorizeGuardianMutation\<close> of \<^verbatim>\<open>internal/router/guardian_paths.go\<close>, which decides what
  each role may write and delete.
\<close>

subsection \<open>The path mapper\<close>

datatype path_error =
    LogicalPathRequired
  | NotManagedRoot
  | ContainsDotDot string
  | MissingPartition string
  | MissingVersion string
  | OutsideNamespace string
  | SystemRoot
  | InvalidDisplayPath string
  | NotManagedDisplay string

record guardianPhysicalPath =
  gp_LogicalPath :: string
  gp_DisplayPath :: string
  gp_RelativePath :: string
  gp_StorageID :: string

definition normalizeGuardianLogicalPath :: "string \<Rightarrow> (path_error, string) result" where
  "normalizeGuardianLogicalPath input =
     (let cleaned = TrimSpace input in
      if cleaned = '''' then Inl LogicalPathRequired
      else let cleaned = (if HasPrefix cleaned ''/'' then cleaned else ''/'' @ cleaned);
               cleaned = path_Clean cleaned
        in if cleaned = ''.'' \<or> cleaned = ''/'' then Inl NotManagedRoot
           else if Contains cleaned ''..'' then Inl (ContainsDotDot input)
           else Inr cleaned)"

definition cleanGuardianRelativePath :: "string \<Rightarrow> string" where
  "cleanGuardianRelativePath input =
     (let cleaned = TrimSpace input in
      if cleaned = '''' then ''''
      else let cleaned = path_Clean (TrimPrefix cleaned ''/'')
        in if cleaned = ''.'' then '''' else cleaned)"

definition system_roots :: "string list" where
  "system_roots = [''.queues'', ''.archive'', ''.scans'', ''.pipelines'', ''.registry'', ''.access'']"

definition physical :: "string \<Rightarrow> string \<Rightarrow> string \<Rightarrow> guardianPhysicalPath" where
  "physical cleaned displayPath relativePath =
     \<lparr>gp_LogicalPath = cleaned, gp_DisplayPath = displayPath, gp_RelativePath = relativePath,
      gp_StorageID = GenerateStorageID displayPath\<rparr>"

definition mapGuardianLogicalPath :: "string \<Rightarrow> (path_error, guardianPhysicalPath) result" where
  "mapGuardianLogicalPath logicalPath =
     (case normalizeGuardianLogicalPath logicalPath of
        Inl e \<Rightarrow> Inl e
      | Inr cleaned \<Rightarrow>
          (let trimmed = TrimPrefix cleaned ''/''; parts = Split trimmed slash in
           if hd parts = ''partitions'' then
             (if length parts < 2 \<or> TrimSpace (parts ! 1) = '''' then Inl (MissingPartition logicalPath)
              else Inr (physical cleaned (''guardian/'' @ parts ! 1)
                     (cleanGuardianRelativePath (Join (drop 2 parts) ''/''))))
           else if hd parts = ''doctor'' then
             (if length parts < 2 \<or> TrimSpace (parts ! 1) = '''' then Inl (MissingVersion logicalPath)
              else Inr (physical cleaned (Join (take 2 parts) ''/'')
                     (cleanGuardianRelativePath (Join (drop 2 parts) ''/''))))
           else if hd parts \<in> set system_roots then
             Inr (physical cleaned ''guardian-system'' (cleanGuardianRelativePath trimmed))
           else Inl (OutsideNamespace logicalPath)))"

definition guardianLogicalPathFromPhysical :: "string \<Rightarrow> string \<Rightarrow> (path_error, string) result" where
  "guardianLogicalPathFromPhysical displayPath relativePath =
     (let displayPath = TrimSpace displayPath; relativePath = cleanGuardianRelativePath relativePath in
      if displayPath = ''guardian-system'' then
        (if relativePath = '''' then Inl SystemRoot
         else if \<exists>root \<in> set system_roots. HasPrefix relativePath (root @ ''/'') then Inr (''/'' @ relativePath)
         else Inl (NotManagedDisplay displayPath))
      else if HasPrefix displayPath ''doctor/'' then
        (let version = TrimPrefix displayPath ''doctor/'' in
         if version = '''' \<or> Contains version ''/'' then Inl (InvalidDisplayPath displayPath)
         else let base = ''/doctor/'' @ version
           in if relativePath = '''' then Inr base else Inr (base @ ''/'' @ relativePath))
      else if HasPrefix displayPath ''guardian/'' then
        (let partition = TrimPrefix displayPath ''guardian/'' in
         if partition = '''' then Inl (InvalidDisplayPath displayPath)
         else let base = ''/partitions/'' @ partition
           in if relativePath = '''' then Inr base else Inr (base @ ''/'' @ relativePath))
      else Inl (NotManagedDisplay displayPath))"

definition guardianDisplayPathJoin :: "string \<Rightarrow> string \<Rightarrow> string" where
  "guardianDisplayPathJoin displayPath relativePath =
     (if relativePath = '''' then displayPath else displayPath @ ''/'' @ relativePath)"

subsection \<open>Authorization of mutations\<close>

text \<open>The field for grants is filled in the saved document only and is left out.\<close>

record guardianPrincipal =
  pr_PrincipalID :: string
  pr_TokenHash :: string
  pr_Role :: string
  pr_DisplayName :: string
  pr_CreatedAt :: int
  pr_Disabled :: bool
  pr_BaseURL :: string

datatype auth_error =
    PrincipalRequired
  | PipelineOnly string
  | DoctorOnly string
  | PusherOwnState string
  | PusherOwnProbes string
  | PusherScanRoot string
  | PusherNoIdentity string
  | PusherOwnScans string
  | PusherDeleteScan string
  | PusherWriteScan string
  | PusherQueueOnly string
  | PusherQueueRoot string
  | PusherOwnQueue string
  | PusherDeleteQueue string
  | PusherWriteQueue string
  | UnsupportedRole string

text \<open>\<^verbatim>\<open>strings.CutPrefix\<close>.\<close>

definition CutPrefix :: "string \<Rightarrow> string \<Rightarrow> string \<times> bool" where
  "CutPrefix s p = (if HasPrefix s p then (drop (length p) s, True) else (s, False))"

definition under :: "string \<Rightarrow> string \<Rightarrow> bool" where
  "under logicalPath root \<longleftrightarrow> logicalPath = root \<or> HasPrefix logicalPath (root @ ''/'')"

text \<open>The checks shared by the scan and the queue namespace: own namespace, and only claims and
  results, or only claims when deleting.\<close>

definition pusher_namespace ::
  "string \<Rightarrow> string list \<Rightarrow> bool \<Rightarrow> auth_error \<Rightarrow> auth_error \<Rightarrow> auth_error \<Rightarrow> auth_error \<Rightarrow> auth_error option"
where
  "pusher_namespace pid parts deleteOp eRoot eOwn eDelete eWrite =
     (if length parts < 2 then Some eRoot
      else let (pusherName, ok) = CutPrefix pid ''guardian-pusher-'' in
        if \<not> ok \<or> pusherName = '''' then Some (PusherNoIdentity pid)
        else if hd parts \<noteq> pusherName then Some eOwn
        else if deleteOp then (if parts ! 1 \<noteq> ''.claims'' then Some eDelete else None)
        else if parts ! 1 \<noteq> ''.claims'' \<and> parts ! 1 \<noteq> ''.results'' then Some eWrite
        else None)"

definition own_namespace :: "string \<Rightarrow> string list \<Rightarrow> bool" where
  "own_namespace pid parts =
     (let (pusherName, ok) = CutPrefix pid ''guardian-pusher-''
      in \<not> (\<not> ok \<or> pusherName = '''' \<or> length parts < 2 \<or> hd parts \<noteq> pusherName))"

definition authorizePusher :: "string \<Rightarrow> string \<Rightarrow> bool \<Rightarrow> auth_error option" where
  "authorizePusher pid logicalPath deleteOp =
     (if Contains logicalPath ''/.state/'' then
        (let trimmed = TrimPrefix (TrimPrefix logicalPath ''/.queues/'') ''/.scans/'' in
         if own_namespace pid (Split trimmed slash) then None else Some (PusherOwnState pid))
      else if HasPrefix logicalPath ''/.registry/probes/'' then
        (let trimmed = TrimPrefix logicalPath ''/.registry/probes/'' in
         if own_namespace pid (Split trimmed slash) then None else Some (PusherOwnProbes pid))
      else if HasPrefix logicalPath ''/.scans/'' then
        pusher_namespace pid (Split (TrimPrefix logicalPath ''/.scans/'') slash) deleteOp
          (PusherScanRoot pid) (PusherOwnScans pid) (PusherDeleteScan pid) (PusherWriteScan pid)
      else if \<not> HasPrefix logicalPath ''/.queues/'' then Some (PusherQueueOnly pid)
      else pusher_namespace pid (Split (TrimPrefix logicalPath ''/.queues/'') slash) deleteOp
          (PusherQueueRoot pid) (PusherOwnQueue pid) (PusherDeleteQueue pid) (PusherWriteQueue pid))"

definition authorizeGuardianMutation ::
  "guardianPrincipal option \<Rightarrow> string \<Rightarrow> bool \<Rightarrow> auth_error option"
where
  "authorizeGuardianMutation prin logicalPath deleteOp =
     (case prin of
        None \<Rightarrow> Some PrincipalRequired
      | Some p \<Rightarrow>
          if pr_Role p = ''control-plane'' \<or> pr_Role p = ''cli'' then None
          else if pr_Role p = ''pipeline'' then
            (if under logicalPath ''/.pipelines'' \<or> under logicalPath ''/.queues'' then None
             else Some (PipelineOnly (pr_PrincipalID p)))
          else if pr_Role p = ''doctor'' then
            (if under logicalPath ''/doctor'' then None
             else if under logicalPath ''/partitions/doctor-system'' then None
             else Some (DoctorOnly (pr_PrincipalID p)))
          else if pr_Role p = ''pusher'' then authorizePusher (pr_PrincipalID p) logicalPath deleteOp
          else Some (UnsupportedRole (pr_PrincipalID p)))"

subsection \<open>Normalised paths\<close>

definition clean_path :: "string \<Rightarrow> bool" where
  "clean_path q \<longleftrightarrow> (\<exists>segs. segs \<noteq> [] \<and> q = ''/'' @ Join segs ''/'' \<and> (\<forall>s \<in> set segs. plain_seg s))"

lemma normalize_clean:
  assumes "normalizeGuardianLogicalPath p = Inr q"
  shows "clean_path q \<and> \<not> Contains q ''..''"
proof -
  let ?c = "TrimSpace p"
  let ?r = "if HasPrefix ?c ''/'' then ?c else ''/'' @ ?c"
  have r: "?r \<noteq> []" "hd ?r = slash" and q: "path_Clean ?r = q" "q \<noteq> ''/''" "\<not> Contains q ''..''"
    using assms by (auto simp: normalizeGuardianLogicalPath_def Let_def HasPrefix_iff split: if_splits)
  obtain segs where segs: "path_Clean ?r = ''/'' @ Join segs ''/''" "\<forall>s \<in> set segs. plain_seg s"
    using path_Clean_rooted [OF r] by blast
  with q have "segs \<noteq> []" by auto
  with segs q show ?thesis unfolding clean_path_def by metis
qed

lemma Split_clean:
  assumes "segs \<noteq> []" "\<forall>s \<in> set segs. plain_seg s"
  shows "Split (''/'' @ Join segs ''/'') slash = '''' # segs"
  using Split_Join_plain [OF assms] by simp

lemma Split_two:
  assumes "2 \<le> length (Split t slash)"
  shows "\<exists>rest. t = hd (Split t slash) @ ''/'' @ rest"
proof -
  obtain a b cs where "Split t slash = a # b # cs" using assms
    by (metis One_nat_def Suc_1 Suc_le_length_iff)
  then show ?thesis using Join_Split [of t slash] by auto
qed

lemma own_namespace_split:
  assumes "own_namespace pid (Split t slash)"
  shows "\<exists>name rest. name \<noteq> [] \<and> slash \<notin> set name \<and> pid = ''guardian-pusher-'' @ name \<and> t = name @ ''/'' @ rest"
proof -
  let ?name = "drop (length ''guardian-pusher-'') pid"
  have "HasPrefix pid ''guardian-pusher-''" "?name \<noteq> []" "2 \<le> length (Split t slash)" "hd (Split t slash) = ?name"
    using assms by (auto simp: own_namespace_def CutPrefix_def split: if_splits)
  moreover from this(1) have "pid = ''guardian-pusher-'' @ ?name" unfolding HasPrefix_iff by auto
  moreover have "slash \<notin> set ?name"
    using calculation(4) Split_no_sep [OF hd_in_set [OF Split_not_Nil], of slash t] by simp
  ultimately show ?thesis using Split_two [of t] by metis
qed

lemma pusher_namespace_split:
  assumes "pusher_namespace pid (Split t slash) deleteOp e1 e2 e3 e4 = None"
  shows "own_namespace pid (Split t slash) \<and>
    (Split t slash ! 1 = ''.claims'' \<or> \<not> deleteOp \<and> Split t slash ! 1 = ''.results'')"
  using assms by (auto simp: pusher_namespace_def own_namespace_def Let_def split: if_splits prod.splits)

lemma clean_path_no_double:
  assumes "clean_path q" shows "q \<noteq> a @ ''//'' @ b"
proof
  assume q: "q = a @ ''//'' @ b"
  obtain segs where segs: "segs \<noteq> []" "q = ''/'' @ Join segs ''/''" "\<forall>s \<in> set segs. plain_seg s"
    using assms unfolding clean_path_def by blast
  have "'''' \<in> set (tl (Split (a @ ''//'' @ b) slash))"
  proof (induction a)
    case (Cons c a)
    then show ?case by (cases "Split (a @ ''//'' @ b) slash") auto
  qed simp
  then have "'''' \<in> set segs" using Split_clean [OF segs(1,3)] segs(2) q by simp
  then show False using segs(3) by (auto simp: plain_seg_def)
qed

lemma HasPrefix_TrimPrefix: "HasPrefix s p \<Longrightarrow> s = p @ TrimPrefix s p"
  by (auto simp: HasPrefix_iff)

lemma authorizePusher_own:
  assumes "clean_path q" "authorizePusher pid q deleteOp = None"
  shows "\<exists>name root rest. name \<noteq> [] \<and> pid = ''guardian-pusher-'' @ name \<and>
    root \<in> {''/.queues/'', ''/.scans/'', ''/.registry/probes/''} \<and> q = root @ name @ ''/'' @ rest"
proof -
  have nest: "q = root @ t \<Longrightarrow> own_namespace pid (Split t slash) \<Longrightarrow>
      root \<in> {''/.queues/'', ''/.scans/'', ''/.registry/probes/''} \<Longrightarrow> ?thesis" for root t
    using own_namespace_split [of pid t] by blast
  have slash_first: "q \<noteq> [] \<and> hd q = slash" using assms(1) by (auto simp: clean_path_def)
  consider (state) "Contains q ''/.state/''" "own_namespace pid (Split (TrimPrefix (TrimPrefix q ''/.queues/'') ''/.scans/'') slash)"
    | (probe) "HasPrefix q ''/.registry/probes/''" "own_namespace pid (Split (TrimPrefix q ''/.registry/probes/'') slash)"
    | (scan) "HasPrefix q ''/.scans/''" "own_namespace pid (Split (TrimPrefix q ''/.scans/'') slash)"
    | (queue) "HasPrefix q ''/.queues/''" "own_namespace pid (Split (TrimPrefix q ''/.queues/'') slash)"
    using assms(2) unfolding authorizePusher_def Let_def
    by (auto split: if_splits dest: pusher_namespace_split)
  then show ?thesis
  proof cases
    case state
    show ?thesis
    proof (cases "HasPrefix q ''/.queues/''")
      case True
      let ?t = "TrimPrefix q ''/.queues/''"
      have q: "q = ''/.queues/'' @ ?t" using True by (rule HasPrefix_TrimPrefix)
      have "\<not> HasPrefix ?t ''/.scans/''"
      proof
        assume "HasPrefix ?t ''/.scans/''"
        then obtain u where "?t = ''/.scans/'' @ u" by (auto simp: HasPrefix_iff)
        then have "q = ''/.queues'' @ ''//'' @ ''.scans/'' @ u" using q by simp
        then show False using clean_path_no_double [OF assms(1)] by blast
      qed
      then have "own_namespace pid (Split ?t slash)" using state(2) by (simp add: TrimPrefix_def)
      then show ?thesis by (rule nest [OF q]) simp
    next
      case no_queue: False
      show ?thesis
      proof (cases "HasPrefix q ''/.scans/''")
        case True
        have "TrimPrefix q ''/.queues/'' = q" using no_queue by (simp add: TrimPrefix_def)
        with state(2) have "own_namespace pid (Split (TrimPrefix q ''/.scans/'') slash)" by simp
        then show ?thesis by (rule nest [OF HasPrefix_TrimPrefix [OF True]]) simp
      next
        case False
        then have "own_namespace pid (Split q slash)" using state(2) no_queue by (simp add: TrimPrefix_def)
        then obtain name rest where "name \<noteq> []" "q = name @ ''/'' @ rest" "slash \<notin> set name"
          using own_namespace_split [of pid q] by blast
        then show ?thesis using slash_first by (cases name) auto
      qed
    qed
  next
    case probe
    then show ?thesis by (intro nest [OF HasPrefix_TrimPrefix [OF probe(1)]]) simp_all
  next
    case scan
    then show ?thesis by (intro nest [OF HasPrefix_TrimPrefix [OF scan(1)]]) simp_all
  next
    case queue
    then show ?thesis by (intro nest [OF HasPrefix_TrimPrefix [OF queue(1)]]) simp_all
  qed
qed

lemma clean_segs_parts:
  assumes "segs \<noteq> []" "\<forall>s \<in> set segs. plain_seg s"
  shows "TrimPrefix (''/'' @ Join segs ''/'') ''/'' = Join segs ''/''" "Split (Join segs ''/'') slash = segs"
  using Split_Join_plain [OF assms] by (simp_all only: TrimPrefix_append)

lemma under_segs:
  assumes "segs \<noteq> []" "\<forall>s \<in> set segs. plain_seg s" "plain_seg root" "under (''/'' @ Join segs ''/'') (''/'' @ root)"
  shows "hd segs = root"
proof -
  have "Join segs ''/'' = root \<or> (\<exists>t. Join segs ''/'' = root @ slash # t)"
    using assms(4) by (auto simp: under_def HasPrefix_iff)
  then have "Split (Join segs ''/'') slash = [root] \<or> (\<exists>t. Split (Join segs ''/'') slash = root # Split t slash)"
    using assms(3) by (auto simp: plain_seg_def Split_append_sep)
  then show ?thesis unfolding Split_Join_plain [OF assms(1,2)] by auto
qed

subsection \<open>Properties\<close>

text \<open>Normalisation. A logical path that \<open>normalizeGuardianLogicalPath\<close> accepts is a slash
  followed by at least one segment, with no empty, dot or dot-dot segment and no two
  consecutive dots anywhere, and cleaning it again changes nothing.\<close>

theorem normalizeGuardianLogicalPath_clean:
  assumes "normalizeGuardianLogicalPath p = Inr q"
  shows "(\<exists>segs. segs \<noteq> [] \<and> q = ''/'' @ Join segs ''/'' \<and>
      (\<forall>s \<in> set segs. s \<noteq> '''' \<and> s \<noteq> ''.'' \<and> s \<noteq> ''..'' \<and> slash \<notin> set s)) \<and>
    \<not> Contains q ''..'' \<and> path_Clean q = q"
  using normalize_clean [OF assms] path_Clean_segs unfolding clean_path_def plain_seg_def by blast

theorem normalizeGuardianLogicalPath_clean_witness:
  "normalizeGuardianLogicalPath '' partitions//a/./b/../c/ '' = Inr ''/partitions/a/c'' \<and>
   path_Clean ''/partitions/a/c'' = ''/partitions/a/c''"
proof -
  have "normalizeGuardianLogicalPath '' partitions//a/./b/../c/ '' = Inr ''/partitions/a/c''" by code_simp
  with normalizeGuardianLogicalPath_clean [OF this] show ?thesis by blast
qed

text \<open>C12: Confinement of mutations. On a normalised path a mutation is authorised only for the
  control plane and the command line, for the pipeline inside its configuration and queue
  namespaces, which are stored under \<open>guardian-system\<close>, for the doctor inside its own two
  namespaces, and for a pusher inside a directory that carries its own name.\<close>

theorem authorizeGuardianMutation_confined:
  assumes "normalizeGuardianLogicalPath p = Inr q"
    "authorizeGuardianMutation (Some pr) q deleteOp = None"
  shows "pr_Role pr \<in> {''control-plane'', ''cli''} \<or>
    (pr_Role pr = ''pipeline'' \<and> (under q ''/.pipelines'' \<or> under q ''/.queues'') \<and>
       (\<forall>m. mapGuardianLogicalPath p = Inr m \<longrightarrow> gp_DisplayPath m = ''guardian-system'')) \<or>
    (pr_Role pr = ''doctor'' \<and> (under q ''/doctor'' \<or> under q ''/partitions/doctor-system'')) \<or>
    (pr_Role pr = ''pusher'' \<and>
       (\<exists>name root rest. name \<noteq> '''' \<and> pr_PrincipalID pr = ''guardian-pusher-'' @ name \<and>
          root \<in> {''/.queues/'', ''/.scans/'', ''/.registry/probes/''} \<and> q = root @ name @ ''/'' @ rest))"
proof -
  have clean: "clean_path q" using normalize_clean [OF assms(1)] by blast
  then obtain segs where segs: "segs \<noteq> []" "q = ''/'' @ Join segs ''/''" "\<forall>s \<in> set segs. plain_seg s"
    unfolding clean_path_def by blast
  have sys: "gp_DisplayPath m = ''guardian-system''"
    if "under q ''/.pipelines'' \<or> under q ''/.queues''" "mapGuardianLogicalPath p = Inr m" for m
  proof -
    have "hd segs = ''.pipelines'' \<or> hd segs = ''.queues''"
      using that(1) under_segs [OF segs(1,3), of "''.pipelines''"] under_segs [OF segs(1,3), of "''.queues''"]
      by (auto simp: segs(2) plain_seg_def)
    then show ?thesis
      using that(2) clean_segs_parts [OF segs(1,3)] unfolding mapGuardianLogicalPath_def assms(1) segs(2)
      by (auto simp: Let_def system_roots_def physical_def)
  qed
  show ?thesis
    using assms(2) sys authorizePusher_own [OF clean, of "pr_PrincipalID pr" deleteOp]
    unfolding authorizeGuardianMutation_def option.case by (auto split: if_splits)
qed

definition pusher_k8s :: guardianPrincipal where
  "pusher_k8s = \<lparr>pr_PrincipalID = ''guardian-pusher-k8s'', pr_TokenHash = '''', pr_Role = ''pusher'', pr_DisplayName = '''',
     pr_CreatedAt = 0, pr_Disabled = False, pr_BaseURL = ''''\<rparr>"

theorem authorizeGuardianMutation_confined_witness:
  "authorizeGuardianMutation (Some pusher_k8s)
     ''/.queues/k8s/.claims/t1'' True = None \<and>
   (\<exists>name root rest. ''guardian-pusher-k8s'' = ''guardian-pusher-'' @ name \<and>
      ''/.queues/k8s/.claims/t1'' = root @ name @ ''/'' @ rest)"
proof -
  have n: "normalizeGuardianLogicalPath ''/.queues/k8s/.claims/t1'' = Inr ''/.queues/k8s/.claims/t1''" by code_simp
  have a: "authorizeGuardianMutation (Some pusher_k8s)
     ''/.queues/k8s/.claims/t1'' True = None" by code_simp
  have p: "pr_Role pusher_k8s = ''pusher''" "pr_PrincipalID pusher_k8s = ''guardian-pusher-k8s''" by (simp_all add: pusher_k8s_def)
  have "\<exists>name root rest. ''guardian-pusher-k8s'' = ''guardian-pusher-'' @ name \<and>
      ''/.queues/k8s/.claims/t1'' = root @ name @ ''/'' @ rest"
  proof -
    have "pr_Role pusher_k8s \<notin> {''control-plane'', ''cli''}" "pr_Role pusher_k8s \<noteq> ''pipeline''" "pr_Role pusher_k8s \<noteq> ''doctor''"
      by (simp_all add: p(1))
    then show ?thesis using authorizeGuardianMutation_confined [OF n a] unfolding p(2) by blast
  qed
  with a show ?thesis by blast
qed

lemma TrimSpace_none: "\<forall>c \<in> set s. \<not> is_space c \<Longrightarrow> TrimSpace s = s"
  unfolding TrimSpace_def by (rule Trim_by_id) (cases s; simp)

lemma Join_chars: "set (Join ws sep) \<subseteq> \<Union> (set ` set ws) \<union> set sep"
  by (induction ws rule: induct_list012) (auto simp: Join_Cons)

lemma Join_no_space:
  "\<forall>s \<in> set segs. \<forall>c \<in> set s. \<not> is_space c \<Longrightarrow> \<forall>c \<in> set (Join segs ''/''). \<not> is_space c"
proof
  fix c assume segs: "\<forall>s \<in> set segs. \<forall>c \<in> set s. \<not> is_space c" and "c \<in> set (Join segs ''/'')"
  then consider s where "s \<in> set segs" "c \<in> set s" | "c = slash" using Join_chars [of segs "''/''"] by auto
  then show "\<not> is_space c"
  proof cases
    case 2
    then show ?thesis by (simp add: is_space_def)
  qed (use segs in blast)
qed

lemma seg_in_Join: "s \<in> set segs \<Longrightarrow> set s \<subseteq> set (Join segs sep)"
  by (induction segs rule: induct_list012) (auto simp: Join_Cons)

lemma TrimPrefix_chr: "s \<noteq> [] \<Longrightarrow> hd s \<noteq> c \<Longrightarrow> TrimPrefix s [c] = s"
  by (cases s) (simp_all add: TrimPrefix_def HasPrefix_def)

lemma cleanGuardianRelativePath_segs:
  assumes "\<forall>s \<in> set segs. plain_seg s" "\<forall>s \<in> set segs. \<forall>c \<in> set s. \<not> is_space c"
  shows "cleanGuardianRelativePath (Join segs ''/'') = Join segs ''/''"
proof (cases "segs = []")
  case True
  then show ?thesis by (simp add: cleanGuardianRelativePath_def TrimSpace_def Trim_by_def TrimRight_by_def)
next
  case False
  note hd = Join_plain_hd [OF False assms(1)]
  have "TrimSpace (Join segs ''/'') = Join segs ''/''"
    by (rule TrimSpace_none, rule Join_no_space, rule assms(2))
  moreover have "TrimPrefix (Join segs ''/'') ''/'' = Join segs ''/''"
    using hd by (intro TrimPrefix_chr) blast+
  moreover have "Join segs ''/'' \<noteq> ''.''"
  proof
    assume "Join segs ''/'' = ''.''"
    then have "segs = [''.'']" using Split_Join_plain [OF False assms(1)] by simp
    then show False using assms(1) by (simp add: plain_seg_def)
  qed
  ultimately show ?thesis
    using hd path_Clean_rel_segs [OF False assms(1)] by (simp add: cleanGuardianRelativePath_def)
qed

lemma Join_two: "Join (a # b # cs) ''/'' = a @ ''/'' @ b @ (if cs = [] then '''' else ''/'' @ Join cs ''/'')"
  by (cases cs) auto

lemma Join_plain_Nil: "\<forall>s \<in> set segs. plain_seg s \<Longrightarrow> Join segs ''/'' = [] \<longleftrightarrow> segs = []"
  using Join_plain_hd [of segs] by (cases "segs = []") auto

lemma normalize_no_space:
  assumes "normalizeGuardianLogicalPath p = Inr q" "\<forall>c \<in> set p. \<not> is_space c"
  shows "\<forall>c \<in> set q. \<not> is_space c"
proof
  fix c assume "c \<in> set q"
  let ?r = "if HasPrefix p ''/'' then p else ''/'' @ p"
  have "TrimSpace p = p" using assms(2) by (rule TrimSpace_none)
  then have r: "?r \<noteq> []" "hd ?r = slash" "path_Clean ?r = q"
    using assms(1) by (auto simp: normalizeGuardianLogicalPath_def Let_def HasPrefix_iff split: if_splits)
  have "\<not> is_space slash" "\<not> is_space CHR ''.''" by (simp_all add: is_space_def)
  moreover have "c \<in> set ?r \<or> c = slash \<or> c = CHR ''.''"
    using path_Clean_chars [OF r(1,2)] r(3) \<open>c \<in> set q\<close> by blast
  ultimately show "\<not> is_space c" using assms(2) by (auto split: if_splits)
qed

lemma display_partition:
  assumes "plain_seg x" "\<forall>c \<in> set x. \<not> is_space c"
  shows "TrimSpace (''guardian/'' @ x) = ''guardian/'' @ x" "TrimSpace (''doctor/'' @ x) = ''doctor/'' @ x"
    "TrimSpace ''guardian-system'' = ''guardian-system''"
  by (rule TrimSpace_none; use assms(2) in \<open>simp add: is_space_def\<close>)+

lemma from_physical_partition:
  assumes "plain_seg x" "\<forall>c \<in> set x. \<not> is_space c" "\<forall>s \<in> set segs. plain_seg s" "\<forall>s \<in> set segs. \<forall>c \<in> set s. \<not> is_space c"
  shows "guardianLogicalPathFromPhysical (''guardian/'' @ x) (Join segs ''/'') = Inr (''/'' @ Join (''partitions'' # x # segs) ''/'')"
    "guardianLogicalPathFromPhysical (''doctor/'' @ x) (Join segs ''/'') = Inr (''/'' @ Join (''doctor'' # x # segs) ''/'')"
proof -
  note clean = cleanGuardianRelativePath_segs [OF assms(3,4)]
  have x: "x \<noteq> []" "\<not> Contains x ''/''" using assms(1) by (auto simp: plain_seg_def Contains_iff)
  have pre: "HasPrefix (''guardian/'' @ x) ''guardian/''" "HasPrefix (''doctor/'' @ x) ''doctor/''"
    "\<not> HasPrefix (''guardian/'' @ x) ''doctor/''" by (simp_all add: HasPrefix_def)
  have trim: "TrimPrefix (''guardian/'' @ x) ''guardian/'' = x" "TrimPrefix (''doctor/'' @ x) ''doctor/'' = x"
    by (rule TrimPrefix_append)+
  have ne: "''guardian/'' @ x \<noteq> ''guardian-system''" "''doctor/'' @ x \<noteq> ''guardian-system''" by simp_all
  show "guardianLogicalPathFromPhysical (''guardian/'' @ x) (Join segs ''/'') = Inr (''/'' @ Join (''partitions'' # x # segs) ''/'')"
    unfolding guardianLogicalPathFromPhysical_def Let_def display_partition [OF assms(1,2)] clean trim Join_two
    using pre ne x Join_plain_Nil [OF assms(3)] by simp
  show "guardianLogicalPathFromPhysical (''doctor/'' @ x) (Join segs ''/'') = Inr (''/'' @ Join (''doctor'' # x # segs) ''/'')"
    unfolding guardianLogicalPathFromPhysical_def Let_def display_partition [OF assms(1,2)] clean trim Join_two
    using pre ne x Join_plain_Nil [OF assms(3)] by simp
qed

lemma from_physical_system:
  assumes "r \<in> set system_roots" "segs \<noteq> []" "\<forall>s \<in> set (r # segs). plain_seg s"
    "\<forall>s \<in> set (r # segs). \<forall>c \<in> set s. \<not> is_space c"
  shows "guardianLogicalPathFromPhysical ''guardian-system'' (Join (r # segs) ''/'') = Inr (''/'' @ Join (r # segs) ''/'')"
proof -
  note clean = cleanGuardianRelativePath_segs [OF assms(3,4)]
  have "HasPrefix (Join (r # segs) ''/'') (r @ ''/'')"
    using assms(2) by (simp add: Join_Cons HasPrefix_iff)
  moreover have "Join (r # segs) ''/'' \<noteq> []" using Join_plain_Nil [OF assms(3)] by simp
  moreover have "TrimSpace ''guardian-system'' = ''guardian-system''"
    by (rule TrimSpace_none) (simp add: is_space_def)
  ultimately show ?thesis
    unfolding guardianLogicalPathFromPhysical_def Let_def clean using assms(1) by simp blast
qed



end
