(* ===== verification/GuardianPrincipals.thy ===== *)
theory GuardianPrincipals
  imports GuardianPaths Authz
begin

section \<open>Guardian principals\<close>

text \<open>
  The store of Guardian principals (\<^verbatim>\<open>src/internal/router/guardian_principals.go\<close>) and the
  authentication of Guardian tokens (\<^verbatim>\<open>src/internal/router/router.go\<close>).

  The two indexes of the store hold pointers to the same principals, and an update goes through the
  pointer, so the principals live in an explicit heap. Writing the file is a value: the error of the
  write, if any. The current time is an argument.
\<close>

definition guardianTokenHash :: "string \<Rightarrow> string" where
  "guardianTokenHash token = hex_encode (sha256 (bytes_of token))"

definition inferGuardianPrincipalRole :: "string \<Rightarrow> string" where
  "inferGuardianPrincipalRole clientID =
     (if Contains clientID ''pusher'' then ''pusher''
      else if Contains clientID ''cli'' then ''cli'' else ''control-plane'')"

record guardianPrincipalStore =
  ps_heap :: "nat \<Rightarrow> guardianPrincipal option"
  ps_next :: nat
  ps_principals :: "string \<Rightarrow> nat option"
  ps_byTokenHash :: "string \<Rightarrow> nat list option"
  ps_grants :: "(string, Grant list) gomap"

definition newGuardianPrincipalStore :: guardianPrincipalStore where
  "newGuardianPrincipalStore =
     \<lparr>ps_heap = Map.empty, ps_next = 0, ps_principals = Map.empty, ps_byTokenHash = Map.empty, ps_grants = []\<rparr>"

definition ps_list :: "guardianPrincipalStore \<Rightarrow> string \<Rightarrow> nat list" where
  "ps_list s h = (case ps_byTokenHash s h of None \<Rightarrow> [] | Some l \<Rightarrow> l)"

definition has_id :: "guardianPrincipalStore \<Rightarrow> string \<Rightarrow> nat \<Rightarrow> bool" where
  "has_id s principalID a = (case ps_heap s a of None \<Rightarrow> False | Some p \<Rightarrow> pr_PrincipalID p = principalID)"

text \<open>\<open>list[i] = principal\<close> at the first entry with the identifier, or an append.\<close>

fun put_entry :: "guardianPrincipalStore \<Rightarrow> string \<Rightarrow> nat \<Rightarrow> nat list \<Rightarrow> nat list" where
  "put_entry s principalID a [] = [a]"
| "put_entry s principalID a (b # bs) =
     (if has_id s principalID b then a # bs else b # put_entry s principalID a bs)"

definition drop_old :: "guardianPrincipalStore \<Rightarrow> guardianPrincipal \<Rightarrow> string \<Rightarrow> guardianPrincipalStore" where
  "drop_old s p oldTokenHash =
     (if oldTokenHash \<noteq> '''' \<and> oldTokenHash \<noteq> pr_TokenHash p then
        (let filtered = filter (\<lambda>b. ps_heap s b \<noteq> None \<and> \<not> has_id s (pr_PrincipalID p) b) (ps_list s oldTokenHash)
         in s\<lparr>ps_byTokenHash := (ps_byTokenHash s)(oldTokenHash := if filtered = [] then None else Some filtered)\<rparr>)
      else s)"

definition indexPrincipalLocked :: "guardianPrincipalStore \<Rightarrow> nat option \<Rightarrow> string \<Rightarrow> guardianPrincipalStore" where
  "indexPrincipalLocked s addr oldTokenHash =
     (case addr of
        None \<Rightarrow> s
      | Some a \<Rightarrow>
          (case ps_heap s a of
             None \<Rightarrow> s
           | Some p \<Rightarrow>
               if pr_PrincipalID p = '''' then s
               else let s = drop_old s p oldTokenHash in
                 if pr_TokenHash p = '''' then s
                 else s\<lparr>ps_byTokenHash := (ps_byTokenHash s)
                   (pr_TokenHash p \<mapsto> put_entry s (pr_PrincipalID p) a (ps_list s (pr_TokenHash p)))\<rparr>))"

text \<open>Loading a decoded document: each entry is a new object with its grants.\<close>

definition load_one :: "guardianPrincipal \<times> Grant list \<Rightarrow> guardianPrincipalStore \<Rightarrow> guardianPrincipalStore" where
  "load_one = (\<lambda>(p, grants) s.
     if pr_PrincipalID p = '''' then s
     else let a = ps_next s;
              s = s\<lparr>ps_heap := (ps_heap s)(a \<mapsto> p), ps_next := a + 1, ps_principals := (ps_principals s)(pr_PrincipalID p \<mapsto> a)\<rparr>;
              s = indexPrincipalLocked s (Some a) ''''
       in if grants \<noteq> [] then s\<lparr>ps_grants := gm_set (pr_PrincipalID p) grants (ps_grants s)\<rparr> else s)"

definition load_principals :: "(guardianPrincipal \<times> Grant list) option list \<Rightarrow> guardianPrincipalStore \<Rightarrow> guardianPrincipalStore" where
  "load_principals stored s = fold load_one (List.map_filter (\<lambda>x. x) stored) s"

datatype principal_error = PrincipalAndTokenRequired | SaveError string | UnknownPrincipal string

definition up_to_date :: "guardianPrincipal \<Rightarrow> string \<Rightarrow> string \<Rightarrow> string \<Rightarrow> string \<Rightarrow> bool" where
  "up_to_date p tokenHash role displayName baseURL \<longleftrightarrow>
     pr_TokenHash p = tokenHash \<and> pr_Role p = role \<and> pr_DisplayName p = displayName \<and> pr_BaseURL p = baseURL \<and>
     \<not> pr_Disabled p \<and> pr_CreatedAt p \<noteq> 0"

text \<open>The pointer to the principal with this identifier and what it points to: a fresh object, or the
  known one.\<close>

definition fresh_principal :: "string \<Rightarrow> int \<Rightarrow> guardianPrincipal" where
  "fresh_principal principalID now = \<lparr>pr_PrincipalID = principalID, pr_TokenHash = '''', pr_Role = '''', pr_DisplayName = '''',
     pr_CreatedAt = now, pr_Disabled = False, pr_BaseURL = ''''\<rparr>"

definition entry_of :: "guardianPrincipalStore \<Rightarrow> string \<Rightarrow> int \<Rightarrow> nat \<times> guardianPrincipal \<times> string" where
  "entry_of s principalID now =
     (case ps_principals s principalID of
        None \<Rightarrow> (ps_next s, fresh_principal principalID now, '''')
      | Some a \<Rightarrow> (a, the (ps_heap s a), pr_TokenHash (the (ps_heap s a))))"

definition updated :: "guardianPrincipal \<Rightarrow> string \<Rightarrow> string \<Rightarrow> string \<Rightarrow> string \<Rightarrow> int \<Rightarrow> guardianPrincipal" where
  "updated p tokenHash role displayName baseURL now =
     p\<lparr>pr_TokenHash := tokenHash, pr_Role := role, pr_DisplayName := displayName, pr_BaseURL := baseURL,
       pr_Disabled := False, pr_CreatedAt := (if pr_CreatedAt p = 0 then now else pr_CreatedAt p)\<rparr>"

definition upsertConnectedClient ::
  "guardianPrincipalStore \<Rightarrow> int \<Rightarrow> string option \<Rightarrow> string \<Rightarrow> string \<Rightarrow> string \<Rightarrow> string \<Rightarrow> string \<Rightarrow>
   (principal_error, guardianPrincipal) result \<times> guardianPrincipalStore"
where
  "upsertConnectedClient s now save_err principalID token role displayName baseURL =
     (if TrimSpace principalID = '''' \<or> TrimSpace token = '''' then (Inl PrincipalAndTokenRequired, s)
      else let tokenHash = guardianTokenHash token;
               role = (if TrimSpace role = '''' then inferGuardianPrincipalRole principalID else role);
               displayName = (if TrimSpace displayName = '''' then principalID else displayName);
               (a, p, oldTokenHash) = entry_of s principalID now
        in if ps_principals s principalID \<noteq> None \<and> up_to_date p tokenHash role displayName baseURL then (Inr p, s)
           else let p = updated p tokenHash role displayName baseURL now;
                    s = s\<lparr>ps_heap := (ps_heap s)(a \<mapsto> p), ps_next := max (ps_next s) (a + 1),
                          ps_principals := (ps_principals s)(principalID \<mapsto> a)\<rparr>;
                    s = indexPrincipalLocked s (Some a) oldTokenHash
             in case save_err of Some e \<Rightarrow> (Inl (SaveError e), s) | None \<Rightarrow> (Inr p, s))"

fun first_valid :: "guardianPrincipalStore \<Rightarrow> string \<Rightarrow> nat list \<Rightarrow> guardianPrincipal option" where
  "first_valid s tokenHash [] = None"
| "first_valid s tokenHash (a # as) =
     (case ps_heap s a of
        None \<Rightarrow> first_valid s tokenHash as
      | Some p \<Rightarrow>
          if pr_Disabled p then first_valid s tokenHash as
          else if pr_TokenHash p = tokenHash then Some p
          else first_valid s tokenHash as)"

definition validateToken :: "guardianPrincipalStore \<Rightarrow> string \<Rightarrow> guardianPrincipal option" where
  "validateToken s token =
     (if TrimSpace token = '''' then None
      else let tokenHash = guardianTokenHash token in first_valid s tokenHash (ps_list s tokenHash))"

definition validateTokenForPrincipal :: "guardianPrincipalStore \<Rightarrow> string \<Rightarrow> string \<Rightarrow> guardianPrincipal option" where
  "validateTokenForPrincipal s token principalID =
     (if TrimSpace token = '''' \<or> TrimSpace principalID = '''' then None
      else case ps_principals s principalID of
        None \<Rightarrow> None
      | Some a \<Rightarrow>
          (case ps_heap s a of
             None \<Rightarrow> None
           | Some p \<Rightarrow> if pr_Disabled p \<or> pr_TokenHash p \<noteq> guardianTokenHash token then None else Some p))"

subsection \<open>Grants of principals\<close>

definition setGrants ::
  "guardianPrincipalStore \<Rightarrow> string option \<Rightarrow> string \<Rightarrow> Grant list \<Rightarrow> principal_error option \<times> guardianPrincipalStore"
where
  "setGrants s save_err principalID grants =
     (if ps_principals s principalID = None then (Some (UnknownPrincipal principalID), s)
      else let s = s\<lparr>ps_grants := (if grants = [] then gm_del principalID (ps_grants s) else gm_set principalID grants (ps_grants s))\<rparr>
        in (map_option SaveError save_err, s))"

definition grantsFor :: "guardianPrincipalStore \<Rightarrow> string \<Rightarrow> Grant list" where
  "grantsFor s principalID = (case gm_get (ps_grants s) principalID of None \<Rightarrow> [] | Some g \<Rightarrow> g)"

definition principalGrant_Can :: "Grant list \<Rightarrow> Identity \<Rightarrow> string \<Rightarrow> string \<Rightarrow> bool" where
  "principalGrant_Can grants ident part action =
     (if IsAnonymous ident then False
      else list_ex (\<lambda>g.
        (g_Partition g = WildcardPartition \<or> g_Partition g = part) \<and>
        ((let t = TrimSpace (g_Subject g) in t \<noteq> '''' \<and>
            (t = id_Subject ident \<or> t = id_ClientID ident \<or> id_Email ident \<noteq> '''' \<and> t = id_Email ident)) \<or>
         (let grp = TrimSpace (g_Group g) in grp \<noteq> '''' \<and> HasGroup ident grp)) \<and>
        role_Allows (g_Role g) action) grants)"

definition grantEvaluator :: "guardianPrincipalStore \<Rightarrow> Identity \<Rightarrow> string \<Rightarrow> string \<Rightarrow> bool" where
  "grantEvaluator s = principalGrant_Can (concat (map snd (ps_grants s)))"

subsection \<open>Authentication\<close>

definition GuardianControlPlanePrincipalID :: string where
  "GuardianControlPlanePrincipalID = ''guardiand''"

record guardianClientState =
  cs_principalID :: string
  cs_role :: string
  cs_displayName :: string
  cs_baseURL :: string
  cs_authToken :: string

type_synonym guardian_clients = "(string, guardianClientState) gomap"

definition client_principal_id :: "string \<Rightarrow> guardianClientState \<Rightarrow> string" where
  "client_principal_id clientID st = (if cs_principalID st = '''' then clientID else cs_principalID st)"

definition client_principal :: "string \<times> guardianClientState \<Rightarrow> guardianPrincipal" where
  "client_principal = (\<lambda>(clientID, st).
     (let principalID = client_principal_id clientID st in
      \<lparr>pr_PrincipalID = principalID, pr_TokenHash = '''',
       pr_Role = (if cs_role st = '''' then inferGuardianPrincipalRole principalID else cs_role st),
       pr_DisplayName = (if cs_displayName st = '''' then principalID else cs_displayName st),
       pr_CreatedAt = 0, pr_Disabled = False, pr_BaseURL = cs_baseURL st\<rparr>))"

definition first_opt :: "'a list \<Rightarrow> 'a option" where
  "first_opt xs = (case xs of [] \<Rightarrow> None | x # _ \<Rightarrow> Some x)"

definition authenticateGuardianToken :: "guardianPrincipalStore \<Rightarrow> guardian_clients \<Rightarrow> string \<Rightarrow> guardianPrincipal option" where
  "authenticateGuardianToken s clients token =
     (case validateTokenForPrincipal s token GuardianControlPlanePrincipalID of
        Some p \<Rightarrow> Some p
      | None \<Rightarrow>
          (case validateToken s token of
             Some p \<Rightarrow> Some p
           | None \<Rightarrow> map_option client_principal (first_opt (filter (\<lambda>(_, st). cs_authToken st = token) clients))))"

text \<open>\<open>requested\<close>: the principal identifier of the mutation context, if the request has one.\<close>

definition authenticateGuardianMutation ::
  "guardianPrincipalStore \<Rightarrow> guardian_clients \<Rightarrow> string \<Rightarrow> string option \<Rightarrow> guardianPrincipal option"
where
  "authenticateGuardianMutation s clients token requested =
     (if (case requested of None \<Rightarrow> True | Some q \<Rightarrow> TrimSpace q = '''') then authenticateGuardianToken s clients token
      else let requestedPrincipalID = TrimSpace (the requested) in
        case validateTokenForPrincipal s token requestedPrincipalID of
          Some p \<Rightarrow> Some p
        | None \<Rightarrow>
            (case first_opt (filter (\<lambda>(clientID, st). cs_authToken st = token \<and>
                client_principal_id clientID st = requestedPrincipalID) clients) of
               Some c \<Rightarrow> Some (client_principal c)
             | None \<Rightarrow> validateTokenForPrincipal s token GuardianControlPlanePrincipalID))"

record GuardianConfig =
  cf_PrincipalId :: string
  cf_Role :: string
  cf_DisplayName :: string
  cf_BaseUrl :: string
  cf_AuthToken :: string

text \<open>What \<open>RegisterClient\<close> does to the principals and to the guardian clients; the answer is whether the
  registration is accepted. A failed write of the principal file is only logged.\<close>

definition RegisterClient ::
  "guardianPrincipalStore \<Rightarrow> guardian_clients \<Rightarrow> int \<Rightarrow> string option \<Rightarrow> string \<Rightarrow> GuardianConfig option \<Rightarrow>
   bool \<times> guardianPrincipalStore \<times> guardian_clients"
where
  "RegisterClient s clients now save_err clientId cfg =
     (if clientId = '''' then (False, s, clients)
      else case cfg of
        None \<Rightarrow> (\<not> HasPrefix clientId ''guardian-'', s, clients)
      | Some c \<Rightarrow>
          if cf_AuthToken c = '''' then (False, s, clients)
          else let principalID = (if TrimSpace (cf_PrincipalId c) = '''' then clientId else TrimSpace (cf_PrincipalId c));
                   role = (if TrimSpace (cf_Role c) = '''' then inferGuardianPrincipalRole principalID else TrimSpace (cf_Role c));
                   displayName = (if TrimSpace (cf_DisplayName c) = '''' then principalID else TrimSpace (cf_DisplayName c));
                   clients = (if HasPrefix clientId ''guardian-''
                     then gm_set clientId \<lparr>cs_principalID = principalID, cs_role = role, cs_displayName = displayName,
                       cs_baseURL = cf_BaseUrl c, cs_authToken = cf_AuthToken c\<rparr> clients
                     else clients)
            in (True, snd (upsertConnectedClient s now save_err principalID (cf_AuthToken c) role displayName (cf_BaseUrl c)), clients))"


subsection \<open>The store as a map\<close>

text \<open>The principals by identifier.\<close>

definition principals_abs :: "guardianPrincipalStore \<Rightarrow> string \<Rightarrow> guardianPrincipal option" where
  "principals_abs s i = (case ps_principals s i of None \<Rightarrow> None | Some a \<Rightarrow> ps_heap s a)"

definition ps_ok :: "guardianPrincipalStore \<Rightarrow> bool" where
  "ps_ok s \<longleftrightarrow>
     (\<forall>i a. ps_principals s i = Some a \<longrightarrow> a < ps_next s \<and>
        (\<exists>p. ps_heap s a = Some p \<and> pr_PrincipalID p = i \<and> (pr_TokenHash p \<noteq> '''' \<longrightarrow> a \<in> set (ps_list s (pr_TokenHash p))))) \<and>
     (\<forall>h a. a \<in> set (ps_list s h) \<longrightarrow> h \<noteq> '''' \<and>
        (\<exists>p. ps_heap s a = Some p \<and> pr_TokenHash p = h \<and> ps_principals s (pr_PrincipalID p) = Some a))"

lemma ps_ok_new [inv_intro]: "ps_ok newGuardianPrincipalStore"
  by (simp add: ps_ok_def newGuardianPrincipalStore_def ps_list_def)

lemma ps_okD:
  assumes "ps_ok s" "ps_principals s i = Some a"
  obtains p where "a < ps_next s" "ps_heap s a = Some p" "pr_PrincipalID p = i"
    "pr_TokenHash p \<noteq> '''' \<Longrightarrow> a \<in> set (ps_list s (pr_TokenHash p))"
  using assms unfolding ps_ok_def by blast

lemma ps_okD2:
  assumes "ps_ok s" "a \<in> set (ps_list s h)"
  obtains p where "ps_heap s a = Some p" "pr_TokenHash p = h" "ps_principals s (pr_PrincipalID p) = Some a" "a < ps_next s" "h \<noteq> ''''"
  using assms unfolding ps_ok_def by blast

lemma set_put_entry:
  assumes "\<And>b. b \<in> set l \<Longrightarrow> has_id s i b \<Longrightarrow> b = a"
  shows "set (put_entry s i a l) = insert a (set l)"
  using assms by (induction l) auto

text \<open>The lists after a principal was written and indexed.\<close>

lemma index_lists:
  assumes a: "ps_heap t a = Some p" "pr_PrincipalID p \<noteq> ''''" "pr_TokenHash p \<noteq> ''''"
    and same: "\<And>h b. b \<in> set (ps_list t h) \<Longrightarrow> ps_heap t b \<noteq> None \<and> (has_id t (pr_PrincipalID p) b \<longleftrightarrow> b = a)"
  shows "set (ps_list (indexPrincipalLocked t (Some a) old) h) =
    (if h = pr_TokenHash p then insert a (set (ps_list t h))
     else if h = old \<and> old \<noteq> '''' then set (ps_list t h) - {a} else set (ps_list t h))"
    and "ps_heap (indexPrincipalLocked t (Some a) old) = ps_heap t" "ps_next (indexPrincipalLocked t (Some a) old) = ps_next t"
    "ps_principals (indexPrincipalLocked t (Some a) old) = ps_principals t"
proof -
  let ?t = "drop_old t p old"
  have flt: "filter (\<lambda>b. ps_heap t b \<noteq> None \<and> \<not> has_id t (pr_PrincipalID p) b) (ps_list t old) = filter (\<lambda>b. b \<noteq> a) (ps_list t old)"
    using same by (intro filter_cong) auto
  have L: "set (ps_list ?t h) = (if h = old \<and> old \<noteq> '''' \<and> old \<noteq> pr_TokenHash p then set (ps_list t h) - {a} else set (ps_list t h))" for h
    unfolding drop_old_def flt Let_def by (auto simp: ps_list_def filter_empty_conv)
  have fields: "ps_heap ?t = ps_heap t" "ps_next ?t = ps_next t" "ps_principals ?t = ps_principals t" "has_id ?t = has_id t"
    by (auto simp: drop_old_def Let_def has_id_def fun_eq_iff)
  have "set (put_entry ?t (pr_PrincipalID p) a (ps_list ?t (pr_TokenHash p))) = insert a (set (ps_list ?t (pr_TokenHash p)))"
  proof (rule set_put_entry)
    fix b assume "b \<in> set (ps_list ?t (pr_TokenHash p))" "has_id ?t (pr_PrincipalID p) b"
    then show "b = a" using same [of b "pr_TokenHash p"] L fields(4) by (auto split: if_splits)
  qed
  moreover have "ps_list (indexPrincipalLocked t (Some a) old) h =
      (if h = pr_TokenHash p then put_entry ?t (pr_PrincipalID p) a (ps_list ?t (pr_TokenHash p)) else ps_list ?t h)"
    using a by (simp add: indexPrincipalLocked_def Let_def ps_list_def)
  ultimately show "set (ps_list (indexPrincipalLocked t (Some a) old) h) =
    (if h = pr_TokenHash p then insert a (set (ps_list t h))
     else if h = old \<and> old \<noteq> '''' then set (ps_list t h) - {a} else set (ps_list t h))"
    by (simp add: L)
  show "ps_heap (indexPrincipalLocked t (Some a) old) = ps_heap t" "ps_next (indexPrincipalLocked t (Some a) old) = ps_next t"
    "ps_principals (indexPrincipalLocked t (Some a) old) = ps_principals t"
    using a fields by (simp_all add: indexPrincipalLocked_def Let_def)
qed

lemma guardianTokenHash_not_empty [simp]: "guardianTokenHash token \<noteq> []"
  by (metis guardianTokenHash_def length_0_conv length_hex_encode length_sha256 mult_eq_0_iff numeral_neq_zero)


lemma updated_simps [simp]:
  "pr_PrincipalID (updated p h role dn url now) = pr_PrincipalID p" "pr_TokenHash (updated p h role dn url now) = h"
  "\<not> pr_Disabled (updated p h role dn url now)"
  by (simp_all add: updated_def)

lemma updated_same: "up_to_date p h role dn url \<Longrightarrow> updated p h role dn url now = p"
  by (simp add: up_to_date_def updated_def)

text \<open>Writing a principal through its pointer and indexing it keeps the invariant.\<close>

lemma write_index:
  assumes ok: "ps_ok s" and e: "entry_of s i now = (a, q, old)" and p: "pr_PrincipalID p = i" "pr_TokenHash p \<noteq> ''''" "i \<noteq> ''''"
    and t: "t = s\<lparr>ps_heap := (ps_heap s)(a \<mapsto> p), ps_next := max (ps_next s) (a + 1), ps_principals := (ps_principals s)(i \<mapsto> a)\<rparr>"
  shows "ps_ok (indexPrincipalLocked t (Some a) old)"
    "principals_abs (indexPrincipalLocked t (Some a) old) = (principals_abs s)(i \<mapsto> p)"
proof -
  let ?u = "indexPrincipalLocked t (Some a) old"
  have lists: "ps_list t = ps_list s" by (simp add: t ps_list_def fun_eq_iff)
  have a: "ps_principals s i = Some a \<or> ps_principals s i = None \<and> a = ps_next s"
    using e by (cases "ps_principals s i") (auto simp: entry_of_def)
  have other: "c = a \<longleftrightarrow> j = i" if j: "ps_principals s j = Some c" for j c
  proof
    assume c: "c = a"
    obtain r where r: "c < ps_next s" "ps_heap s c = Some r" "pr_PrincipalID r = j" by (rule ps_okD [OF ok j]) blast
    with a c have i: "ps_principals s i = Some a" by auto
    obtain r' where "ps_heap s a = Some r'" "pr_PrincipalID r' = i" by (rule ps_okD [OF ok i]) blast
    with r c show "j = i" by simp
  qed (use j a in auto)
  have same: "ps_heap t b \<noteq> None \<and> (has_id t (pr_PrincipalID p) b \<longleftrightarrow> b = a)" if b: "b \<in> set (ps_list t h)" for h b
  proof -
    obtain r where "ps_heap s b = Some r" "ps_principals s (pr_PrincipalID r) = Some b"
      by (rule ps_okD2 [OF ok b [unfolded lists]]) blast
    then show ?thesis using other p by (auto simp: has_id_def t)
  qed
  have ha: "ps_heap t a = Some p" by (simp add: t)
  note I = index_lists [OF ha _ _ same, unfolded p(1), OF p(3,2)]
  have old: "h = old \<and> old \<noteq> ''''" if h: "a \<in> set (ps_list s h)" for h
  proof -
    obtain r where r: "ps_heap s a = Some r" "pr_TokenHash r = h" "ps_principals s (pr_PrincipalID r) = Some a" "h \<noteq> ''''"
      by (rule ps_okD2 [OF ok h]) blast
    then have "ps_principals s i = Some a" using other by auto
    then show ?thesis using e r by (simp add: entry_of_def)
  qed
  have L: "set (ps_list ?u h) = (if h = pr_TokenHash p then insert a (set (ps_list s h) - {a}) else set (ps_list s h) - {a})" for h
    using I(1) [where old = old and h = h] old [of h] by (auto simp: lists)
  have F: "ps_heap ?u = (ps_heap s)(a \<mapsto> p)" "ps_principals ?u = (ps_principals s)(i \<mapsto> a)" "ps_next ?u = max (ps_next s) (a + 1)"
    using I(2-4) by (simp_all add: t)
  have "c < ps_next ?u \<and> (\<exists>p. ps_heap ?u c = Some p \<and> pr_PrincipalID p = j \<and> (pr_TokenHash p \<noteq> '''' \<longrightarrow> c \<in> set (ps_list ?u (pr_TokenHash p))))"
    if "ps_principals ?u j = Some c" for j c
  proof (cases "j = i")
    case True
    then have "c = a" using that by (simp add: F)
    then show ?thesis using True p by (simp add: F L)
  next
    case False
    then have j: "ps_principals s j = Some c" using that by (simp add: F)
    then have c: "c \<noteq> a" using other False by blast
    obtain r where "c < ps_next s" "ps_heap s c = Some r" "pr_PrincipalID r = j"
        "pr_TokenHash r \<noteq> '''' \<Longrightarrow> c \<in> set (ps_list s (pr_TokenHash r))"
      by (rule ps_okD [OF ok j]) blast
    then show ?thesis using c by (auto simp: F L)
  qed
  moreover have "h \<noteq> '''' \<and> (\<exists>p. ps_heap ?u c = Some p \<and> pr_TokenHash p = h \<and> ps_principals ?u (pr_PrincipalID p) = Some c)"
    if c: "c \<in> set (ps_list ?u h)" for h c
  proof (cases "c = a")
    case True
    then show ?thesis using c p by (auto simp: F L split: if_splits)
  next
    case False
    then have "c \<in> set (ps_list s h)" using c by (auto simp: L split: if_splits)
    then obtain r where "ps_heap s c = Some r" "pr_TokenHash r = h" "ps_principals s (pr_PrincipalID r) = Some c" "h \<noteq> ''''"
      by (rule ps_okD2 [OF ok]) blast
    then show ?thesis using False other by (auto simp: F)
  qed
  ultimately show "ps_ok ?u" unfolding ps_ok_def by blast
  show "principals_abs ?u = (principals_abs s)(i \<mapsto> p)"
    using other by (auto simp: principals_abs_def F fun_eq_iff split: option.split)
qed

text \<open>The abstract effect of a registration.\<close>

record client_upsert =
  cu_now :: int
  cu_save_err :: "string option"
  cu_principalID :: string
  cu_token :: string
  cu_role :: string
  cu_displayName :: string
  cu_baseURL :: string

definition run_upsert :: "client_upsert \<Rightarrow> guardianPrincipalStore \<Rightarrow> guardianPrincipalStore" where
  "run_upsert c s = snd (upsertConnectedClient s (cu_now c) (cu_save_err c) (cu_principalID c) (cu_token c) (cu_role c)
     (cu_displayName c) (cu_baseURL c))"

definition spec_upsert :: "client_upsert \<Rightarrow> (string \<Rightarrow> guardianPrincipal option) \<Rightarrow> string \<Rightarrow> guardianPrincipal option" where
  "spec_upsert c m =
     (let i = cu_principalID c in
      if TrimSpace i = '''' \<or> TrimSpace (cu_token c) = '''' then m
      else m(i \<mapsto> updated (case m i of None \<Rightarrow> fresh_principal i (cu_now c) | Some p \<Rightarrow> p) (guardianTokenHash (cu_token c))
        (if TrimSpace (cu_role c) = '''' then inferGuardianPrincipalRole i else cu_role c)
        (if TrimSpace (cu_displayName c) = '''' then i else cu_displayName c) (cu_baseURL c) (cu_now c)))"

lemma entry_abs:
  assumes "ps_ok s" "entry_of s i now = (a, q, old)"
  shows "q = (case principals_abs s i of None \<Rightarrow> fresh_principal i now | Some p \<Rightarrow> p)" "pr_PrincipalID q = i"
    "ps_principals s i \<noteq> None \<Longrightarrow> principals_abs s i = Some q"
proof -
  have "q = (case principals_abs s i of None \<Rightarrow> fresh_principal i now | Some p \<Rightarrow> p) \<and> pr_PrincipalID q = i \<and>
    (ps_principals s i \<noteq> None \<longrightarrow> principals_abs s i = Some q)"
  proof (cases "ps_principals s i")
    case None
    then show ?thesis using assms(2) by (auto simp: entry_of_def principals_abs_def fresh_principal_def)
  next
    case (Some b)
    then obtain r where "ps_heap s b = Some r" "pr_PrincipalID r = i" by (rule ps_okD [OF assms(1)]) blast
    then show ?thesis using Some assms(2) by (auto simp: entry_of_def principals_abs_def)
  qed
  then show "q = (case principals_abs s i of None \<Rightarrow> fresh_principal i now | Some p \<Rightarrow> p)" "pr_PrincipalID q = i"
    "ps_principals s i \<noteq> None \<Longrightarrow> principals_abs s i = Some q" by blast+
qed

lemma run_upsert_refines [inv_intro]:
  assumes "ps_ok s" shows "ps_ok (run_upsert c s)" "principals_abs (run_upsert c s) = spec_upsert c (principals_abs s)"
proof -
  let ?i = "cu_principalID c"
  obtain a q old where e: "entry_of s ?i (cu_now c) = (a, q, old)" by (cases "entry_of s ?i (cu_now c)")
  note q = entry_abs [OF assms e]
  let ?h = "guardianTokenHash (cu_token c)" and ?role = "if TrimSpace (cu_role c) = '''' then inferGuardianPrincipalRole ?i else cu_role c"
    and ?dn = "if TrimSpace (cu_displayName c) = '''' then ?i else cu_displayName c"
  let ?p = "updated q ?h ?role ?dn (cu_baseURL c) (cu_now c)"
  have "ps_ok (run_upsert c s) \<and> principals_abs (run_upsert c s) = spec_upsert c (principals_abs s)"
  proof (cases "TrimSpace ?i = '''' \<or> TrimSpace (cu_token c) = ''''")
    case True
    then show ?thesis using assms by (auto simp: run_upsert_def upsertConnectedClient_def spec_upsert_def Let_def)
  next
    case blank: False
    have spec: "spec_upsert c (principals_abs s) = (principals_abs s)(?i \<mapsto> ?p)"
      using blank q(1) by (simp add: spec_upsert_def Let_def)
    have i: "?i \<noteq> ''''" using blank by auto
    show ?thesis
    proof (cases "ps_principals s ?i \<noteq> None \<and> up_to_date q ?h ?role ?dn (cu_baseURL c)")
      case True
      then have "run_upsert c s = s" using blank e by (simp add: run_upsert_def upsertConnectedClient_def Let_def)
      moreover have "?p = q" using True by (simp add: updated_same)
      ultimately show ?thesis using assms q(3) True spec by (auto simp: fun_eq_iff)
    next
      case False
      let ?t = "s\<lparr>ps_heap := (ps_heap s)(a \<mapsto> ?p), ps_next := max (ps_next s) (a + 1), ps_principals := (ps_principals s)(?i \<mapsto> a)\<rparr>"
      have "run_upsert c s = indexPrincipalLocked ?t (Some a) old"
        unfolding run_upsert_def upsertConnectedClient_def Let_def e prod.case if_not_P [OF blank] if_not_P [OF False]
        by (simp split: option.split)
      then show ?thesis
        using write_index [OF assms e _ _ i refl, of ?p] q(2) spec by simp
    qed
  qed
  then show "ps_ok (run_upsert c s)" "principals_abs (run_upsert c s) = spec_upsert c (principals_abs s)" by blast+
qed

lemma first_valid_Some:
  assumes "first_valid s h as = Some p" shows "\<exists>a \<in> set as. ps_heap s a = Some p \<and> \<not> pr_Disabled p \<and> pr_TokenHash p = h"
  using assms by (induction as) (auto split: option.splits if_splits)

lemma first_valid_None:
  assumes "first_valid s h as = None" "a \<in> set as" "ps_heap s a = Some p" shows "pr_Disabled p \<or> pr_TokenHash p \<noteq> h"
  using assms by (induction as) (auto split: option.splits if_splits)


lemma validateToken_abs:
  assumes "ps_ok s"
  shows "validateToken s tok = Some p \<Longrightarrow>
      TrimSpace tok \<noteq> '''' \<and> principals_abs s (pr_PrincipalID p) = Some p \<and> \<not> pr_Disabled p \<and> pr_TokenHash p = guardianTokenHash tok"
    and "validateToken s tok = None \<Longrightarrow> TrimSpace tok \<noteq> '''' \<Longrightarrow> principals_abs s i = Some p \<Longrightarrow>
      pr_Disabled p \<or> pr_TokenHash p \<noteq> guardianTokenHash tok"
proof -
  assume "validateToken s tok = Some p"
  then obtain a where a: "a \<in> set (ps_list s (guardianTokenHash tok))" "ps_heap s a = Some p" "\<not> pr_Disabled p"
      "pr_TokenHash p = guardianTokenHash tok" "TrimSpace tok \<noteq> ''''"
    using first_valid_Some [of s "guardianTokenHash tok"] by (auto simp: validateToken_def Let_def split: if_splits)
  obtain r where "ps_heap s a = Some r" "ps_principals s (pr_PrincipalID r) = Some a"
    by (rule ps_okD2 [OF assms a(1)]) blast
  with a show "TrimSpace tok \<noteq> '''' \<and> principals_abs s (pr_PrincipalID p) = Some p \<and> \<not> pr_Disabled p \<and> pr_TokenHash p = guardianTokenHash tok"
    by (simp add: principals_abs_def)
next
  assume v: "validateToken s tok = None" "TrimSpace tok \<noteq> ''''" "principals_abs s i = Some p"
  then obtain a where a: "ps_principals s i = Some a" "ps_heap s a = Some p" by (auto simp: principals_abs_def split: option.splits)
  obtain r where r: "ps_heap s a = Some r" "pr_TokenHash r \<noteq> '''' \<Longrightarrow> a \<in> set (ps_list s (pr_TokenHash r))"
    by (rule ps_okD [OF assms a(1)]) blast
  show "pr_Disabled p \<or> pr_TokenHash p \<noteq> guardianTokenHash tok"
  proof (cases "pr_TokenHash p = guardianTokenHash tok")
    case True
    then have "a \<in> set (ps_list s (guardianTokenHash tok))" using r a by simp
    then show ?thesis using first_valid_None [of s "guardianTokenHash tok" _ a p] v a(2) by (auto simp: validateToken_def Let_def)
  qed simp
qed

lemma validateTokenForPrincipal_abs:
  "validateTokenForPrincipal s tok i =
     (if TrimSpace tok = '''' \<or> TrimSpace i = '''' then None
      else case principals_abs s i of
        None \<Rightarrow> None | Some p \<Rightarrow> if pr_Disabled p \<or> pr_TokenHash p \<noteq> guardianTokenHash tok then None else Some p)"
  by (simp add: validateTokenForPrincipal_def principals_abs_def split: option.split)


text \<open>An authenticated principal holds the token, and it is the one the request names or the control
  plane.\<close>

lemma authenticateGuardianMutation_holds:
  assumes "ps_ok s" "authenticateGuardianMutation s clients tok requested = Some p"
  shows "(principals_abs s (pr_PrincipalID p) = Some p \<and> \<not> pr_Disabled p \<and> pr_TokenHash p = guardianTokenHash tok \<or>
      (\<exists>c \<in> set clients. cs_authToken (snd c) = tok \<and> p = client_principal c)) \<and>
    (requested = Some q \<longrightarrow> TrimSpace q \<noteq> '''' \<longrightarrow>
      pr_PrincipalID p = TrimSpace q \<or> principals_abs s GuardianControlPlanePrincipalID = Some p)"
proof -
  have V: "principals_abs s j = Some r \<and> pr_PrincipalID r = j \<and> \<not> pr_Disabled r \<and> pr_TokenHash r = guardianTokenHash tok"
    if "validateTokenForPrincipal s tok j = Some r" for j r
  proof -
    have r: "principals_abs s j = Some r" "\<not> pr_Disabled r" "pr_TokenHash r = guardianTokenHash tok"
      using that by (auto simp: validateTokenForPrincipal_abs split: if_splits option.splits)
    then obtain a where "ps_principals s j = Some a" "ps_heap s a = Some r" by (auto simp: principals_abs_def split: option.splits)
    then show ?thesis using r ps_okD [OF assms(1), of j a] by auto
  qed
  have C: "c \<in> set clients \<and> P c" if f: "first_opt (filter P clients) = Some c" for P c
  proof -
    obtain cs where "filter P clients = c # cs" using f by (auto simp: first_opt_def split: list.splits)
    from arg_cong [OF this, of set] show ?thesis by auto
  qed
  show ?thesis
  proof (cases "case requested of None \<Rightarrow> True | Some q \<Rightarrow> TrimSpace q = []")
    case True
    then have a: "authenticateGuardianToken s clients tok = Some p" using assms(2) by (simp add: authenticateGuardianMutation_def)
    have "\<not> (requested = Some q \<and> TrimSpace q \<noteq> [])" using True by auto
    moreover consider (control) "validateTokenForPrincipal s tok GuardianControlPlanePrincipalID = Some p" |
        (token) "validateToken s tok = Some p" |
        (client) c where "first_opt (filter (\<lambda>(_, st). cs_authToken st = tok) clients) = Some c" "p = client_principal c"
      using a by (auto simp: authenticateGuardianToken_def split: option.splits)
    then have "principals_abs s (pr_PrincipalID p) = Some p \<and> \<not> pr_Disabled p \<and> pr_TokenHash p = guardianTokenHash tok \<or>
      (\<exists>c \<in> set clients. cs_authToken (snd c) = tok \<and> p = client_principal c)"
    proof cases
      case control
      from V [OF this] show ?thesis by simp
    next
      case token
      from validateToken_abs(1) [OF assms(1) this] show ?thesis by simp
    next
      case client
      then show ?thesis using C [OF client(1)] by (intro disjI2 bexI [of _ c]) auto
    qed
    ultimately show ?thesis by blast
  next
    case False
    then obtain r where r: "requested = Some r" "TrimSpace r \<noteq> []" by (cases requested) auto
    have a: "(case validateTokenForPrincipal s tok (TrimSpace r) of
          Some p \<Rightarrow> Some p
        | None \<Rightarrow> (case first_opt (filter (\<lambda>(i, st). cs_authToken st = tok \<and> client_principal_id i st = TrimSpace r) clients) of
               Some c \<Rightarrow> Some (client_principal c)
             | None \<Rightarrow> validateTokenForPrincipal s tok GuardianControlPlanePrincipalID)) = Some p"
      using assms(2) r by (simp add: authenticateGuardianMutation_def Let_def)
    consider (named) "validateTokenForPrincipal s tok (TrimSpace r) = Some p" |
        (client) c where "first_opt (filter (\<lambda>(i, st). cs_authToken st = tok \<and> client_principal_id i st = TrimSpace r) clients) = Some c"
          "p = client_principal c" |
        (control) "validateTokenForPrincipal s tok GuardianControlPlanePrincipalID = Some p"
    proof (cases "validateTokenForPrincipal s tok (TrimSpace r)")
      case None
      with a show ?thesis using client control
        by (cases "first_opt (filter (\<lambda>(i, st). cs_authToken st = tok \<and> client_principal_id i st = TrimSpace r) clients)") simp_all
    qed (use a named in simp)
    then show ?thesis
    proof cases
      case named
      from V [OF this] show ?thesis using r by simp
    next
      case client
      obtain i st where c: "c = (i, st)" by (cases c)
      have "pr_PrincipalID p = TrimSpace r" "c \<in> set clients" "cs_authToken (snd c) = tok"
        using C [OF client(1)] client(2) by (auto simp: c client_principal_def Let_def)
      then show ?thesis using r client(2) by blast
    next
      case control
      from V [OF this] show ?thesis by simp
    qed
  qed
qed

end
