(* ===== verification/GuardianStore.thy ===== *)
theory GuardianStore
  imports GoNum GoHash GoStrings
begin

section \<open>The Guardian version store\<close>

text \<open>
  \<^verbatim>\<open>internal/router/guardian_version_store.go\<close>: versions of Guardian files. Asset paths keep
  up to 50 versions and a current version ID; machinery paths (queues, claims, state) keep
  their current version in memory only. The three maps are ranged over, hence association
  lists; the values of \<open>records\<close> may hold nil pointers after loading a snapshot, hence
  options. \<open>seq\<close> is a 64-bit counter. Writing the snapshot file is not modelled; loading
  takes the decoded snapshot.
\<close>

subsection \<open>Data\<close>

record storedGuardianFileVersion =
  sv_LogicalPath :: string
  sv_DisplayPath :: string
  sv_StorageID :: string
  sv_VersionID :: string
  sv_BatchRevisionID :: string
  sv_ContentSHA256 :: string
  sv_CommittedAt :: int
  sv_Tombstone :: bool
  sv_PrincipalID :: string
  sv_Reason :: string
  sv_CorrelationID :: string
  sv_Content :: bytes

record guardianVersionCommit =
  gc_LogicalPath :: string
  gc_DisplayPath :: string
  gc_StorageID :: string
  gc_BatchRevisionID :: string
  gc_PrincipalID :: string
  gc_Reason :: string
  gc_CorrelationID :: string
  gc_Content :: bytes
  gc_Tombstone :: bool
  gc_CommittedAt :: int

record guardianVersionStore =
  vs_records :: "(string, storedGuardianFileVersion option list) gomap"
  vs_current :: "(string, string) gomap"
  vs_ephemeral :: "(string, storedGuardianFileVersion) gomap"
  vs_seq :: u64
  vs_dirty :: bool

text \<open>\<open>pb.GuardianFileVersion\<close>, what \<open>toProto\<close> keeps of a version.\<close>

record GuardianFileVersion =
  gv_LogicalPath :: string
  gv_DisplayPath :: string
  gv_StorageId :: string
  gv_VersionId :: string
  gv_BatchRevisionId :: string
  gv_ContentSha256 :: string
  gv_CommittedAt :: int
  gv_Tombstone :: bool
  gv_PrincipalId :: string
  gv_Reason :: string

definition toProto :: "storedGuardianFileVersion \<Rightarrow> GuardianFileVersion" where
  "toProto v = \<lparr>gv_LogicalPath = sv_LogicalPath v, gv_DisplayPath = sv_DisplayPath v,
     gv_StorageId = sv_StorageID v, gv_VersionId = sv_VersionID v,
     gv_BatchRevisionId = sv_BatchRevisionID v, gv_ContentSha256 = sv_ContentSHA256 v,
     gv_CommittedAt = sv_CommittedAt v, gv_Tombstone = sv_Tombstone v,
     gv_PrincipalId = sv_PrincipalID v, gv_Reason = sv_Reason v\<rparr>"

definition newGuardianVersionStore :: guardianVersionStore where
  "newGuardianVersionStore =
     \<lparr>vs_records = [], vs_current = [], vs_ephemeral = [], vs_seq = 0, vs_dirty = False\<rparr>"

subsection \<open>Which paths are assets\<close>

definition isGuardianAssetPath :: "string \<Rightarrow> bool" where
  "isGuardianAssetPath logicalPath =
     (if HasPrefix logicalPath ''/.queues/'' \<or> HasPrefix logicalPath ''/.archive/'' then False
      else list_all (\<lambda>seg. \<not> (seg \<noteq> [] \<and> hd seg = CHR ''.'')) (Split logicalPath CHR ''/''))"

text \<open>A Go map access that misses gives the zero value.\<close>

definition recs :: "guardianVersionStore \<Rightarrow> string \<Rightarrow> storedGuardianFileVersion option list" where
  "recs s p = (case gm_get (vs_records s) p of None \<Rightarrow> [] | Some rs \<Rightarrow> rs)"

subsection \<open>Loading\<close>

fun prune_paths :: "string list \<Rightarrow> guardianVersionStore \<Rightarrow> guardianVersionStore" where
  "prune_paths [] s = s"
| "prune_paths (p # ps) s =
     (if \<not> isGuardianAssetPath p
      then prune_paths ps (s\<lparr>vs_records := gm_del p (vs_records s), vs_current := gm_del p (vs_current s),
             vs_dirty := True\<rparr>)
      else prune_paths ps s)"

definition pruneMachineryLocked :: "guardianVersionStore \<Rightarrow> guardianVersionStore" where
  "pruneMachineryLocked s = prune_paths (map fst (vs_records s)) s"

text \<open>The two maps of a decoded snapshot may be absent.\<close>

definition load_snapshot ::
  "(string, storedGuardianFileVersion option list) gomap option \<Rightarrow> (string, string) gomap option \<Rightarrow>
   guardianVersionStore \<Rightarrow> guardianVersionStore"
where
  "load_snapshot records current s =
     (let s = (case records of None \<Rightarrow> s | Some r \<Rightarrow> s\<lparr>vs_records := r\<rparr>);
          s = (case current of None \<Rightarrow> s | Some c \<Rightarrow> s\<lparr>vs_current := c\<rparr>)
      in pruneMachineryLocked s)"

subsection \<open>Reading\<close>

text \<open>The newest record with the given version ID: the loop runs from the end.\<close>

definition newest_with :: "string \<Rightarrow> storedGuardianFileVersion option list \<Rightarrow> storedGuardianFileVersion option" where
  "newest_with versionID rs =
     (case filter (\<lambda>r. case r of None \<Rightarrow> False | Some v \<Rightarrow> sv_VersionID v = versionID) (rev rs) of
        [] \<Rightarrow> None | r # _ \<Rightarrow> r)"

definition currentRecordLocked :: "guardianVersionStore \<Rightarrow> string \<Rightarrow> storedGuardianFileVersion option" where
  "currentRecordLocked s logicalPath =
     (case gm_get (vs_ephemeral s) logicalPath of
        Some rec \<Rightarrow> Some rec
      | None \<Rightarrow>
          (case gm_get (vs_current s) logicalPath of
             None \<Rightarrow> None
           | Some versionID \<Rightarrow> newest_with versionID (recs s logicalPath)))"

text \<open>\<open>currentVersion\<close> returns a copy of the record.\<close>

definition currentVersion :: "guardianVersionStore \<Rightarrow> string \<Rightarrow> storedGuardianFileVersion option" where
  "currentVersion s logicalPath =
     (case gm_get (vs_ephemeral s) logicalPath of
        Some rec \<Rightarrow> Some rec
      | None \<Rightarrow>
          (case gm_get (vs_current s) logicalPath of
             None \<Rightarrow> None
           | Some versionID \<Rightarrow> newest_with versionID (recs s logicalPath)))"

subsection \<open>Committing\<close>

definition guardianVersionID :: "string \<Rightarrow> string \<Rightarrow> string \<Rightarrow> int \<Rightarrow> u64 \<Rightarrow> bool \<Rightarrow> string" where
  "guardianVersionID logicalPath contentSHA batchRevisionID committedAt seq tombstone =
     (let sum = sha256 (bytes_of (logicalPath @ ''|'' @ contentSHA @ ''|'' @ batchRevisionID @ ''|'' @
            Itoa committedAt @ ''|'' @ Itoa (uint seq) @ ''|'' @ (if tombstone then ''true'' else ''false'')))
      in ''ver_'' @ Itoa committedAt @ ''_'' @ take 12 (hex_encode sum))"

definition maxVersionsPerPath :: nat where "maxVersionsPerPath = 50"

definition commit_record :: "u64 \<Rightarrow> guardianVersionCommit \<Rightarrow> storedGuardianFileVersion" where
  "commit_record seq change =
     (let contentSHA = (if length (gc_Content change) > 0 then hex_encode (sha256 (gc_Content change)) else '''')
      in \<lparr>sv_LogicalPath = gc_LogicalPath change, sv_DisplayPath = gc_DisplayPath change,
          sv_StorageID = gc_StorageID change,
          sv_VersionID = guardianVersionID (gc_LogicalPath change) contentSHA (gc_BatchRevisionID change)
            (gc_CommittedAt change) seq (gc_Tombstone change),
          sv_BatchRevisionID = gc_BatchRevisionID change, sv_ContentSHA256 = contentSHA,
          sv_CommittedAt = gc_CommittedAt change, sv_Tombstone = gc_Tombstone change,
          sv_PrincipalID = gc_PrincipalID change, sv_Reason = gc_Reason change,
          sv_CorrelationID = gc_CorrelationID change, sv_Content = gc_Content change\<rparr>)"

definition commit :: "guardianVersionStore \<Rightarrow> guardianVersionCommit \<Rightarrow> GuardianFileVersion \<times> guardianVersionStore" where
  "commit s change =
     (let s = s\<lparr>vs_seq := vs_seq s + 1\<rparr>;
          record = commit_record (vs_seq s) change;
          p = gc_LogicalPath change
      in if \<not> isGuardianAssetPath p then
           (if gc_Tombstone change then (toProto record, s\<lparr>vs_ephemeral := gm_del p (vs_ephemeral s)\<rparr>)
            else (toProto record, s\<lparr>vs_ephemeral := gm_set p record (vs_ephemeral s)\<rparr>))
         else
           (let rs = recs s p @ [Some record];
                rs = (if length rs > maxVersionsPerPath then drop (length rs - maxVersionsPerPath) rs else rs)
            in (toProto record,
                s\<lparr>vs_records := gm_set p rs (vs_records s),
                  vs_current := gm_set p (sv_VersionID record) (vs_current s), vs_dirty := True\<rparr>)))"

subsection \<open>Listing\<close>

definition newest_first :: "storedGuardianFileVersion option list \<Rightarrow> GuardianFileVersion list" where
  "newest_first source = map toProto (List.map_filter (\<lambda>r. r) (rev source))"

text \<open>\<open>None\<close> is the invalid page token; \<open>pageSize\<close> is an \<open>int32\<close>.\<close>

definition list_versions ::
  "guardianVersionStore \<Rightarrow> string \<Rightarrow> int \<Rightarrow> string \<Rightarrow> (GuardianFileVersion list \<times> string) option"
where
  "list_versions s logicalPath pageSize pageToken =
     (let pageSize = (if pageSize \<le> 0 then 50 else pageSize);
          offset = (if TrimSpace pageToken \<noteq> '''' then
             (case Atoi pageToken of None \<Rightarrow> None | Some value \<Rightarrow> if value < 0 then None else Some value)
             else Some 0)
      in case offset of
           None \<Rightarrow> None
         | Some offset \<Rightarrow>
             (case gm_get (vs_ephemeral s) logicalPath of
                Some record \<Rightarrow> if offset > 0 then Some ([], '''') else Some ([toProto record], '''')
              | None \<Rightarrow>
                  (let source = recs s logicalPath in
                   if offset \<ge> int (length source) then Some ([], '''')
                   else let newestFirst = newest_first source in
                     if offset \<ge> int (length newestFirst) then Some ([], '''')
                     else let fin = min (offset + pageSize) (int (length newestFirst));
                              nxt = (if fin < int (length newestFirst) then Itoa fin else '''')
                       in Some (take (nat (fin - offset)) (drop (nat offset) newestFirst), nxt))))"

fun add_current ::
  "guardianVersionStore \<Rightarrow> string \<Rightarrow> string list \<Rightarrow> string set \<times> GuardianFileVersion list \<Rightarrow>
   string set \<times> GuardianFileVersion list"
where
  "add_current s pre [] acc = acc"
| "add_current s pre (p # ps) (seen, result) =
     (if \<not> HasPrefix p pre \<or> p \<in> seen then add_current s pre ps (seen, result)
      else case currentRecordLocked s p of
        None \<Rightarrow> add_current s pre ps (seen, result)
      | Some record \<Rightarrow>
          if sv_Tombstone record then add_current s pre ps (seen, result)
          else add_current s pre ps (insert p seen, result @ [toProto record]))"

definition listCurrentUnderPrefix :: "guardianVersionStore \<Rightarrow> string \<Rightarrow> int \<Rightarrow> GuardianFileVersion list" where
  "listCurrentUnderPrefix s pre limit =
     (let pre = (if pre \<noteq> '''' \<and> \<not> HasSuffix pre ''/'' then pre @ ''/'' else pre);
          limit = (if limit \<le> 0 then 1000 else limit);
          (_, result) = add_current s pre (map fst (vs_current s) @ map fst (vs_ephemeral s)) ({}, []);
          result = sort_slice (\<lambda>a b. gv_LogicalPath a < gv_LogicalPath b) result
      in if int (length result) > limit then take (nat limit) result else result)"

definition get_version ::
  "guardianVersionStore \<Rightarrow> string \<Rightarrow> string \<Rightarrow> (GuardianFileVersion \<times> bytes) option"
where
  "get_version s logicalPath versionID =
     (let from_records =
        (case filter (\<lambda>r. case r of None \<Rightarrow> False | Some v \<Rightarrow> sv_VersionID v = versionID) (recs s logicalPath) of
           Some record # _ \<Rightarrow> Some (toProto record, sv_Content record)
         | _ \<Rightarrow> None)
      in case gm_get (vs_ephemeral s) logicalPath of
           Some record \<Rightarrow>
             if sv_VersionID record = versionID then Some (toProto record, sv_Content record) else from_records
         | None \<Rightarrow> from_records)"

subsection \<open>The invariant\<close>

definition history_ok :: "string \<Rightarrow> string \<Rightarrow> storedGuardianFileVersion option list \<Rightarrow> bool" where
  "history_ok p versionID rs \<longleftrightarrow>
     length rs \<le> maxVersionsPerPath \<and> (\<forall>r \<in> set rs. \<exists>v. r = Some v \<and> sv_LogicalPath v = p) \<and>
     (\<exists>v. rs \<noteq> [] \<and> last rs = Some v \<and> sv_VersionID v = versionID)"

definition store_inv :: "guardianVersionStore \<Rightarrow> bool" where
  "store_inv s \<longleftrightarrow>
     gm_wf (vs_records s) \<and> gm_wf (vs_current s) \<and> gm_wf (vs_ephemeral s) \<and>
     (\<forall>p v. gm_get (vs_ephemeral s) p = Some v \<longrightarrow>
        \<not> isGuardianAssetPath p \<and> sv_LogicalPath v = p \<and> \<not> sv_Tombstone v) \<and>
     (\<forall>p i. gm_get (vs_current s) p = Some i \<longrightarrow> isGuardianAssetPath p \<and> history_ok p i (recs s p)) \<and>
     (\<forall>p. recs s p \<noteq> [] \<longrightarrow> gm_get (vs_current s) p \<noteq> None)"

lemma store_inv_new [inv_intro]: "store_inv newGuardianVersionStore"
  by (simp add: store_inv_def newGuardianVersionStore_def recs_def)

lemma recs_simps [simp]:
  "recs (s\<lparr>vs_seq := n\<rparr>) p = recs s p"
  "recs (s\<lparr>vs_ephemeral := e\<rparr>) p = recs s p"
  "recs (s\<lparr>vs_current := c\<rparr>) p = recs s p"
  "recs (s\<lparr>vs_dirty := d\<rparr>) p = recs s p"
  "recs (s\<lparr>vs_records := gm_set q rs (vs_records t)\<rparr>) p = (if p = q then rs else recs t p)"
  by (simp_all add: recs_def)

definition next_record :: "guardianVersionStore \<Rightarrow> guardianVersionCommit \<Rightarrow> storedGuardianFileVersion" where
  "next_record s change = commit_record (vs_seq s + 1) change"

lemma next_record_simps [simp]:
  "sv_LogicalPath (next_record s c) = gc_LogicalPath c"
  "sv_Tombstone (next_record s c) = gc_Tombstone c"
  "sv_Content (next_record s c) = gc_Content c"
  by (simp_all add: next_record_def commit_record_def Let_def)

lemma commit_version: "fst (commit s c) = toProto (next_record s c)"
  by (simp add: commit_def Let_def next_record_def)

text \<open>The history after a commit: its last 50 records.\<close>

definition pushed :: "'a list \<Rightarrow> 'a \<Rightarrow> 'a list" where
  "pushed rs r = (let rs = rs @ [r] in if length rs > maxVersionsPerPath
     then drop (length rs - maxVersionsPerPath) rs else rs)"

lemma pushed_last [simp]: "pushed rs r \<noteq> [] \<and> last (pushed rs r) = r"
  by (simp add: pushed_def maxVersionsPerPath_def Let_def last_drop)

lemma pushed_length: "length (pushed rs r) \<le> maxVersionsPerPath"
  by (simp add: pushed_def Let_def maxVersionsPerPath_def)

lemma pushed_set: "set (pushed rs r) \<subseteq> insert r (set rs)"
  by (auto simp: pushed_def Let_def simp del: drop_append dest: in_set_dropD)

lemma commit_store:
  "snd (commit s c) =
     (if \<not> isGuardianAssetPath (gc_LogicalPath c) then
        (if gc_Tombstone c then s\<lparr>vs_seq := vs_seq s + 1, vs_ephemeral := gm_del (gc_LogicalPath c) (vs_ephemeral s)\<rparr>
         else s\<lparr>vs_seq := vs_seq s + 1, vs_ephemeral := gm_set (gc_LogicalPath c) (next_record s c) (vs_ephemeral s)\<rparr>)
      else s\<lparr>vs_seq := vs_seq s + 1,
             vs_records := gm_set (gc_LogicalPath c) (pushed (recs s (gc_LogicalPath c)) (Some (next_record s c))) (vs_records s),
             vs_current := gm_set (gc_LogicalPath c) (sv_VersionID (next_record s c)) (vs_current s), vs_dirty := True\<rparr>)"
  by (simp add: commit_def Let_def next_record_def pushed_def)

lemma history_ok_pushed:
  assumes "rs = [] \<or> history_ok p i rs" "sv_LogicalPath v = p"
  shows "history_ok p (sv_VersionID v) (pushed rs (Some v))"
  using assms pushed_set [of rs "Some v"] pushed_length [of rs "Some v"] by (auto simp: history_ok_def)

lemma commit_inv [inv_intro]:
  assumes "store_inv s" shows "store_inv (snd (commit s c))"
proof (cases "isGuardianAssetPath (gc_LogicalPath c)")
  case False
  with assms show ?thesis by (auto simp: store_inv_def commit_store split: if_splits)
next
  case True
  let ?p = "gc_LogicalPath c"
  have "recs s ?p = [] \<or> (\<exists>i. history_ok ?p i (recs s ?p))"
    using assms unfolding store_inv_def by blast
  then have "history_ok ?p (sv_VersionID (next_record s c)) (pushed (recs s ?p) (Some (next_record s c)))"
    using history_ok_pushed [of "recs s ?p" ?p] by fastforce
  with assms True show ?thesis by (auto simp: store_inv_def commit_store)
qed

subsection \<open>The current version after a commit\<close>

lemma newest_with_last: "rs \<noteq> [] \<Longrightarrow> last rs = Some v \<Longrightarrow> sv_VersionID v = i \<Longrightarrow> newest_with i rs = Some v"
  by (cases rs rule: rev_cases) (auto simp: newest_with_def)

lemma currentRecordLocked_eq: "currentRecordLocked s p = currentVersion s p"
  by (simp add: currentRecordLocked_def currentVersion_def)

lemma currentVersion_commit:
  assumes "store_inv s"
  shows "currentVersion (snd (commit s c)) p =
    (if p \<noteq> gc_LogicalPath c then currentVersion s p
     else if gc_Tombstone c \<and> \<not> isGuardianAssetPath p then None
     else Some (next_record s c))"
proof -
  let ?q = "gc_LogicalPath c"
  have eph: "isGuardianAssetPath p \<Longrightarrow> gm_get (vs_ephemeral s) p = None" for p
    using assms unfolding store_inv_def by (metis option.exhaust)
  have cur: "\<not> isGuardianAssetPath p \<Longrightarrow> gm_get (vs_current s) p = None" for p
    using assms unfolding store_inv_def by (metis option.exhaust)
  show ?thesis
    using eph [of ?q] cur [of ?q] newest_with_last [of "pushed (recs s ?q) (Some (next_record s c))" "next_record s c"]
    by (cases "p = ?q"; cases "gm_get (vs_ephemeral s) p"; cases "gm_get (vs_current s) p")
      (auto simp: currentVersion_def commit_store)
qed

text \<open>What a client of the store sees: the live files with their content and version.\<close>

definition live :: "guardianVersionStore \<Rightarrow> string \<Rightarrow> storedGuardianFileVersion option" where
  "live s p = (case currentVersion s p of None \<Rightarrow> None | Some v \<Rightarrow> if sv_Tombstone v then None else Some v)"

lemma live_commit:
  assumes "store_inv s"
  shows "live (snd (commit s c)) =
    (live s)(gc_LogicalPath c := if gc_Tombstone c then None else Some (next_record s c))"
  by (rule ext) (simp add: live_def currentVersion_commit [OF assms])

lemma currentVersion_path:
  assumes "store_inv s" "currentVersion s p = Some v" shows "sv_LogicalPath v = p"
proof (cases "gm_get (vs_ephemeral s) p")
  case None
  then obtain i where i: "gm_get (vs_current s) p = Some i" "newest_with i (recs s p) = Some v"
    using assms(2) by (auto simp: currentVersion_def split: option.splits)
  with assms(1) have "history_ok p i (recs s p)" unfolding store_inv_def by blast
  then obtain w where "recs s p \<noteq> []" "last (recs s p) = Some w" "sv_VersionID w = i"
    and all: "\<forall>r \<in> set (recs s p). \<exists>v. r = Some v \<and> sv_LogicalPath v = p"
    unfolding history_ok_def by blast
  then have "w = v" using newest_with_last i(2) by fastforce
  with all \<open>recs s p \<noteq> []\<close> \<open>last (recs s p) = Some w\<close> show ?thesis by (metis last_in_set option.inject)
next
  case (Some w)
  then show ?thesis using assms unfolding store_inv_def currentVersion_def by simp
qed

subsection \<open>Listing the live paths\<close>

lemma live_keys:
  "live s p \<noteq> None \<Longrightarrow> p \<in> set (map fst (vs_current s) @ map fst (vs_ephemeral s))"
  by (auto simp: live_def currentVersion_def weak_map_of_SomeI split: option.splits
      dest!: map_of_SomeD intro: rev_image_eqI)

lemma store_keys_distinct:
  assumes "store_inv s" shows "distinct (map fst (vs_current s) @ map fst (vs_ephemeral s))"
proof -
  have "isGuardianAssetPath p" if "p \<in> fst ` set (vs_current s)" for p
    using that assms unfolding store_inv_def by (metis domIff dom_map_of_conv_image_fst option.exhaust)
  moreover have "\<not> isGuardianAssetPath p" if "p \<in> fst ` set (vs_ephemeral s)" for p
    using that assms unfolding store_inv_def by (metis domIff dom_map_of_conv_image_fst option.exhaust)
  ultimately show ?thesis using assms unfolding store_inv_def by auto
qed

lemma add_current_eq:
  "distinct ks \<Longrightarrow> seen \<inter> set ks = {} \<Longrightarrow>
   snd (add_current s pre ks (seen, result)) =
     result @ map (\<lambda>p. toProto (the (live s p))) (filter (\<lambda>p. HasPrefix p pre \<and> live s p \<noteq> None) ks)"
proof (induction ks arbitrary: seen result)
  case (Cons p ks)
  then have "p \<notin> seen" "distinct ks" "seen \<inter> set ks = {}" "insert p seen \<inter> set ks = {}" by auto
  note IH = Cons.IH [OF this(2,3), of result] Cons.IH [OF this(2,4), of "result @ [toProto (the (live s p))]"]
  show ?case
  proof (cases "currentVersion s p")
    case None
    then have "live s p = None" by (simp add: live_def)
    with None IH \<open>p \<notin> seen\<close> show ?thesis by (simp add: currentRecordLocked_eq)
  next
    case (Some v)
    then have "live s p = (if sv_Tombstone v then None else Some v)" by (simp add: live_def)
    with Some IH \<open>p \<notin> seen\<close> show ?thesis by (cases "sv_Tombstone v") (simp_all add: currentRecordLocked_eq)
  qed
qed simp

lemma gv_path_toProto [simp]: "gv_LogicalPath (toProto v) = sv_LogicalPath v"
  by (simp add: toProto_def)

lemma live_path: "store_inv s \<Longrightarrow> live s p = Some v \<Longrightarrow> sv_LogicalPath v = p"
  by (auto simp: live_def intro: currentVersion_path split: option.splits if_splits)

definition dir_prefix :: "string \<Rightarrow> string" where
  "dir_prefix pre = (if pre \<noteq> '''' \<and> \<not> HasSuffix pre ''/'' then pre @ ''/'' else pre)"

lemma map_sort_slice:
  "map f (sort_slice (\<lambda>a b. f a < f b) xs) = sort_slice (<) (map f xs)"
proof -
  have "map f (insert_less (\<lambda>a b. f a < f b) x ys) = insert_less (<) (f x) (map f ys)" for x ys
    by (induction ys) auto
  then have "map f (sort_slice_acc (\<lambda>a b. f a < f b) acc xs) = sort_slice_acc (<) (map f acc) (map f xs)" for acc
    by (induction xs arbitrary: acc) auto
  then show ?thesis by (simp add: sort_slice_def)
qed

lemma listCurrent_paths:
  assumes "store_inv s"
  obtains ps where "sorted ps" "distinct ps" "set ps = {p. HasPrefix p (dir_prefix pre) \<and> live s p \<noteq> None}"
    "map gv_LogicalPath (listCurrentUnderPrefix s pre limit) = take (nat (if limit \<le> 0 then 1000 else limit)) ps"
proof -
  let ?ks = "filter (\<lambda>p. HasPrefix p (dir_prefix pre) \<and> live s p \<noteq> None) (map fst (vs_current s) @ map fst (vs_ephemeral s))"
  let ?vs = "map (\<lambda>p. toProto (the (live s p))) ?ks"
  define ps where "ps = sort_slice (<) ?ks"
  have paths: "map gv_LogicalPath ?vs = ?ks"
    by (rule map_idI [THEN trans [rotated]]) (auto simp: comp_def live_path [OF assms])
  define R where "R = sort_slice (\<lambda>a b. gv_LogicalPath a < gv_LogicalPath b) ?vs"
  have R: "map gv_LogicalPath R = ps" unfolding R_def map_sort_slice paths ps_def ..
  have "set ps = {p. HasPrefix p (dir_prefix pre) \<and> live s p \<noteq> None}"
    using live_keys [of s] unfolding ps_def by auto
  moreover have "sorted ps" using sorted_sort_slice_key [of "\<lambda>x. x" ?ks] by (simp add: ps_def)
  moreover have "distinct ps"
    unfolding ps_def distinct_sort_slice by (rule distinct_filter [OF store_keys_distinct [OF assms]])
  moreover define L where "L = (if limit \<le> 0 then 1000 else limit)"
  have "snd (add_current s (dir_prefix pre) (map fst (vs_current s) @ map fst (vs_ephemeral s)) ({}, [])) = ?vs"
    using add_current_eq [OF store_keys_distinct [OF assms], of "{}" s "dir_prefix pre" "[]"] by simp
  then have "listCurrentUnderPrefix s pre limit = (if int (length R) > L then take (nat L) R else R)"
    by (simp only: listCurrentUnderPrefix_def dir_prefix_def [symmetric] Let_def case_prod_beta R_def L_def)
  then have "map gv_LogicalPath (listCurrentUnderPrefix s pre limit) = take (nat L) ps"
    by (auto simp: R [symmetric] take_map)
  ultimately show ?thesis using that [of ps] unfolding L_def by blast
qed

text \<open>What is listed are live versions.\<close>

lemma listCurrent_live:
  assumes "store_inv s" "v \<in> set (listCurrentUnderPrefix s pre limit)"
  shows "\<not> gv_Tombstone v"
proof -
  let ?ks = "filter (\<lambda>p. HasPrefix p (dir_prefix pre) \<and> live s p \<noteq> None) (map fst (vs_current s) @ map fst (vs_ephemeral s))"
  let ?R = "sort_slice (\<lambda>a b. gv_LogicalPath a < gv_LogicalPath b) (map (\<lambda>p. toProto (the (live s p))) ?ks)"
  have "snd (add_current s (dir_prefix pre) (map fst (vs_current s) @ map fst (vs_ephemeral s)) ({}, [])) =
      map (\<lambda>p. toProto (the (live s p))) ?ks"
    using add_current_eq [OF store_keys_distinct [OF assms(1)], of "{}" s "dir_prefix pre" "[]"] by simp
  then have "set (listCurrentUnderPrefix s pre limit) \<subseteq> set ?R"
    by (simp only: listCurrentUnderPrefix_def dir_prefix_def [symmetric] Let_def case_prod_beta) (auto dest: in_set_takeD)
  then have "v \<in> set ?R" using assms(2) by (rule subsetD)
  then obtain p where "live s p \<noteq> None" "v = toProto (the (live s p))" by auto
  then show ?thesis by (auto simp: toProto_def live_def split: option.splits if_splits)
qed

subsection \<open>Paging through a history\<close>

lemma TrimSpace_Itoa: "TrimSpace (Itoa i) \<noteq> ''''"
proof
  assume "TrimSpace (Itoa i) = ''''"
  then have sp: "\<forall>c \<in> set (Itoa i). is_space c"
    by (simp add: TrimSpace_def Trim_by_Nil)
  obtain ds d where "Itoa i = ds @ [digit_char d]" "d < 10"
  proof -
    have "\<exists>ds d. digits n = ds @ [digit_char d] \<and> d < 10" for n
    proof (cases "n < 10")
      case True
      then have "digits n = [] @ [digit_char n]" by (subst digits.simps) simp
      with True show ?thesis by blast
    next
      case False
      then have "digits n = digits (n div 10) @ [digit_char (n mod 10)]" by (subst digits.simps) simp
      moreover have "n mod 10 < 10" by simp
      ultimately show ?thesis by blast
    qed
    then obtain ds d where "digits (nat \<bar>i\<bar>) = ds @ [digit_char d]" "d < 10" by blast
    then show ?thesis using that [of "CHR ''-'' # ds" d] that [of ds d] by (cases "i < 0") (auto simp: Itoa_def)
  qed
  with sp have "is_space (digit_char d)" by simp
  moreover have "of_char (digit_char d) \<ge> (48 :: nat)" using \<open>d < 10\<close> by (simp add: of_char_digit)
  ultimately show False unfolding is_space_def by auto
qed

text \<open>A client that follows the page tokens until the empty one.\<close>

fun read_pages :: "nat \<Rightarrow> guardianVersionStore \<Rightarrow> string \<Rightarrow> int \<Rightarrow> string \<Rightarrow> GuardianFileVersion list option" where
  "read_pages 0 s p pageSize token = None"
| "read_pages (Suc fuel) s p pageSize token =
     (case list_versions s p pageSize token of
        None \<Rightarrow> None
      | Some (vs, nxt) \<Rightarrow> if nxt = '''' then Some vs else map_option ((@) vs) (read_pages fuel s p pageSize nxt))"

definition history :: "guardianVersionStore \<Rightarrow> string \<Rightarrow> GuardianFileVersion list" where
  "history s p = (case gm_get (vs_ephemeral s) p of Some v \<Rightarrow> [toProto v] | None \<Rightarrow> newest_first (recs s p))"

lemma newest_first_length: "length (newest_first rs) \<le> length rs"
proof -
  have "length (List.map_filter (\<lambda>r. r) xs) \<le> length xs" for xs :: "'a option list"
    by (induction xs) (auto simp: List.map_filter_simps split: option.split)
  then show ?thesis unfolding newest_first_def by (metis length_map length_rev)
qed

lemma list_versions_at:
  assumes "gm_get (vs_ephemeral s) p = None" "token = '''' \<and> k = 0 \<or> token = Itoa (int k)" "int k < 2 ^ 63"
    and n: "n = nat (if pageSize \<le> 0 then 50 else pageSize)"
  shows "list_versions s p pageSize token =
    Some (take n (drop k (newest_first (recs s p))),
      if k + n < length (newest_first (recs s p)) then Itoa (int (k + n)) else '''')"
proof -
  let ?h = "newest_first (recs s p)"
  define m where "m = (if pageSize \<le> 0 then 50 else pageSize)"
  have m: "0 < m" "m = int n" using n by (auto simp: m_def)
  have off: "(if TrimSpace token \<noteq> '''' then
      (case Atoi token of None \<Rightarrow> None | Some value \<Rightarrow> if value < 0 then None else Some value) else Some 0) = Some (int k)"
    using assms(2,3) by (auto simp: TrimSpace_Itoa Atoi_Itoa)
  have len: "length ?h \<le> length (recs s p)"
    by (rule newest_first_length)
  have take: "take (nat (min (int k + m) (int (length ?h)) - int k)) (drop k ?h) = take n (drop k ?h)"
    using m by (auto simp: min_def)
  show ?thesis
    unfolding list_versions_def off m_def [symmetric] Let_def using assms(1) len m take
    by (auto simp: min_def)
qed

lemma read_pages_from:
  assumes "gm_get (vs_ephemeral s) p = None" "token = '''' \<and> k = 0 \<or> token = Itoa (int k)"
    "length (newest_first (recs s p)) < k + fuel" "k \<le> length (newest_first (recs s p))"
    "int (length (newest_first (recs s p))) < 2 ^ 63"
  shows "read_pages fuel s p pageSize token = Some (drop k (newest_first (recs s p)))"
  using assms(2-4)
proof (induction fuel arbitrary: k token)
  case (Suc fuel)
  let ?h = "newest_first (recs s p)"
  define n where "n = nat (if pageSize \<le> 0 then 50 else pageSize)"
  have page: "list_versions s p pageSize token =
    Some (take n (drop k ?h), if k + n < length ?h then Itoa (int (k + n)) else '''')"
    using list_versions_at [OF assms(1) Suc.prems(1) _ n_def] Suc.prems(3) assms(5) by linarith
  have "0 < n" by (simp add: n_def)
  have "Itoa (int (k + n)) \<noteq> ''''" using TrimSpace_Itoa [of "int (k + n)"] by auto
  show ?case
  proof (cases "k + n < length ?h")
    case True
    with Suc.IH [of "Itoa (int (k + n))" "k + n"] Suc.prems \<open>0 < n\<close>
    have "read_pages fuel s p pageSize (Itoa (int (k + n))) = Some (drop (k + n) ?h)" by simp
    moreover have "take n (drop k ?h) @ drop (k + n) ?h = drop k ?h"
      by (metis add.commute append_take_drop_id drop_drop)
    ultimately show ?thesis using page True \<open>Itoa (int (k + n)) \<noteq> ''''\<close> by simp
  next
    case False
    with page show ?thesis by simp
  qed
qed simp

lemma history_length:
  assumes "store_inv s" shows "length (history s p) \<le> maxVersionsPerPath"
proof -
  have "recs s p = [] \<or> (\<exists>i. history_ok p i (recs s p))" using assms unfolding store_inv_def by blast
  then have "length (recs s p) \<le> maxVersionsPerPath" unfolding history_ok_def by auto
  with newest_first_length [of "recs s p"] show ?thesis
    by (simp add: history_def maxVersionsPerPath_def split: option.split)
qed

subsection \<open>Loading a snapshot\<close>

lemma prune_paths_get:
  "gm_get (vs_records (prune_paths ps s)) p =
     (if p \<in> set ps \<and> \<not> isGuardianAssetPath p then None else gm_get (vs_records s) p)"
  by (induction ps arbitrary: s) auto

lemma gm_get_keys: "gm_get m p \<noteq> None \<Longrightarrow> p \<in> set (map fst m)"
  by (induction m) (auto split: if_splits)

subsection \<open>Properties\<close>

definition run_commits :: "guardianVersionCommit list \<Rightarrow> guardianVersionStore" where
  "run_commits cs = fold (\<lambda>c s. snd (commit s c)) cs newGuardianVersionStore"

lemma run_commits_snoc: "run_commits (cs @ [c]) = snd (commit (run_commits cs) c)"
  by (simp add: run_commits_def)

lemma run_commits_inv [inv_intro]: "store_inv (run_commits cs)"
  by (induction cs rule: rev_induct) (simp_all add: run_commits_snoc commit_inv, simp add: run_commits_def store_inv_new)

text \<open>C15: In every store reached from the empty one by commits the three maps have distinct keys,
  non-asset paths live in the ephemeral map only and never as tombstones, and an asset path has a
  history of at most 50 records, all its own, that ends with the version the current map names.
  A snapshot loaded at start-up keeps exactly its asset histories.\<close>

theorem store_invariant:
  "store_inv (run_commits cs) \<and>
   gm_get (vs_records (load_snapshot (Some records) current s)) p =
     (if isGuardianAssetPath p then gm_get records p else None)"
proof
  show "store_inv (run_commits cs)" by (rule run_commits_inv)
  show "gm_get (vs_records (load_snapshot (Some records) current s)) p =
     (if isGuardianAssetPath p then gm_get records p else None)"
    using gm_get_keys [of records p]
    by (cases "gm_get records p"; cases current)
      (simp_all add: load_snapshot_def pruneMachineryLocked_def prune_paths_get)
qed

text \<open>The store as a plain map from paths to file contents.\<close>

definition apply_commit :: "guardianVersionCommit \<Rightarrow> (string \<Rightarrow> bytes option) \<Rightarrow> string \<Rightarrow> bytes option" where
  "apply_commit c m = m(gc_LogicalPath c := if gc_Tombstone c then None else Some (gc_Content c))"

definition contents :: "guardianVersionStore \<Rightarrow> string \<Rightarrow> bytes option" where
  "contents s p = map_option sv_Content (live s p)"

lemma contents_commit: "store_inv s \<Longrightarrow> contents (snd (commit s c)) = apply_commit c (contents s)"
  by (rule ext) (simp add: contents_def live_commit apply_commit_def)

text \<open>C14: The version store refines a map from paths to contents: after any sequence of commits the
  live content at every path is what the last commit to that path wrote, and nothing if that commit
  was a deletion, whichever of the two internal representations the path uses.\<close>

theorem store_refines_map:
  "contents (run_commits cs) = fold apply_commit cs Map.empty"
proof (induction cs rule: rev_induct)
  case Nil
  show ?case
    by (rule ext) (simp add: contents_def run_commits_def live_def currentVersion_def newGuardianVersionStore_def)
next
  case (snoc c cs)
  then show ?case by (simp add: run_commits_snoc contents_commit run_commits_inv)
qed

text \<open>A client that follows the page tokens of the version listing terminates after at most 51
  calls, for every page size, and has then read the whole retained history of the path, newest
  version first, without gaps or repetitions.\<close>

theorem list_versions_complete:
  assumes "store_inv s" "51 \<le> fuel"
  shows "read_pages fuel s p pageSize '''' = Some (history s p)"
proof (cases "gm_get (vs_ephemeral s) p")
  case None
  then have "history s p = newest_first (recs s p)" by (simp add: history_def)
  moreover have "length (history s p) \<le> 50"
    using history_length [OF assms(1)] by (simp add: maxVersionsPerPath_def)
  ultimately show ?thesis using read_pages_from [OF None, of "''''" 0 fuel pageSize] assms(2) by simp
next
  case (Some v)
  obtain n where "fuel = Suc n" using assms(2) by (cases fuel) auto
  then show ?thesis using Some by (simp add: list_versions_def history_def)
qed

definition sample_commit :: guardianVersionCommit where
  "sample_commit = \<lparr>gc_LogicalPath = ''/partitions/p/f'', gc_DisplayPath = ''guardian/p'', gc_StorageID = ''s'',
     gc_BatchRevisionID = ''b'', gc_PrincipalID = ''u'', gc_Reason = '''', gc_CorrelationID = '''',
     gc_Content = [104, 105], gc_Tombstone = False, gc_CommittedAt = 7\<rparr>"

lemma sample_history:
  "history (run_commits [sample_commit, sample_commit]) ''/partitions/p/f'' =
     [fst (commit (run_commits [sample_commit]) sample_commit), fst (commit newGuardianVersionStore sample_commit)]"
proof -
  have p: "gc_LogicalPath sample_commit = ''/partitions/p/f''" by (simp add: sample_commit_def)
  moreover have "isGuardianAssetPath ''/partitions/p/f''" by code_simp
  ultimately show ?thesis
    by (simp add: run_commits_def history_def commit_version commit_store newest_first_def pushed_def maxVersionsPerPath_def
        newGuardianVersionStore_def recs_def List.map_filter_simps)
qed

theorem list_versions_complete_witness:
  "read_pages 51 (run_commits [sample_commit, sample_commit]) ''/partitions/p/f'' 1 '''' =
     Some [fst (commit (run_commits [sample_commit]) sample_commit), fst (commit newGuardianVersionStore sample_commit)]"
  using list_versions_complete [OF run_commits_inv [of "[sample_commit, sample_commit]"] order.refl, of "''/partitions/p/f''" 1]
  unfolding sample_history .

text \<open>The directory listing returns, in ascending order and without repetitions, the first
  \<open>limit\<close> (1000 if not positive) live paths below the directory.\<close>

theorem listCurrentUnderPrefix_correct:
  assumes "store_inv s"
  shows "\<exists>ps. sorted ps \<and> distinct ps \<and> set ps = {p. HasPrefix p (dir_prefix pre) \<and> live s p \<noteq> None} \<and>
    map gv_LogicalPath (listCurrentUnderPrefix s pre limit) = take (nat (if limit \<le> 0 then 1000 else limit)) ps"
  by (rule listCurrent_paths [OF assms, of pre limit]) (intro exI conjI)

theorem listCurrentUnderPrefix_correct_witness:
  "\<exists>ps. sorted ps \<and> distinct ps \<and>
    set ps = {p. HasPrefix p (dir_prefix ''/partitions'') \<and> live (run_commits [sample_commit]) p \<noteq> None} \<and>
    map gv_LogicalPath (listCurrentUnderPrefix (run_commits [sample_commit]) ''/partitions'' 0) =
      take (nat (if (0 :: int) \<le> 0 then 1000 else 0)) ps"
  by (rule listCurrentUnderPrefix_correct [OF run_commits_inv])

end
