(* ===== verification/GuardianMutations.thy ===== *)
theory GuardianMutations
  imports GuardianPrincipals GuardianStore
begin

section \<open>Writing and deleting Guardian paths\<close>

text \<open>
  The mutation handlers of \<^verbatim>\<open>src/internal/router/guardian_paths.go\<close> and the store of the
  pipelines on top of them (\<^verbatim>\<open>src/internal/router/pipeline_kvs.go\<close>).

  What the storage nodes answer is a parameter: one function per remote call, from its arguments to the
  outcome. The published change events are collected in order; subscriptions, metrics, logging and the
  search index are left out. The clock is an argument, in nanoseconds.
\<close>

datatype ChangeType = ADDED | MODIFIED | DELETED

record GuardianPathWrite =
  gw_LogicalPath :: string
  gw_Content :: bytes
  gw_ExpectedVersionId :: string

record GuardianPathDelete =
  gd_LogicalPath :: string
  gd_ExpectedVersionId :: string

record MutationContext =
  mc_PrincipalId :: string
  mc_CorrelationId :: string
  mc_Reason :: string

record UpsertRequest =
  ur_GuardianToken :: string
  ur_Writes :: "GuardianPathWrite list"
  ur_Context :: "MutationContext option"

record DeleteRequest =
  dr_GuardianToken :: string
  dr_Deletes :: "GuardianPathDelete list"
  dr_Context :: "MutationContext option"

record GuardianChangeEvent =
  ce_LogicalPath :: string
  ce_Type :: ChangeType
  ce_Version :: GuardianFileVersion
  ce_CorrelationId :: string
  ce_InlineContent :: bytes

record FileMetadata =
  fm_Path :: string
  fm_StorageId :: string
  fm_DisplayPath :: string
  fm_Mtime :: int
  fm_BlobHash :: string
  fm_Source :: string
  fm_InlineContent :: bytes
  fm_BackendMetadata :: "(string, string) gomap"

record guardianUpsertGroup =
  ug_displayPath :: string
  ug_storageID :: string
  ug_files :: "FileMetadata list"

record guardianUpsertPlan =
  up_write :: GuardianPathWrite
  up_mapped :: guardianPhysicalPath
  up_changeType :: ChangeType

datatype mutation_error =
    InvalidGuardianToken
  | EmptyBatch
  | InvalidLogicalPath string path_error
  | NotAFile string
  | MutationDenied GuardianPaths.auth_error
  | AlreadyExists string
  | VersionMismatch string
  | NodeFailure string
  | NoHealthyNodes
  | SystemRootNotDeletable

text \<open>The parts of the router that the handlers use.\<close>

record guardian_state =
  gs_principals :: guardianPrincipalStore
  gs_clients :: guardian_clients
  gs_versions :: guardianVersionStore
  gs_events :: "GuardianChangeEvent list"

datatype node_delete = DeleteRepository string | DeleteDirectory string string | DeleteFile string string

record node_env =
  ne_upsert :: "guardianUpsertGroup list \<Rightarrow> string option"
  ne_healthy :: bool
  ne_client :: "string option"
  ne_kvs_client :: "string \<Rightarrow> string option"
  ne_attr :: "string \<Rightarrow> bool option"
  ne_read :: "string \<Rightarrow> (string, bytes) result"
  ne_delete :: "node_delete \<Rightarrow> string option"

definition guardianBatchRevisionID :: "int \<Rightarrow> string" where
  "guardianBatchRevisionID now = ''batch_'' @ Itoa now"

definition unix_seconds :: "int \<Rightarrow> int" where
  "unix_seconds now = now div 1000000000"

definition guardianContentHash :: "bytes \<Rightarrow> string" where
  "guardianContentHash content = hex_encode (sha256 content)"

definition guardianRepoStorageBackend :: "string \<Rightarrow> string" where
  "guardianRepoStorageBackend displayPath = (if displayPath = ''guardian-system'' then ''kvs'' else '''')"

definition buildGuardianChangeEvent :: "GuardianFileVersion \<Rightarrow> string \<Rightarrow> ChangeType \<Rightarrow> string \<Rightarrow> bytes \<Rightarrow> GuardianChangeEvent" where
  "buildGuardianChangeEvent version logicalPath changeType correlationID content =
     \<lparr>ce_LogicalPath = logicalPath, ce_Type = changeType, ce_Version = version, ce_CorrelationId = correlationID,
      ce_InlineContent = (if length content > 0 \<and> length content < 64 * 1024 then content else [])\<rparr>"

definition context_of :: "MutationContext option \<Rightarrow> string \<times> string" where
  "context_of c = (case c of None \<Rightarrow> ('''', '''') | Some x \<Rightarrow> (mc_CorrelationId x, mc_Reason x))"

subsection \<open>Upsert\<close>

text \<open>A path exists when its current version is there and is no tombstone.\<close>

definition existing :: "guardianVersionStore \<Rightarrow> string \<Rightarrow> storedGuardianFileVersion option" where
  "existing vs logicalPath =
     (case currentVersion vs logicalPath of None \<Rightarrow> None | Some v \<Rightarrow> if sv_Tombstone v then None else Some v)"

definition check_expected :: "guardianVersionStore \<Rightarrow> string \<Rightarrow> string \<Rightarrow> mutation_error option" where
  "check_expected vs logicalPath expected =
     (if expected = '''' then None
      else if expected = ''absent'' then
        (if existing vs logicalPath \<noteq> None then Some (AlreadyExists logicalPath) else None)
      else case existing vs logicalPath of
        None \<Rightarrow> Some (VersionMismatch logicalPath)
      | Some current \<Rightarrow> if sv_VersionID current \<noteq> expected then Some (VersionMismatch logicalPath) else None)"

definition plan_write :: "guardianVersionStore \<Rightarrow> guardianPrincipal \<Rightarrow> GuardianPathWrite \<Rightarrow> (mutation_error, guardianUpsertPlan) result" where
  "plan_write vs prin write =
     (case mapGuardianLogicalPath (gw_LogicalPath write) of
        Inl e \<Rightarrow> Inl (InvalidLogicalPath (gw_LogicalPath write) e)
      | Inr mapped \<Rightarrow>
          if gp_RelativePath mapped = '''' then Inl (NotAFile (gw_LogicalPath write))
          else case authorizeGuardianMutation (Some prin) (gp_LogicalPath mapped) False of
            Some e \<Rightarrow> Inl (MutationDenied e)
          | None \<Rightarrow>
              (case check_expected vs (gp_LogicalPath mapped) (TrimSpace (gw_ExpectedVersionId write)) of
                 Some e \<Rightarrow> Inl e
               | None \<Rightarrow> Inr \<lparr>up_write = write, up_mapped = mapped,
                   up_changeType = (if existing vs (gp_LogicalPath mapped) \<noteq> None then MODIFIED else ADDED)\<rparr>))"

fun plan_writes :: "guardianVersionStore \<Rightarrow> guardianPrincipal \<Rightarrow> GuardianPathWrite list \<Rightarrow> (mutation_error, guardianUpsertPlan list) result" where
  "plan_writes vs prin [] = Inr []"
| "plan_writes vs prin (w # ws) =
     (case plan_write vs prin w of
        Inl e \<Rightarrow> Inl e
      | Inr p \<Rightarrow> (case plan_writes vs prin ws of Inl e \<Rightarrow> Inl e | Inr ps \<Rightarrow> Inr (p # ps)))"

definition file_of :: "guardianPrincipal \<Rightarrow> int \<Rightarrow> guardianUpsertPlan \<Rightarrow> FileMetadata" where
  "file_of prin committedAt plan =
     (let mapped = up_mapped plan; content = gw_Content (up_write plan); backend = guardianRepoStorageBackend (gp_DisplayPath mapped) in
      \<lparr>fm_Path = gp_RelativePath mapped, fm_StorageId = gp_StorageID mapped, fm_DisplayPath = gp_DisplayPath mapped,
       fm_Mtime = committedAt, fm_BlobHash = guardianContentHash content,
       fm_Source = (if TrimSpace (pr_BaseURL prin) = '''' then ''guardian-path-api'' else pr_BaseURL prin),
       fm_InlineContent = content,
       fm_BackendMetadata = (if backend \<noteq> '''' then [(''storage_backend'', backend)] else [])\<rparr>)"

definition add_to_group ::
  "guardianPrincipal \<Rightarrow> int \<Rightarrow> guardianUpsertPlan \<Rightarrow> (string, guardianUpsertGroup) gomap \<Rightarrow> (string, guardianUpsertGroup) gomap"
where
  "add_to_group prin committedAt plan groups =
     (let displayPath = gp_DisplayPath (up_mapped plan);
          group = (case gm_get groups displayPath of
             None \<Rightarrow> \<lparr>ug_displayPath = displayPath, ug_storageID = gp_StorageID (up_mapped plan), ug_files = []\<rparr>
           | Some g \<Rightarrow> g)
      in gm_set displayPath (group\<lparr>ug_files := ug_files group @ [file_of prin committedAt plan]\<rparr>) groups)"

text \<open>The phases of an upsert: the checks against the current versions, the writes to the nodes, the commits
  to the version store. No lock is held from one phase to the next.\<close>

record prepared =
  pp_principal :: guardianPrincipal
  pp_plans :: "guardianUpsertPlan list"
  pp_groups :: "guardianUpsertGroup list"
  pp_now :: int
  pp_correlationID :: string
  pp_reason :: string

definition upsert_prepare :: "int \<Rightarrow> guardian_state \<Rightarrow> UpsertRequest \<Rightarrow> (mutation_error, prepared) result" where
  "upsert_prepare now s req =
     (case authenticateGuardianMutation (gs_principals s) (gs_clients s) (ur_GuardianToken req) (map_option mc_PrincipalId (ur_Context req)) of
        None \<Rightarrow> Inl InvalidGuardianToken
      | Some prin \<Rightarrow>
          if ur_Writes req = [] then Inl EmptyBatch
          else case plan_writes (gs_versions s) prin (ur_Writes req) of
            Inl e \<Rightarrow> Inl e
          | Inr plans \<Rightarrow> Inr \<lparr>pp_principal = prin, pp_plans = plans,
              pp_groups = map snd (fold (add_to_group prin (unix_seconds now)) plans []), pp_now = now,
              pp_correlationID = fst (context_of (ur_Context req)), pp_reason = snd (context_of (ur_Context req))\<rparr>)"

definition upsert_change :: "prepared \<Rightarrow> guardianUpsertPlan \<Rightarrow> guardianVersionCommit" where
  "upsert_change pp plan =
     \<lparr>gc_LogicalPath = gp_LogicalPath (up_mapped plan), gc_DisplayPath = gp_DisplayPath (up_mapped plan),
      gc_StorageID = gp_StorageID (up_mapped plan), gc_BatchRevisionID = guardianBatchRevisionID (pp_now pp),
      gc_PrincipalID = pr_PrincipalID (pp_principal pp), gc_Reason = pp_reason pp, gc_CorrelationID = pp_correlationID pp,
      gc_Content = gw_Content (up_write plan), gc_Tombstone = False, gc_CommittedAt = unix_seconds (pp_now pp)\<rparr>"

fun upsert_commits :: "prepared \<Rightarrow> guardianUpsertPlan list \<Rightarrow> guardian_state \<Rightarrow> GuardianFileVersion list \<times> guardian_state" where
  "upsert_commits pp [] s = ([], s)"
| "upsert_commits pp (plan # plans) s =
     (let (version, vs) = commit (gs_versions s) (upsert_change pp plan);
          event = buildGuardianChangeEvent version (gp_LogicalPath (up_mapped plan)) (up_changeType plan) (pp_correlationID pp) (gw_Content (up_write plan));
          s = s\<lparr>gs_versions := vs, gs_events := gs_events s @ [event]\<rparr>;
          (versions, s) = upsert_commits pp plans s
      in (version # versions, s))"

record UpsertResponse =
  us_BatchRevisionId :: string
  us_Versions :: "GuardianFileVersion list"

definition upsert_finish :: "node_env \<Rightarrow> prepared \<Rightarrow> guardian_state \<Rightarrow> (mutation_error, UpsertResponse) result \<times> guardian_state" where
  "upsert_finish env pp s =
     (case ne_upsert env (pp_groups pp) of
        Some err \<Rightarrow> (Inl (NodeFailure err), s)
      | None \<Rightarrow>
          (let (versions, s) = upsert_commits pp (pp_plans pp) s
           in (Inr \<lparr>us_BatchRevisionId = guardianBatchRevisionID (pp_now pp), us_Versions = versions\<rparr>, s)))"

definition processGuardianUpsert ::
  "node_env \<Rightarrow> int \<Rightarrow> guardian_state \<Rightarrow> UpsertRequest \<Rightarrow> (mutation_error, UpsertResponse) result \<times> guardian_state"
where
  "processGuardianUpsert env now s req =
     (case upsert_prepare now s req of
        Inl e \<Rightarrow> (Inl e, s)
      | Inr pp \<Rightarrow> upsert_finish env pp s)"

text \<open>The chunks of a streamed request up to the last one or the end of the stream.\<close>

record WriteChunk =
  wc_GuardianToken :: string
  wc_Context :: "MutationContext option"
  wc_Writes :: "GuardianPathWrite list"
  wc_IsLast :: bool

fun collect_chunks :: "UpsertRequest \<Rightarrow> WriteChunk list \<Rightarrow> UpsertRequest" where
  "collect_chunks req [] = req"
| "collect_chunks req (c # cs) =
     (let req = \<lparr>ur_GuardianToken = (if ur_GuardianToken req = '''' \<and> wc_GuardianToken c \<noteq> '''' then wc_GuardianToken c else ur_GuardianToken req),
                 ur_Writes = ur_Writes req @ wc_Writes c,
                 ur_Context = (if ur_Context req = None then wc_Context c else ur_Context req)\<rparr>
      in if wc_IsLast c then req else collect_chunks req cs)"

definition UpsertGuardianPathsStream ::
  "node_env \<Rightarrow> int \<Rightarrow> guardian_state \<Rightarrow> WriteChunk list \<Rightarrow> (mutation_error, UpsertResponse) result \<times> guardian_state"
where
  "UpsertGuardianPathsStream env now s received =
     (let req = collect_chunks \<lparr>ur_GuardianToken = '''', ur_Writes = [], ur_Context = None\<rparr> received in
      if ur_Writes req = [] then (Inl EmptyBatch, s) else processGuardianUpsert env now s req)"

subsection \<open>Delete\<close>

record guardianDeletePlan =
  dp_mapped :: guardianPhysicalPath
  dp_content :: bytes
  dp_isDir :: bool
  dp_deleteRepo :: bool
  dp_needsDelete :: bool

definition delete_attrs ::
  "node_env \<Rightarrow> guardianPhysicalPath \<Rightarrow> storedGuardianFileVersion option \<Rightarrow> (mutation_error, guardianDeletePlan) result"
where
  "delete_attrs env mapped current =
     (let plan = \<lparr>dp_mapped = mapped, dp_content = [], dp_isDir = False, dp_deleteRepo = False, dp_needsDelete = False\<rparr> in
      if gp_RelativePath mapped = '''' \<and> gp_DisplayPath mapped = ''guardian-system'' then Inl SystemRootNotDeletable
      else if gp_RelativePath mapped = '''' then Inr (plan\<lparr>dp_deleteRepo := True, dp_needsDelete := True\<rparr>)
      else let physicalPath = guardianDisplayPathJoin (gp_DisplayPath mapped) (gp_RelativePath mapped) in
        case ne_kvs_client env (gp_DisplayPath mapped) of
          Some err \<Rightarrow> Inl (NodeFailure err)
        | None \<Rightarrow>
            (case ne_attr env physicalPath of
               None \<Rightarrow> Inr plan
             | Some isDir \<Rightarrow>
                 Inr (plan\<lparr>dp_needsDelete := True, dp_isDir := isDir,
                   dp_content := (if \<not> isDir \<and> isGuardianAssetPath (gp_LogicalPath mapped) \<and>
                       (case current of None \<Rightarrow> True | Some v \<Rightarrow> sv_Content v = [])
                     then (case ne_read env physicalPath of Inl _ \<Rightarrow> [] | Inr content \<Rightarrow> content) else [])\<rparr>)))"

definition plan_delete ::
  "node_env \<Rightarrow> guardianVersionStore \<Rightarrow> guardianPrincipal \<Rightarrow> GuardianPathDelete \<Rightarrow> (mutation_error, guardianDeletePlan) result"
where
  "plan_delete env vs prin req =
     (case mapGuardianLogicalPath (gd_LogicalPath req) of
        Inl e \<Rightarrow> Inl (InvalidLogicalPath (gd_LogicalPath req) e)
      | Inr mapped \<Rightarrow>
          (case authorizeGuardianMutation (Some prin) (gp_LogicalPath mapped) True of
             Some e \<Rightarrow> Inl (MutationDenied e)
           | None \<Rightarrow>
               (let current = currentVersion vs (gp_LogicalPath mapped); expected = TrimSpace (gd_ExpectedVersionId req) in
                if expected \<noteq> '''' \<and> (case current of None \<Rightarrow> True | Some v \<Rightarrow> sv_VersionID v \<noteq> expected)
                then Inl (VersionMismatch (gp_LogicalPath mapped))
                else case delete_attrs env mapped current of
                  Inl e \<Rightarrow> Inl e
                | Inr plan \<Rightarrow>
                    (case current of
                       Some v \<Rightarrow> if sv_Content v \<noteq> [] then Inr (plan\<lparr>dp_content := sv_Content v\<rparr>) else Inr plan
                     | None \<Rightarrow> Inr plan))))"

fun plan_deletes ::
  "node_env \<Rightarrow> guardianVersionStore \<Rightarrow> guardianPrincipal \<Rightarrow> GuardianPathDelete list \<Rightarrow> (mutation_error, guardianDeletePlan list) result"
where
  "plan_deletes env vs prin [] = Inr []"
| "plan_deletes env vs prin (d # ds) =
     (case plan_delete env vs prin d of
        Inl e \<Rightarrow> Inl e
      | Inr p \<Rightarrow> (case plan_deletes env vs prin ds of Inl e \<Rightarrow> Inl e | Inr ps \<Rightarrow> Inr (p # ps)))"

definition node_delete_of :: "guardianDeletePlan \<Rightarrow> node_delete" where
  "node_delete_of plan =
     (let mapped = dp_mapped plan in
      if dp_deleteRepo plan then DeleteRepository (gp_StorageID mapped)
      else if dp_isDir plan then DeleteDirectory (gp_StorageID mapped) (gp_RelativePath mapped)
      else DeleteFile (gp_StorageID mapped) (gp_RelativePath mapped))"

fun node_deletes :: "node_env \<Rightarrow> guardianDeletePlan list \<Rightarrow> mutation_error option" where
  "node_deletes env [] = None"
| "node_deletes env (plan # plans) =
     (if \<not> dp_needsDelete plan then node_deletes env plans
      else case ne_delete env (node_delete_of plan) of
        Some err \<Rightarrow> Some (NodeFailure err)
      | None \<Rightarrow> node_deletes env plans)"

definition tombstone_change ::
  "guardianPrincipal \<Rightarrow> int \<Rightarrow> string \<Rightarrow> string \<Rightarrow> guardianPhysicalPath \<Rightarrow> bytes \<Rightarrow> guardianVersionCommit"
where
  "tombstone_change prin now correlationID reason mapped content =
     \<lparr>gc_LogicalPath = gp_LogicalPath mapped, gc_DisplayPath = gp_DisplayPath mapped,
      gc_StorageID = gp_StorageID mapped, gc_BatchRevisionID = guardianBatchRevisionID now,
      gc_PrincipalID = pr_PrincipalID prin, gc_Reason = reason, gc_CorrelationID = correlationID,
      gc_Content = content, gc_Tombstone = True, gc_CommittedAt = unix_seconds now\<rparr>"

definition commit_tombstone ::
  "guardianPrincipal \<Rightarrow> int \<Rightarrow> string \<Rightarrow> string \<Rightarrow> guardianPhysicalPath \<Rightarrow> bytes \<Rightarrow> guardian_state \<Rightarrow> GuardianFileVersion \<times> guardian_state"
where
  "commit_tombstone prin now correlationID reason mapped content s =
     (let (version, vs) = commit (gs_versions s) (tombstone_change prin now correlationID reason mapped content);
          event = buildGuardianChangeEvent version (gp_LogicalPath mapped) DELETED correlationID []
      in (version, s\<lparr>gs_versions := vs, gs_events := gs_events s @ [event]\<rparr>))"

fun delete_commits ::
  "guardianPrincipal \<Rightarrow> int \<Rightarrow> string \<Rightarrow> string \<Rightarrow> guardianDeletePlan list \<Rightarrow> guardian_state \<Rightarrow> GuardianFileVersion list \<times> guardian_state"
where
  "delete_commits prin now correlationID reason [] s = ([], s)"
| "delete_commits prin now correlationID reason (plan # plans) s =
     (let (version, s) = commit_tombstone prin now correlationID reason (dp_mapped plan) (dp_content plan) s;
          (versions, s) = delete_commits prin now correlationID reason plans s
      in (version # versions, s))"

definition DeleteGuardianPaths ::
  "node_env \<Rightarrow> int \<Rightarrow> guardian_state \<Rightarrow> DeleteRequest \<Rightarrow> (mutation_error, GuardianFileVersion list) result \<times> guardian_state"
where
  "DeleteGuardianPaths env now s req =
     (case authenticateGuardianMutation (gs_principals s) (gs_clients s) (dr_GuardianToken req) (map_option mc_PrincipalId (dr_Context req)) of
        None \<Rightarrow> (Inl InvalidGuardianToken, s)
      | Some prin \<Rightarrow>
          if dr_Deletes req = [] then (Inl EmptyBatch, s)
          else if \<not> ne_healthy env then (Inl NoHealthyNodes, s)
          else case ne_client env of
            Some err \<Rightarrow> (Inl (NodeFailure err), s)
          | None \<Rightarrow>
              (case plan_deletes env (gs_versions s) prin (dr_Deletes req) of
                 Inl e \<Rightarrow> (Inl e, s)
               | Inr plans \<Rightarrow>
                   (case node_deletes env plans of
                      Some e \<Rightarrow> (Inl e, s)
                    | None \<Rightarrow>
                        (let (versions, s) = delete_commits prin now (fst (context_of (dr_Context req))) (snd (context_of (dr_Context req))) plans s
                         in (Inr versions, s)))))"

subsection \<open>The store of the pipelines\<close>

text \<open>\<open>processGuardianDelete\<close> commits path by path: an error keeps the tombstones written before it.\<close>

fun delete_each ::
  "node_env \<Rightarrow> guardianPrincipal \<Rightarrow> int \<Rightarrow> GuardianPathDelete list \<Rightarrow> guardian_state \<Rightarrow> mutation_error option \<times> guardian_state"
where
  "delete_each env prin now [] s = (None, s)"
| "delete_each env prin now (d # ds) s =
     (case mapGuardianLogicalPath (gd_LogicalPath d) of
        Inl e \<Rightarrow> (Some (InvalidLogicalPath (gd_LogicalPath d) e), s)
      | Inr mapped \<Rightarrow>
          if existing (gs_versions s) (gp_LogicalPath mapped) = None then delete_each env prin now ds s
          else case ne_client env of
            Some err \<Rightarrow> (Some (NodeFailure err), s)
          | None \<Rightarrow>
              (case ne_delete env (DeleteFile (gp_StorageID mapped) (gp_RelativePath mapped)) of
                 Some err \<Rightarrow> (Some (NodeFailure err), s)
               | None \<Rightarrow> delete_each env prin now ds (snd (commit_tombstone prin now '''' '''' mapped [] s))))"

definition processGuardianDelete :: "node_env \<Rightarrow> int \<Rightarrow> guardian_state \<Rightarrow> DeleteRequest \<Rightarrow> mutation_error option \<times> guardian_state" where
  "processGuardianDelete env now s req =
     (case authenticateGuardianMutation (gs_principals s) (gs_clients s) (dr_GuardianToken req) (map_option mc_PrincipalId (dr_Context req)) of
        None \<Rightarrow> (Some InvalidGuardianToken, s)
      | Some prin \<Rightarrow>
          if dr_Deletes req = [] then (Some EmptyBatch, s)
          else if \<not> ne_healthy env then (Some NoHealthyNodes, s)
          else delete_each env prin now (dr_Deletes req) s)"

definition writePipelinePath ::
  "node_env \<Rightarrow> string \<Rightarrow> int \<Rightarrow> guardian_state \<Rightarrow> string \<Rightarrow> bytes \<Rightarrow> string \<Rightarrow> (mutation_error, string) result \<times> guardian_state"
where
  "writePipelinePath env token now s logicalPath content expectedVersionID =
     (case processGuardianUpsert env now s \<lparr>ur_GuardianToken = token,
        ur_Writes = [\<lparr>gw_LogicalPath = logicalPath, gw_Content = content, gw_ExpectedVersionId = expectedVersionID\<rparr>], ur_Context = None\<rparr> of
        (Inl e, s) \<Rightarrow> (Inl e, s)
      | (Inr resp, s) \<Rightarrow> (Inr (case us_Versions resp of [] \<Rightarrow> '''' | v # _ \<Rightarrow> gv_VersionId v), s))"

datatype read_error = MapPath path_error | NotFound string | NodeClient string | ReadFile string

text \<open>A committed content is a fresh copy, so the empty content is nil.\<close>

definition readPipelinePath :: "node_env \<Rightarrow> guardian_state \<Rightarrow> string \<Rightarrow> (read_error, bytes \<times> string) result" where
  "readPipelinePath env s logicalPath =
     (case mapGuardianLogicalPath logicalPath of
        Inl e \<Rightarrow> Inl (MapPath e)
      | Inr mapped \<Rightarrow>
          (case existing (gs_versions s) logicalPath of
             None \<Rightarrow> Inl (NotFound logicalPath)
           | Some current \<Rightarrow>
               if sv_Content current \<noteq> [] then Inr (sv_Content current, sv_VersionID current)
               else if \<not> ne_healthy env then Inl (NodeClient ''no healthy guardian nodes available'')
               else case ne_client env of
                 Some err \<Rightarrow> Inl (NodeClient err)
               | None \<Rightarrow>
                   (case ne_read env (gp_RelativePath mapped) of
                      Inl err \<Rightarrow> Inl (ReadFile err)
                    | Inr content \<Rightarrow> Inr (content, sv_VersionID current))))"

definition deletePipelinePath :: "node_env \<Rightarrow> string \<Rightarrow> int \<Rightarrow> guardian_state \<Rightarrow> string \<Rightarrow> mutation_error option \<times> guardian_state" where
  "deletePipelinePath env token now s logicalPath =
     processGuardianDelete env now s \<lparr>dr_GuardianToken = token,
       dr_Deletes = [\<lparr>gd_LogicalPath = logicalPath, gd_ExpectedVersionId = ''''\<rparr>], dr_Context = None\<rparr>"

definition listPipelinePath :: "guardian_state \<Rightarrow> string \<Rightarrow> string list" where
  "listPipelinePath s logicalDir =
     (let logicalDir = TrimSuffix logicalDir ''/'';
          logicalDir = (if \<not> HasPrefix logicalDir ''/'' then ''/'' @ logicalDir else logicalDir);
          pre = logicalDir @ ''/''
      in filter (\<lambda>relName. relName \<noteq> '''') (map (\<lambda>v. TrimPrefix (gv_LogicalPath v) pre)
           (filter (\<lambda>v. \<not> gv_Tombstone v) (listCurrentUnderPrefix (gs_versions s) pre 1000))))"


subsection \<open>The effect of the handlers on the live files\<close>

definition gs_ok :: "guardian_state \<Rightarrow> bool" where
  "gs_ok s \<longleftrightarrow> ps_ok (gs_principals s) \<and> store_inv (gs_versions s)"

text \<open>The content of every live path.\<close>

definition files :: "guardian_state \<Rightarrow> string \<Rightarrow> bytes option" where
  "files s p = map_option sv_Content (live (gs_versions s) p)"

lemma existing_live: "existing vs p = live vs p"
  by (simp add: existing_def live_def)

lemma upsert_commits_effect:
  assumes "gs_ok s" "upsert_commits pp plans s = (versions, s')"
  shows "gs_ok s'" "gs_principals s' = gs_principals s" "gs_clients s' = gs_clients s"
    "files s' = fold (\<lambda>plan m. m(gp_LogicalPath (up_mapped plan) \<mapsto> gw_Content (up_write plan))) plans (files s)"
    "map gv_LogicalPath versions = map (\<lambda>plan. gp_LogicalPath (up_mapped plan)) plans"
    "map (\<lambda>e. (ce_LogicalPath e, ce_Type e)) (gs_events s') = map (\<lambda>e. (ce_LogicalPath e, ce_Type e)) (gs_events s) @
       map (\<lambda>plan. (gp_LogicalPath (up_mapped plan), up_changeType plan)) plans"
proof -
  have "gs_ok s' \<and> gs_principals s' = gs_principals s \<and> gs_clients s' = gs_clients s \<and>
    files s' = fold (\<lambda>plan m. m(gp_LogicalPath (up_mapped plan) \<mapsto> gw_Content (up_write plan))) plans (files s) \<and>
    map gv_LogicalPath versions = map (\<lambda>plan. gp_LogicalPath (up_mapped plan)) plans \<and>
    map (\<lambda>e. (ce_LogicalPath e, ce_Type e)) (gs_events s') = map (\<lambda>e. (ce_LogicalPath e, ce_Type e)) (gs_events s) @
       map (\<lambda>plan. (gp_LogicalPath (up_mapped plan), up_changeType plan)) plans"
    using assms
  proof (induction plans arbitrary: s s' versions)
    case (Cons plan plans)
    define c where "c = upsert_change pp plan"
    have c: "gc_LogicalPath c = gp_LogicalPath (up_mapped plan)" "gc_Content c = gw_Content (up_write plan)" "\<not> gc_Tombstone c"
      by (simp_all add: c_def upsert_change_def)
    define t where "t = s\<lparr>gs_versions := snd (commit (gs_versions s) c), gs_events := gs_events s @
      [buildGuardianChangeEvent (fst (commit (gs_versions s) c)) (gp_LogicalPath (up_mapped plan)) (up_changeType plan)
        (pp_correlationID pp) (gw_Content (up_write plan))]\<rparr>"
    obtain vs s2 where rest: "upsert_commits pp plans t = (vs, s2)" by (cases "upsert_commits pp plans t")
    have now: "versions = fst (commit (gs_versions s) c) # vs" "s' = s2"
      using Cons.prems(2) rest by (simp_all add: c_def [symmetric] t_def split_beta Let_def)
    have t: "gs_ok t" "gs_principals t = gs_principals s" "gs_clients t = gs_clients s"
      using Cons.prems(1) commit_inv by (simp_all add: gs_ok_def t_def)
    have "files t = (files s)(gp_LogicalPath (up_mapped plan) \<mapsto> gw_Content (up_write plan))"
      using live_commit [of "gs_versions s" c] Cons.prems(1) c by (auto simp: files_def t_def gs_ok_def fun_eq_iff)
    moreover have "gv_LogicalPath (fst (commit (gs_versions s) c)) = gp_LogicalPath (up_mapped plan)"
      by (simp add: commit_version c)
    moreover have "map (\<lambda>e. (ce_LogicalPath e, ce_Type e)) (gs_events t) = map (\<lambda>e. (ce_LogicalPath e, ce_Type e)) (gs_events s) @
        [(gp_LogicalPath (up_mapped plan), up_changeType plan)]"
      by (simp add: t_def buildGuardianChangeEvent_def)
    ultimately show ?case using Cons.IH [OF t(1) rest] t now by simp
  qed simp
  then show "gs_ok s'" "gs_principals s' = gs_principals s" "gs_clients s' = gs_clients s"
    "files s' = fold (\<lambda>plan m. m(gp_LogicalPath (up_mapped plan) \<mapsto> gw_Content (up_write plan))) plans (files s)"
    "map gv_LogicalPath versions = map (\<lambda>plan. gp_LogicalPath (up_mapped plan)) plans"
    "map (\<lambda>e. (ce_LogicalPath e, ce_Type e)) (gs_events s') = map (\<lambda>e. (ce_LogicalPath e, ce_Type e)) (gs_events s) @
       map (\<lambda>plan. (gp_LogicalPath (up_mapped plan), up_changeType plan)) plans"
    by blast+
qed

text \<open>What a request may ask of a path, in terms of the live files.\<close>

definition expectation_met :: "guardianVersionStore \<Rightarrow> string \<Rightarrow> string \<Rightarrow> bool" where
  "expectation_met vs p expected \<longleftrightarrow>
     expected = '''' \<or> expected = ''absent'' \<and> live vs p = None \<or>
     expected \<notin> {'''', ''absent''} \<and> (\<exists>v. live vs p = Some v \<and> sv_VersionID v = expected)"

lemma check_expected_met: "check_expected vs p expected = None \<longleftrightarrow> expectation_met vs p expected"
  by (auto simp: check_expected_def expectation_met_def existing_live split: option.split)

definition write_ok :: "guardian_state \<Rightarrow> guardianPrincipal \<Rightarrow> GuardianPathWrite \<Rightarrow> guardianPhysicalPath \<Rightarrow> bool" where
  "write_ok s prin w m \<longleftrightarrow>
     mapGuardianLogicalPath (gw_LogicalPath w) = Inr m \<and> gp_RelativePath m \<noteq> '''' \<and>
     authorizeGuardianMutation (Some prin) (gp_LogicalPath m) False = None \<and>
     expectation_met (gs_versions s) (gp_LogicalPath m) (TrimSpace (gw_ExpectedVersionId w))"

lemma plan_writes_ok:
  assumes "plan_writes (gs_versions s) prin ws = Inr plans"
  shows "map up_write plans = ws" "list_all (\<lambda>plan. write_ok s prin (up_write plan) (up_mapped plan)) plans"
    "list_all (\<lambda>plan. up_changeType plan = (if files s (gp_LogicalPath (up_mapped plan)) = None then ADDED else MODIFIED)) plans"
proof -
  have "map up_write plans = ws \<and> list_all (\<lambda>plan. write_ok s prin (up_write plan) (up_mapped plan) \<and>
      up_changeType plan = (if files s (gp_LogicalPath (up_mapped plan)) = None then ADDED else MODIFIED)) plans"
    using assms
  proof (induction ws arbitrary: plans)
    case (Cons w ws)
    then obtain p ps where p: "plan_write (gs_versions s) prin w = Inr p" "plan_writes (gs_versions s) prin ws = Inr ps" "plans = p # ps"
      by (auto split: sum.splits)
    have "up_write p = w" "write_ok s prin w (up_mapped p)"
        "up_changeType p = (if files s (gp_LogicalPath (up_mapped p)) = None then ADDED else MODIFIED)"
      using p(1) check_expected_met
      by (auto simp: plan_write_def write_ok_def files_def existing_live split: sum.splits if_splits option.splits)
    then show ?case using Cons.IH [OF p(2)] p(3) by simp
  qed simp
  then show "map up_write plans = ws" "list_all (\<lambda>plan. write_ok s prin (up_write plan) (up_mapped plan)) plans"
    "list_all (\<lambda>plan. up_changeType plan = (if files s (gp_LogicalPath (up_mapped plan)) = None then ADDED else MODIFIED)) plans"
    by (auto simp: list_all_iff)
qed


lemma upsert_prepare_ok:
  assumes "upsert_prepare now s req = Inr pp"
  shows "authenticateGuardianMutation (gs_principals s) (gs_clients s) (ur_GuardianToken req) (map_option mc_PrincipalId (ur_Context req)) =
      Some (pp_principal pp)"
    "plan_writes (gs_versions s) (pp_principal pp) (ur_Writes req) = Inr (pp_plans pp)" "ur_Writes req \<noteq> []" "pp_now pp = now"
  using assms by (auto simp: upsert_prepare_def split: option.splits if_splits sum.splits)

lemma fold_plans:
  "fold (\<lambda>plan m. m(gp_LogicalPath (up_mapped plan) \<mapsto> gw_Content (up_write plan))) plans =
   fold (\<lambda>(w, m) f. f(gp_LogicalPath m \<mapsto> gw_Content w)) (zip (map up_write plans) (map up_mapped plans))"
  by (induction plans) (auto simp: fun_eq_iff)

lemma upsert_success:
  assumes "gs_ok s" "processGuardianUpsert env now s req = (Inr resp, s')"
  obtains prin ms where
    "authenticateGuardianMutation (gs_principals s) (gs_clients s) (ur_GuardianToken req) (map_option mc_PrincipalId (ur_Context req)) = Some prin"
    "list_all2 (write_ok s prin) (ur_Writes req) ms" "gs_ok s'"
    "files s' = fold (\<lambda>(w, m) f. f(gp_LogicalPath m \<mapsto> gw_Content w)) (zip (ur_Writes req) ms) (files s)"
    "map gv_LogicalPath (us_Versions resp) = map gp_LogicalPath ms"
    "map (\<lambda>e. (ce_LogicalPath e, ce_Type e)) (gs_events s') = map (\<lambda>e. (ce_LogicalPath e, ce_Type e)) (gs_events s) @
       map (\<lambda>m. (gp_LogicalPath m, if files s (gp_LogicalPath m) = None then ADDED else MODIFIED)) ms"
    "gs_principals s' = gs_principals s" "gs_clients s' = gs_clients s"
proof -
  obtain pp where pp: "upsert_prepare now s req = Inr pp" "upsert_finish env pp s = (Inr resp, s')"
    using assms(2) by (auto simp: processGuardianUpsert_def split: sum.splits)
  obtain versions where c: "upsert_commits pp (pp_plans pp) s = (versions, s')" "us_Versions resp = versions"
    using pp(2) by (auto simp: upsert_finish_def split: option.splits prod.splits)
  note P = upsert_prepare_ok [OF pp(1)] and E = upsert_commits_effect [OF assms(1) c(1)]
  note W = plan_writes_ok [OF P(2)]
  have l: "list_all2 (write_ok s (pp_principal pp)) (ur_Writes req) (map up_mapped (pp_plans pp))"
    unfolding W(1) [symmetric] using W(2) by (simp add: list_all2_map1 list_all2_map2 list_all2_same list_all_iff)
  have f: "files s' = fold (\<lambda>(w, m) f. f(gp_LogicalPath m \<mapsto> gw_Content w)) (zip (ur_Writes req) (map up_mapped (pp_plans pp))) (files s)"
    unfolding W(1) [symmetric] using E(4) by (simp add: fold_plans)
  have "map (\<lambda>plan. (gp_LogicalPath (up_mapped plan), up_changeType plan)) (pp_plans pp) =
      map (\<lambda>m. (gp_LogicalPath m, if files s (gp_LogicalPath m) = None then ADDED else MODIFIED)) (map up_mapped (pp_plans pp))"
    using W(3) by (auto simp: list_all_iff)
  then show ?thesis using that [OF P(1) l E(1) f _ _ E(2,3)] E(5,6) c(2) by simp
qed

lemma upsert_failure:
  assumes "processGuardianUpsert env now s req = (Inl e, s')" shows "s' = s"
  using assms by (auto simp: processGuardianUpsert_def upsert_finish_def split: sum.splits option.splits prod.splits)


text \<open>A router with one connected control-plane client.\<close>

definition race_state :: guardian_state where
  "race_state = \<lparr>gs_principals = newGuardianPrincipalStore,
     gs_clients = [(''guardian-a'', \<lparr>cs_principalID = ''guardian-a'', cs_role = ''control-plane'', cs_displayName = '''', cs_baseURL = '''', cs_authToken = ''t''\<rparr>)],
     gs_versions = newGuardianVersionStore, gs_events = []\<rparr>"

definition create_request :: "bytes \<Rightarrow> UpsertRequest" where
  "create_request content = \<lparr>ur_GuardianToken = ''t'',
     ur_Writes = [\<lparr>gw_LogicalPath = ''/partitions/p/f'', gw_Content = content, gw_ExpectedVersionId = ''absent''\<rparr>], ur_Context = None\<rparr>"

definition quiet_nodes :: node_env where
  "quiet_nodes = \<lparr>ne_upsert = (\<lambda>_. None), ne_healthy = True, ne_client = None, ne_kvs_client = (\<lambda>_. None), ne_attr = (\<lambda>_. None),
     ne_read = (\<lambda>_. Inl ''''), ne_delete = (\<lambda>_. None)\<rparr>"

lemma race_ok: "gs_ok race_state"
  using ps_ok_new store_inv_new by (simp add: gs_ok_def race_state_def)

lemma no_principals: "validateTokenForPrincipal newGuardianPrincipalStore tok i = None" "validateToken newGuardianPrincipalStore tok = None"
  by (simp_all add: validateTokenForPrincipal_def validateToken_def newGuardianPrincipalStore_def ps_list_def Let_def)

lemma map_pf: "mapGuardianLogicalPath ''/partitions/p/f'' =
    Inr (physical ''/partitions/p/f'' ''guardian/p'' ''f'')"
proof -
  have n: "normalizeGuardianLogicalPath ''/partitions/p/f'' = Inr ''/partitions/p/f''" by code_simp
  have "Split ''partitions/p/f'' slash = [''partitions'', ''p'', ''f'']" by code_simp
  moreover have "TrimPrefix ''/partitions/p/f'' ''/'' = ''partitions/p/f''" by code_simp
  moreover have "TrimSpace ''p'' = ''p''" "cleanGuardianRelativePath ''f'' = ''f''" by code_simp+
  ultimately show ?thesis by (simp add: mapGuardianLogicalPath_def n)
qed


text \<open>A single write that meets its expectation.\<close>

lemma prepare_one:
  assumes "authenticateGuardianMutation (gs_principals s) (gs_clients s) tok None = Some prin" "write_ok s prin w m"
  obtains pp plan where "upsert_prepare now s \<lparr>ur_GuardianToken = tok, ur_Writes = [w], ur_Context = None\<rparr> = Inr pp" "pp_plans pp = [plan]"
    "up_write plan = w" "up_mapped plan = m"
proof -
  have "\<exists>plan. plan_write (gs_versions s) prin w = Inr plan \<and> up_write plan = w \<and> up_mapped plan = m"
    using assms(2) by (auto simp: plan_write_def write_ok_def check_expected_met [symmetric])
  then obtain plan where "plan_write (gs_versions s) prin w = Inr plan" "up_write plan = w" "up_mapped plan = m" by blast
  then show ?thesis using assms(1) that by (simp add: upsert_prepare_def)
qed

lemma finish_one:
  assumes "gs_ok s" "pp_plans pp = [plan]" "ne_upsert env = (\<lambda>_. None)"
  obtains resp s' where "upsert_finish env pp s = (Inr resp, s')" "length (us_Versions resp) = 1" "gs_ok s'"
    "files s' = (files s)(gp_LogicalPath (up_mapped plan) \<mapsto> gw_Content (up_write plan))"
    "gs_principals s' = gs_principals s" "gs_clients s' = gs_clients s"
proof -
  obtain versions s' where c: "upsert_commits pp [plan] s = (versions, s')" by (cases "upsert_commits pp [plan] s")
  note E = upsert_commits_effect [OF assms(1) c]
  have "length versions = 1" using arg_cong [OF E(5), of length] by simp
  then show ?thesis using that [of "\<lparr>us_BatchRevisionId = guardianBatchRevisionID (pp_now pp), us_Versions = versions\<rparr>" s'] E assms(2,3) c
    by (simp add: upsert_finish_def)
qed

lemma upsert_one:
  assumes "gs_ok s" "authenticateGuardianMutation (gs_principals s) (gs_clients s) tok None = Some prin" "write_ok s prin w m"
    "ne_upsert env = (\<lambda>_. None)"
  obtains resp s' where "processGuardianUpsert env now s \<lparr>ur_GuardianToken = tok, ur_Writes = [w], ur_Context = None\<rparr> = (Inr resp, s')"
    "length (us_Versions resp) = 1" "gs_ok s'" "files s' = (files s)(gp_LogicalPath m \<mapsto> gw_Content w)"
    "gs_principals s' = gs_principals s" "gs_clients s' = gs_clients s"
proof -
  obtain pp plan where p: "upsert_prepare now s \<lparr>ur_GuardianToken = tok, ur_Writes = [w], ur_Context = None\<rparr> = Inr pp"
      "pp_plans pp = [plan]" "up_write plan = w" "up_mapped plan = m"
    by (rule prepare_one [OF assms(2,3)])
  obtain resp s' where "upsert_finish env pp s = (Inr resp, s')" "length (us_Versions resp) = 1" "gs_ok s'"
    "files s' = (files s)(gp_LogicalPath (up_mapped plan) \<mapsto> gw_Content (up_write plan))"
    "gs_principals s' = gs_principals s" "gs_clients s' = gs_clients s"
    by (rule finish_one [OF assms(1) p(2) assms(4)])
  then show ?thesis using that p by (simp add: processGuardianUpsert_def)
qed

lemma race_principal:
  "\<exists>prin. authenticateGuardianMutation (gs_principals race_state) (gs_clients race_state) ''t'' None = Some prin \<and>
     write_ok race_state prin \<lparr>gw_LogicalPath = ''/partitions/p/f'', gw_Content = content, gw_ExpectedVersionId = ''absent''\<rparr>
       (physical ''/partitions/p/f'' ''guardian/p'' ''f'')"
proof -
  have "TrimSpace ''absent'' = ''absent''" by code_simp
  moreover have "live newGuardianVersionStore p = None" for p
    by (simp add: live_def currentVersion_def newGuardianVersionStore_def)
  ultimately show ?thesis
    by (auto simp: race_state_def authenticateGuardianMutation_def authenticateGuardianToken_def no_principals first_opt_def
        write_ok_def map_pf physical_def authorizeGuardianMutation_def client_principal_def Let_def expectation_met_def)
qed


text \<open>C34: The expectation of a write is checked against the version store before the nodes are written and not again when
  the version is committed. Two requests that both create the same path therefore both succeed
  when the second runs between the two phases of the first, and the file the second created is replaced.\<close>

theorem upsert_check_then_act:
  "\<exists>pp resp1 s1 resp2 s2.
     upsert_prepare 1 race_state (create_request [1]) = Inr pp \<and>
     processGuardianUpsert quiet_nodes 2 race_state (create_request [2]) = (Inr resp2, s1) \<and> files s1 ''/partitions/p/f'' = Some [2] \<and>
     upsert_finish quiet_nodes pp s1 = (Inr resp1, s2) \<and> files s2 ''/partitions/p/f'' = Some [1] \<and>
     list_all (\<lambda>w. gw_ExpectedVersionId w = ''absent'') (ur_Writes (create_request [1]) @ ur_Writes (create_request [2]))"
proof -
  let ?m = "physical ''/partitions/p/f'' ''guardian/p'' ''f''"
  obtain p1 where p1: "authenticateGuardianMutation (gs_principals race_state) (gs_clients race_state) ''t'' None = Some p1"
     "write_ok race_state p1 \<lparr>gw_LogicalPath = ''/partitions/p/f'', gw_Content = [1], gw_ExpectedVersionId = ''absent''\<rparr> ?m"
    using race_principal [of "[1]"] by blast
  obtain p2 where p2: "authenticateGuardianMutation (gs_principals race_state) (gs_clients race_state) ''t'' None = Some p2"
     "write_ok race_state p2 \<lparr>gw_LogicalPath = ''/partitions/p/f'', gw_Content = [2], gw_ExpectedVersionId = ''absent''\<rparr> ?m"
    using race_principal [of "[2]"] by blast
  have q: "ne_upsert quiet_nodes = (\<lambda>_. None)" by (simp add: quiet_nodes_def)
  obtain pp plan where pp: "upsert_prepare 1 race_state (create_request [1]) = Inr pp" "pp_plans pp = [plan]"
      "gw_Content (up_write plan) = [1]" "up_mapped plan = ?m"
    unfolding create_request_def by (rule prepare_one [OF p1, where now = 1]) auto
  obtain resp2 s1 where s1: "processGuardianUpsert quiet_nodes 2 race_state (create_request [2]) = (Inr resp2, s1)" "gs_ok s1"
      "files s1 = (files race_state)(gp_LogicalPath ?m \<mapsto> [2])"
    unfolding create_request_def by (rule upsert_one [OF race_ok p2 q, where now = 2]) auto
  obtain resp1 s2 where s2: "upsert_finish quiet_nodes pp s1 = (Inr resp1, s2)" "files s2 = (files s1)(gp_LogicalPath ?m \<mapsto> [1])"
    by (rule finish_one [OF s1(2) pp(2) q]) (simp add: pp)
  have "gp_LogicalPath ?m = ''/partitions/p/f''" by (simp add: physical_def)
  then show ?thesis using pp(1) s1 s2 by (auto simp: create_request_def)
qed

end
