(* ===== verification/PipelineConfig.thy ===== *)
theory PipelineConfig
  imports GoPath GoUtf8 "HOL-Library.List_Lexorder" "HOL-Library.Char_ord"
begin

section \<open>Pipeline configurations\<close>

text \<open>
  The pipeline documents of \<^verbatim>\<open>src/internal/router/pipeline/types.go\<close>, their validation, the
  matching of webhook events (\<^verbatim>\<open>config.go\<close>), and the packages affected by a set of changed files
  (\<^verbatim>\<open>affected.go\<close>). YAML decoding is not modelled. \<open>filepath.Clean\<close> on Unix is \<open>path.Clean\<close>.
\<close>

datatype TriggerType = TriggerPush | TriggerPullRequest | TriggerTag | TriggerManual | TriggerOther string

record BranchFilter =
  bf_Branches :: "string list"
  bf_PathsIgnore :: "string list"
  bf_Paths :: "string list"

record TriggerConfig =
  on_Push :: "BranchFilter option"
  on_PullRequest :: "BranchFilter option"
  on_Tags :: "string list"

record ConcurrencyConfig =
  cc_Group :: string
  cc_CancelInProgress :: bool

text \<open>A matrix variable is an expression, unless it is empty, or a list of values.\<close>

record MatrixVar =
  mv_Static :: "string list"
  mv_Expr :: string

record StrategyConfig =
  sc_Matrix :: "(string, MatrixVar) gomap"
  sc_MaxParallel :: int

record StepConfig =
  st_Name :: string
  st_Uses :: string
  st_Run :: string
  st_With :: "(string, string) gomap"
  st_ID :: string
  st_Shell :: string

record JobConfig =
  jc_Needs :: "string list"
  jc_If :: string
  jc_RunsOn :: string
  jc_Strategy :: "StrategyConfig option"
  jc_TimeoutMinutes :: int
  jc_Steps :: "StepConfig list"

record PipelineConfig =
  pc_Name :: string
  pc_On :: TriggerConfig
  pc_Concurrency :: "ConcurrencyConfig option"
  pc_Jobs :: "(string, JobConfig) gomap"
  pc_SourceDir :: string

record WebhookEvent =
  ev_EventType :: TriggerType
  ev_CommitSHA :: string
  ev_Branch :: string
  ev_Tag :: string
  ev_PRNumber :: int
  ev_RepoURL :: string
  ev_Sender :: string
  ev_ChangedFiles :: "string list"

subsection \<open>Validation\<close>

datatype config_error =
    NameRequired
  | JobRequired
  | StepRequired string
  | UnknownRunner string string
  | RunnerRequired string
  | UnknownNeed string string
  | CycleDetected string string

definition AllRunnerTypes :: "string list" where
  "AllRunnerTypes = [''builder'', ''docker'', ''deployer'', ''lambda'', ''bazel'']"

definition IsValidRunnerType :: "string \<Rightarrow> bool" where
  "IsValidRunnerType runner \<longleftrightarrow> runner \<in> set AllRunnerTypes"

definition job_Validate :: "string \<Rightarrow> JobConfig \<Rightarrow> config_error option" where
  "job_Validate name j =
     (if jc_Steps j = [] then Some (StepRequired name)
      else if jc_RunsOn j \<noteq> '''' \<and> \<not> IsValidRunnerType (jc_RunsOn j) then Some (UnknownRunner name (jc_RunsOn j))
      else None)"

definition HasRunner :: "JobConfig \<Rightarrow> bool" where
  "HasRunner j \<longleftrightarrow> jc_RunsOn j \<noteq> ''''"

fun validate_jobs :: "(string \<times> JobConfig) list \<Rightarrow> config_error option" where
  "validate_jobs [] = None"
| "validate_jobs ((name, job) # js) =
     (case job_Validate name job of
        Some e \<Rightarrow> Some e
      | None \<Rightarrow> if \<not> HasRunner job then Some (RunnerRequired name) else validate_jobs js)"

text \<open>The needs of a job; a missing job is the zero value, which needs nothing.\<close>

definition needs :: "(string, JobConfig) gomap \<Rightarrow> string \<Rightarrow> string list" where
  "needs jobs name = (case gm_get jobs name of None \<Rightarrow> [] | Some j \<Rightarrow> jc_Needs j)"

text \<open>The three-colour depth-first search: \<open>dfs\<close> of \<open>detectCycle\<close> with its loop over the needs. The
  recursion is bounded by \<open>fuel\<close>; \<open>None\<close> means that it ran out.\<close>

datatype colour = White | Gray | Black

fun dfs :: "nat \<Rightarrow> (string, JobConfig) gomap \<Rightarrow> string \<Rightarrow> (string \<Rightarrow> colour) \<Rightarrow>
    (string \<times> string, string \<Rightarrow> colour) result option"
  and dfs_needs :: "nat \<Rightarrow> (string, JobConfig) gomap \<Rightarrow> string \<Rightarrow> string list \<Rightarrow> (string \<Rightarrow> colour) \<Rightarrow>
    (string \<times> string, string \<Rightarrow> colour) result option"
where
  "dfs 0 jobs name visited = None"
| "dfs (Suc fuel) jobs name visited =
     (case dfs_needs fuel jobs name (needs jobs name) (visited(name := Gray)) of
        Some (Inr visited) \<Rightarrow> Some (Inr (visited(name := Black)))
      | r \<Rightarrow> r)"
| "dfs_needs fuel jobs name [] visited = Some (Inr visited)"
| "dfs_needs fuel jobs name (need # ns) visited =
     (case visited need of
        Gray \<Rightarrow> Some (Inl (name, need))
      | White \<Rightarrow>
          (case dfs fuel jobs need visited of
             Some (Inr visited) \<Rightarrow> dfs_needs fuel jobs name ns visited
           | r \<Rightarrow> r)
      | Black \<Rightarrow> dfs_needs fuel jobs name ns visited)"

fun dfs_all :: "nat \<Rightarrow> (string, JobConfig) gomap \<Rightarrow> string list \<Rightarrow> (string \<Rightarrow> colour) \<Rightarrow>
    (string \<times> string, string \<Rightarrow> colour) result option"
where
  "dfs_all fuel jobs [] visited = Some (Inr visited)"
| "dfs_all fuel jobs (name # names) visited =
     (if visited name = White then
        (case dfs fuel jobs name visited of
           Some (Inr visited) \<Rightarrow> dfs_all fuel jobs names visited
         | r \<Rightarrow> r)
      else dfs_all fuel jobs names visited)"

definition detectCycle :: "(string, JobConfig) gomap \<Rightarrow> (string \<times> string) option option" where
  "detectCycle jobs =
     (case dfs_all (length jobs + 1) jobs (map fst jobs) (\<lambda>_. White) of
        None \<Rightarrow> None
      | Some (Inl edge) \<Rightarrow> Some (Some edge)
      | Some (Inr _) \<Rightarrow> Some None)"

definition unknown_needs :: "(string, JobConfig) gomap \<Rightarrow> (string \<times> string) list" where
  "unknown_needs jobs =
     concat (map (\<lambda>(name, job). map (Pair name) (filter (\<lambda>need. gm_get jobs need = None) (jc_Needs job))) jobs)"

definition ValidateDAG :: "(string, JobConfig) gomap \<Rightarrow> config_error option option" where
  "ValidateDAG jobs =
     (case unknown_needs jobs of
        (name, need) # _ \<Rightarrow> Some (Some (UnknownNeed name need))
      | [] \<Rightarrow> map_option (map_option (\<lambda>(a, b). CycleDetected a b)) (detectCycle jobs))"

definition config_Validate :: "PipelineConfig \<Rightarrow> config_error option option" where
  "config_Validate c =
     (if pc_Name c = '''' then Some (Some NameRequired)
      else if pc_Jobs c = [] then Some (Some JobRequired)
      else case validate_jobs (pc_Jobs c) of
        Some e \<Rightarrow> Some (Some e)
      | None \<Rightarrow> ValidateDAG (pc_Jobs c))"

subsection \<open>The graph of jobs\<close>

definition EntrypointJobs :: "PipelineConfig \<Rightarrow> string list" where
  "EntrypointJobs c = map fst (filter (\<lambda>(_, job). jc_Needs job = []) (pc_Jobs c))"

definition DownstreamJobs :: "PipelineConfig \<Rightarrow> string \<Rightarrow> string list" where
  "DownstreamJobs c jobName =
     concat (map (\<lambda>(name, job). map (\<lambda>_. name) (filter (\<lambda>need. need = jobName) (jc_Needs job))) (pc_Jobs c))"

definition AllNeedsSatisfied :: "PipelineConfig \<Rightarrow> string \<Rightarrow> string set \<Rightarrow> bool" where
  "AllNeedsSatisfied c jobName completed =
     (case gm_get (pc_Jobs c) jobName of
        None \<Rightarrow> False
      | Some job \<Rightarrow> list_all (\<lambda>need. need \<in> completed) (jc_Needs job))"

subsection \<open>Globs\<close>

fun glob_parts :: "string \<Rightarrow> string list \<Rightarrow> bool" where
  "glob_parts rest [] = True"
| "glob_parts rest (part # parts) =
     (if part = '''' then (if parts = [] then True else glob_parts rest parts)
      else case Index rest part of
        None \<Rightarrow> False
      | Some i \<Rightarrow> glob_parts (drop (i + length part) rest) parts)"

definition matchGlob :: "string \<Rightarrow> string \<Rightarrow> bool" where
  "matchGlob pattern value =
     (if pattern = ''*'' then True
      else if \<not> Contains pattern ''*'' then pattern = value
      else glob_parts value (Split pattern CHR ''*''))"

definition matchTag :: "string \<Rightarrow> string \<Rightarrow> bool" where
  "matchTag pattern tag = matchGlob pattern tag"

text \<open>The regular expression \<open>pathGlobMatch\<close> builds, as a list of its parts, and its matching from the
  start to the end of the text. Patterns come from YAML and are valid UTF-8.\<close>

datatype re_part = ReAny | ReSegment | ReOne | ReRune nat

fun re_of :: "nat list \<Rightarrow> re_part list" where
  "re_of [] = []"
| "re_of (c # cs) =
     (if c = 42 then
        (case cs of
           d # ds \<Rightarrow> if d = 42 then ReAny # re_of ds else ReSegment # re_of cs
         | [] \<Rightarrow> [ReSegment])
      else if c = 63 then ReOne # re_of cs
      else ReRune c # re_of cs)"

function re_match :: "re_part list \<Rightarrow> nat list \<Rightarrow> bool" where
  "re_match [] t = (t = [])"
| "re_match (ReRune c # r) t = (case t of d # ds \<Rightarrow> d = c \<and> re_match r ds | [] \<Rightarrow> False)"
| "re_match (ReOne # r) t = (case t of d # ds \<Rightarrow> d \<noteq> 47 \<and> re_match r ds | [] \<Rightarrow> False)"
| "re_match (ReSegment # r) t =
     (re_match r t \<or> (case t of d # ds \<Rightarrow> d \<noteq> 47 \<and> re_match (ReSegment # r) ds | [] \<Rightarrow> False))"
| "re_match (ReAny # r) t =
     (re_match r t \<or> (case t of d # ds \<Rightarrow> d \<noteq> 10 \<and> re_match (ReAny # r) ds | [] \<Rightarrow> False))"
  by pat_completeness auto
termination
  by (relation "measure (\<lambda>(r, t). length r + length t)") auto

definition pathGlobMatch :: "string \<Rightarrow> string \<Rightarrow> bool" where
  "pathGlobMatch pattern filename =
     (let pattern = TrimSpace pattern in
      if pattern = '''' then False
      else if pattern = ''**'' then True
      else re_match (re_of (runes pattern)) (runes filename))"

definition pathMatchesAny :: "string \<Rightarrow> string list \<Rightarrow> bool" where
  "pathMatchesAny filename patterns = list_ex (\<lambda>pattern. pathGlobMatch pattern filename) patterns"

subsection \<open>Events\<close>

definition isPathAffected :: "string \<Rightarrow> string \<Rightarrow> bool" where
  "isPathAffected filename pre =
     (let pre = path_Clean pre; filename = path_Clean filename in
      if filename = pre then True else HasPrefix filename (pre @ ''/''))"

definition matchesBranch :: "BranchFilter \<Rightarrow> string \<Rightarrow> bool" where
  "matchesBranch f branch = (if bf_Branches f = [] then True else list_ex (\<lambda>pattern. matchGlob pattern branch) (bf_Branches f))"

definition matchesPaths :: "BranchFilter \<Rightarrow> string list \<Rightarrow> bool" where
  "matchesPaths f changedFiles =
     (if bf_Paths f = [] \<and> bf_PathsIgnore f = [] then True
      else if changedFiles = [] then True
      else list_ex (\<lambda>filename. \<not> pathMatchesAny filename (bf_PathsIgnore f) \<and>
        (bf_Paths f = [] \<or> pathMatchesAny filename (bf_Paths f))) changedFiles)"

definition filter_matches :: "BranchFilter option \<Rightarrow> WebhookEvent \<Rightarrow> bool" where
  "filter_matches f event =
     (case f of None \<Rightarrow> False | Some f \<Rightarrow> matchesBranch f (ev_Branch event) \<and> matchesPaths f (ev_ChangedFiles event))"

definition in_source_dir :: "PipelineConfig \<Rightarrow> WebhookEvent \<Rightarrow> bool" where
  "in_source_dir c event =
     (if pc_SourceDir c \<noteq> '''' \<and> pc_SourceDir c \<noteq> ''.'' \<and> ev_ChangedFiles event \<noteq> []
      then list_ex (\<lambda>filename. isPathAffected filename (pc_SourceDir c)) (ev_ChangedFiles event)
      else True)"

definition MatchEvent :: "PipelineConfig \<Rightarrow> WebhookEvent \<Rightarrow> bool" where
  "MatchEvent c event =
     (case ev_EventType event of
        TriggerPush \<Rightarrow> filter_matches (on_Push (pc_On c)) event \<and> in_source_dir c event
      | TriggerPullRequest \<Rightarrow> filter_matches (on_PullRequest (pc_On c)) event \<and> in_source_dir c event
      | TriggerTag \<Rightarrow> list_ex (\<lambda>pattern. matchTag pattern (ev_Tag event)) (on_Tags (pc_On c)) \<and> in_source_dir c event
      | TriggerManual \<Rightarrow> True
      | TriggerOther _ \<Rightarrow> False)"

subsection \<open>Affected packages\<close>

record PackageInfo =
  pk_Path :: string
  pk_Deps :: "string list"
  pk_Build :: string
  pk_Test :: string

type_synonym PackageMeta = "(string, PackageInfo) gomap"

fun owner_scan :: "string \<Rightarrow> string \<Rightarrow> (string \<times> PackageInfo) list \<Rightarrow> string \<Rightarrow> int \<Rightarrow> string" where
  "owner_scan depPath self [] best bestLen = best"
| "owner_scan depPath self ((name, pkg) # ps) best bestLen =
     (if name = self then owner_scan depPath self ps best bestLen
      else let cleanPath = path_Clean (pk_Path pkg) in
        if isPathAffected depPath cleanPath \<and> int (length cleanPath) > bestLen
        then owner_scan depPath self ps name (int (length cleanPath))
        else owner_scan depPath self ps best bestLen)"

definition dependencyOwner :: "PackageMeta \<Rightarrow> string \<Rightarrow> string \<Rightarrow> string option" where
  "dependencyOwner packages depPath self =
     (let best = owner_scan (path_Clean depPath) self packages '''' (-1) in if best \<noteq> '''' then Some best else None)"

text \<open>The inner map of the edges is a set of names, kept as a list without repetitions.\<close>

definition add_edge :: "PackageMeta \<Rightarrow> string \<times> string \<Rightarrow> (string, string list) gomap \<Rightarrow> (string, string list) gomap" where
  "add_edge packages = (\<lambda>(pkgName, dep) edges.
     (case dependencyOwner packages dep pkgName of
        None \<Rightarrow> edges
      | Some owner \<Rightarrow>
          gm_set owner (List.insert pkgName (case gm_get edges owner of None \<Rightarrow> [] | Some ds \<Rightarrow> ds)) edges))"

definition dep_pairs :: "PackageMeta \<Rightarrow> (string \<times> string) list" where
  "dep_pairs packages = concat (map (\<lambda>(name, pkg). map (Pair name) (pk_Deps pkg)) packages)"

definition buildReverseDependencyEdges :: "PackageMeta \<Rightarrow> (string, string list) gomap" where
  "buildReverseDependencyEdges packages = fold (add_edge packages) (dep_pairs packages) []"

definition directly_affected :: "string list \<Rightarrow> PackageInfo \<Rightarrow> bool" where
  "directly_affected changedFiles pkg =
     list_ex (\<lambda>filename. let filename = path_Clean filename in
       isPathAffected filename (pk_Path pkg) \<or> list_ex (isPathAffected filename) (pk_Deps pkg)) changedFiles"

definition direct_packages :: "PackageMeta \<Rightarrow> string list \<Rightarrow> string list" where
  "direct_packages packages changedFiles =
     remdups (map fst (filter (\<lambda>(_, pkg). directly_affected changedFiles pkg) packages))"

definition dependents :: "(string, string list) gomap \<Rightarrow> string \<Rightarrow> string list" where
  "dependents edges current = (case gm_get edges current of None \<Rightarrow> [] | Some ds \<Rightarrow> ds)"

text \<open>The loop over the dependents of one package: those not seen yet are marked and queued.\<close>

definition new_dependents :: "string list \<Rightarrow> string list \<Rightarrow> string list" where
  "new_dependents affected ds = remdups (filter (\<lambda>d. d \<notin> set affected) ds)"

definition all_dependents :: "(string, string list) gomap \<Rightarrow> string set" where
  "all_dependents edges = (\<Union>(_, ds) \<in> set edges. set ds)"

lemma dependents_all: "set (dependents edges x) \<subseteq> all_dependents edges"
  by (cases "gm_get edges x") (auto simp: dependents_def all_dependents_def dest!: map_of_SomeD)

lemma finite_all_dependents [simp]: "finite (all_dependents edges)"
  by (auto simp: all_dependents_def)

function bfs :: "(string, string list) gomap \<Rightarrow> string list \<Rightarrow> string list \<Rightarrow> string list" where
  "bfs edges [] affected = affected"
| "bfs edges (current # queue) affected =
     (let fresh = new_dependents affected (dependents edges current) in bfs edges (queue @ fresh) (affected @ fresh))"
  by pat_completeness auto
termination
proof (relation "measures [\<lambda>(edges, queue, affected). card (all_dependents edges - set affected), \<lambda>(edges, queue, affected). length queue]",
    goal_cases)
  case (2 edges current queue affected fresh)
  show ?case
  proof (cases "fresh = []")
    case False
    have "set fresh \<subseteq> all_dependents edges - set affected"
      using dependents_all [of edges current] 2 by (auto simp: new_dependents_def)
    with False have "all_dependents edges - set (affected @ fresh) \<subset> all_dependents edges - set affected"
      by (cases fresh) auto
    then show ?thesis by (simp add: psubset_card_mono)
  qed simp
qed simp

definition DetectAffectedPackages :: "PackageMeta option \<Rightarrow> string list \<Rightarrow> string list" where
  "DetectAffectedPackages meta changedFiles =
     (case meta of
        None \<Rightarrow> []
      | Some packages \<Rightarrow>
          if packages = [] \<or> changedFiles = [] then []
          else let depEdges = buildReverseDependencyEdges packages;
                   direct = direct_packages packages changedFiles
            in if direct = [] then [] else sort_slice (<) (bfs depEdges direct direct))"

definition ResolveAffectedBuildTargets :: "PackageMeta \<Rightarrow> string list \<Rightarrow> string list" where
  "ResolveAffectedBuildTargets packages affected =
     List.map_filter (\<lambda>name. case gm_get packages name of
        None \<Rightarrow> None | Some pkg \<Rightarrow> if pk_Build pkg \<noteq> '''' then Some (pk_Build pkg) else None) affected"

subsection \<open>Properties of the affected packages\<close>

definition depends :: "PackageMeta \<Rightarrow> (string \<times> string) set" where
  "depends packages = {(owner, name). \<exists>dep. (name, dep) \<in> set (dep_pairs packages) \<and> dependencyOwner packages dep name = Some owner}"

lemma edges_fold:
  "y \<in> set (dependents (fold (add_edge packages) ps edges) x) \<longleftrightarrow>
     y \<in> set (dependents edges x) \<or> (\<exists>dep. (y, dep) \<in> set ps \<and> dependencyOwner packages dep y = Some x)"
proof (induction ps arbitrary: edges)
  case (Cons p ps)
  obtain n d where p: "p = (n, d)" by (cases p)
  have "y \<in> set (dependents (add_edge packages p edges) x) \<longleftrightarrow>
      y \<in> set (dependents edges x) \<or> y = n \<and> dependencyOwner packages d n = Some x"
  proof (cases "dependencyOwner packages d n")
    case (Some owner)
    then have "dependents (add_edge packages p edges) x =
        (if x = owner then List.insert n (dependents edges owner) else dependents edges x)"
      by (simp add: p add_edge_def dependents_def)
    with Some show ?thesis by auto
  qed (simp add: p add_edge_def)
  with Cons.IH [of "add_edge packages p edges"] p show ?case by auto
qed simp

lemma edges_depends: "y \<in> set (dependents (buildReverseDependencyEdges packages) x) \<longleftrightarrow> (x, y) \<in> depends packages"
proof -
  have "dependents [] x = []" by (simp add: dependents_def)
  then show ?thesis by (simp add: buildReverseDependencyEdges_def edges_fold depends_def)
qed

lemma bfs_correct:
  assumes "distinct affected" "set queue \<subseteq> set affected"
    and "\<And>x y. x \<in> set affected \<Longrightarrow> x \<notin> set queue \<Longrightarrow> y \<in> set (dependents edges x) \<Longrightarrow> y \<in> set affected"
  shows "distinct (bfs edges queue affected) \<and>
    set (bfs edges queue affected) = {(x, y). y \<in> set (dependents edges x)}\<^sup>* `` set affected"
  using assms
proof (induction edges queue affected rule: bfs.induct)
  case (1 edges affected)
  let ?R = "{(x, y). y \<in> set (dependents edges x)}"
  have "?R `` set affected \<subseteq> set affected" using 1(3) by auto
  then show ?case using 1(1) by (simp add: Image_closed_trancl)
next
  case (2 edges current queue affected)
  let ?R = "{(x, y). y \<in> set (dependents edges x)}"
  let ?fresh = "new_dependents affected (dependents edges current)"
  have new: "set ?fresh = set (dependents edges current) - set affected" "distinct ?fresh" by (auto simp: new_dependents_def)
  have "current \<in> set affected" using 2(3) by simp
  then have "?R\<^sup>* `` set (affected @ ?fresh) = ?R\<^sup>* `` set affected"
    using new(1) by (auto intro: converse_rtrancl_into_rtrancl)
  moreover have "distinct (affected @ ?fresh)" "set (queue @ ?fresh) \<subseteq> set (affected @ ?fresh)"
    using 2(2,3) new by auto
  moreover have "y \<in> set (affected @ ?fresh)"
    if "x \<in> set (affected @ ?fresh)" "x \<notin> set (queue @ ?fresh)" "y \<in> set (dependents edges x)" for x y
    using that 2(4) [of x y] new(1) by (cases "x = current") auto
  ultimately show ?case using 2(1) [OF refl] by (simp add: Let_def)
qed


text \<open>The owner of a dependency path: another package, with the longest path above it.\<close>

lemma owner_scan_best:
  assumes "owner_scan depPath self ps best bestLen = r" "r \<noteq> best"
  shows "\<exists>pkg. (r, pkg) \<in> set ps \<and> r \<noteq> self \<and> isPathAffected depPath (path_Clean (pk_Path pkg)) \<and>
    int (length (path_Clean (pk_Path pkg))) > bestLen"
  using assms
  by (induction depPath self ps best bestLen rule: owner_scan.induct) (force simp: Let_def split: if_splits)+


subsection \<open>Properties of the cycle check\<close>

definition need_edges :: "(string, JobConfig) gomap \<Rightarrow> (string \<times> string) set" where
  "need_edges jobs = {(name, need). need \<in> set (needs jobs name)}"

definition whites :: "(string, JobConfig) gomap \<Rightarrow> (string \<Rightarrow> colour) \<Rightarrow> nat" where
  "whites jobs v = card {n \<in> fst ` set jobs. v n = White}"

text \<open>The finished jobs are closed under needs and have no cycle.\<close>

definition finished_ok :: "(string, JobConfig) gomap \<Rightarrow> (string \<Rightarrow> colour) \<Rightarrow> bool" where
  "finished_ok jobs v \<longleftrightarrow>
     (\<forall>b m. v b = Black \<longrightarrow> m \<in> set (needs jobs b) \<longrightarrow> v m = Black) \<and>
     acyclic {(a, b) \<in> need_edges jobs. v a = Black}"

text \<open>What a search started at a job on top of a path of unfinished jobs gives.\<close>

definition search_ok :: "(string, JobConfig) gomap \<Rightarrow> string set \<Rightarrow> (string \<Rightarrow> colour) \<Rightarrow>
    (string \<times> string, string \<Rightarrow> colour) result option \<Rightarrow> bool"
where
  "search_ok jobs done v r \<longleftrightarrow>
     (case r of
        None \<Rightarrow> False
      | Some (Inl (a, b)) \<Rightarrow> (a, b) \<in> need_edges jobs \<and> (b, a) \<in> (need_edges jobs)\<^sup>*
      | Some (Inr v') \<Rightarrow> finished_ok jobs v' \<and> (\<forall>x. v x = Black \<or> x \<in> done \<longrightarrow> v' x = Black) \<and>
          (\<forall>x. v' x = Gray \<longleftrightarrow> v x = Gray))"

lemma search_ok_None [simp]: "\<not> search_ok jobs X v None"
  by (simp add: search_ok_def)

lemma whites_mono:
  assumes "\<And>x. v' x = White \<Longrightarrow> v x = White" shows "whites jobs v' \<le> whites jobs v"
  unfolding whites_def using assms by (intro card_mono) auto

lemma whites_gray:
  assumes "v n = White" "n \<in> fst ` set jobs" shows "whites jobs (v(n := Gray)) < whites jobs v"
  unfolding whites_def using assms by (intro psubset_card_mono) auto

lemma search_whites:
  assumes "search_ok jobs X v (Some (Inr v'))" shows "whites jobs v' \<le> whites jobs v"
proof (rule whites_mono)
  fix x assume "v' x = White"
  with assms show "v x = White" by (cases "v x") (auto simp: search_ok_def, metis colour.distinct)
qed

lemma finished_ok_cong: "(\<And>x. v' x = Black \<longleftrightarrow> v x = Black) \<Longrightarrow> finished_ok jobs v' = finished_ok jobs v"
  by (simp add: finished_ok_def)

text \<open>Finishing a job whose needs are finished.\<close>

lemma finish_job:
  assumes "finished_ok jobs v" "v n = Gray" "\<And>m. m \<in> set (needs jobs n) \<Longrightarrow> v m = Black"
  shows "finished_ok jobs (v(n := Black))"
proof -
  let ?R = "{(a, b) \<in> need_edges jobs. v a = Black}" and ?S = "{(a, b) \<in> need_edges jobs. (v(n := Black)) a = Black}"
  have target: "v b = Black" if "(a, b) \<in> ?S" for a b
    using that assms by (cases "a = n") (auto simp: finished_ok_def need_edges_def)
  have step: "(a, b) \<in> ?R" if "(a, b) \<in> ?S" "v a = Black" for a b using that by simp
  have walk: "v y = Black \<and> (v x = Black \<longrightarrow> (x, y) \<in> ?R\<^sup>+)" if "(x, y) \<in> ?S\<^sup>+" for x y
    using that
  proof (induction rule: trancl_induct)
    case (base y)
    then show ?case using target step by blast
  next
    case (step y z)
    then have "(y, z) \<in> ?R" "v z = Black" using target by auto
    then show ?case using step.IH by (meson trancl.trancl_into_trancl)
  qed
  have "acyclic ?R" using assms(1) by (simp add: finished_ok_def)
  then have "acyclic ?S" using walk unfolding acyclic_def by blast
  then show ?thesis using assms unfolding finished_ok_def by auto
qed

lemma needs_unknown: "n \<notin> fst ` set jobs \<Longrightarrow> needs jobs n = []"
  by (simp add: needs_def map_of_eq_None_iff [symmetric])

lemma dfs_correct:
  "v n = White \<Longrightarrow> finished_ok jobs v \<Longrightarrow> whites jobs v < fuel \<Longrightarrow>
     (\<And>g. v g = Gray \<Longrightarrow> (g, n) \<in> (need_edges jobs)\<^sup>*) \<Longrightarrow> search_ok jobs {n} v (dfs fuel jobs n v)"
  "v n = Gray \<Longrightarrow> finished_ok jobs v \<Longrightarrow> whites jobs v < fuel \<or> ns = [] \<Longrightarrow> set ns \<subseteq> set (needs jobs n) \<Longrightarrow>
     (\<And>g. v g = Gray \<Longrightarrow> (g, n) \<in> (need_edges jobs)\<^sup>*) \<Longrightarrow> search_ok jobs (set ns) v (dfs_needs fuel jobs n ns v)"
proof (induction fuel jobs n v and fuel jobs n ns v rule: dfs_dfs_needs.induct)
  case (2 fuel jobs name v)
  let ?v = "v(name := Gray)"
  have "finished_ok jobs ?v" using 2(2,3) finished_ok_cong [of ?v v] by auto
  moreover have "whites jobs ?v < fuel \<or> needs jobs name = []"
    using whites_gray [of v name jobs] needs_unknown [of name jobs] 2(2,4) by fastforce
  moreover have "(g, name) \<in> (need_edges jobs)\<^sup>*" if "?v g = Gray" for g using that 2(5) by (auto split: if_splits)
  ultimately have IH: "search_ok jobs (set (needs jobs name)) ?v (dfs_needs fuel jobs name (needs jobs name) ?v)"
    using 2(1) unfolding fun_upd_def by simp
  show ?case
  proof (cases "dfs_needs fuel jobs name (needs jobs name) ?v")
    case (Some r)
    show ?thesis
    proof (cases r)
      case (Inl e)
      then show ?thesis using IH Some by (auto simp: search_ok_def)
    next
      case (Inr w)
      then have w: "finished_ok jobs w" "w name = Gray" "\<And>m. m \<in> set (needs jobs name) \<Longrightarrow> w m = Black"
        and w': "\<And>x. ?v x = Black \<Longrightarrow> w x = Black" "\<And>x. w x = Gray \<longleftrightarrow> ?v x = Gray"
        using IH Some by (auto simp: search_ok_def)
      then show ?thesis using finish_job [OF w] Some Inr 2(2) by (auto simp: search_ok_def split: if_splits)
    qed
  qed (use IH in simp)
next
  case (4 fuel jobs name need ns v)
  have edge: "(name, need) \<in> need_edges jobs" using 4(7) by (simp add: need_edges_def)
  have rest: "search_ok jobs (insert need (set ns)) v (dfs_needs fuel jobs name ns w)"
    if w: "search_ok jobs {need} v (Some (Inr w))"
      and IH: "w name = Gray \<Longrightarrow> finished_ok jobs w \<Longrightarrow> whites jobs w < fuel \<or> ns = [] \<Longrightarrow> set ns \<subseteq> set (needs jobs name) \<Longrightarrow>
       (\<And>g. w g = Gray \<Longrightarrow> (g, name) \<in> (need_edges jobs)\<^sup>*) \<Longrightarrow> search_ok jobs (set ns) w (dfs_needs fuel jobs name ns w)" for w
  proof -
    have "search_ok jobs (set ns) w (dfs_needs fuel jobs name ns w)"
      using w 4(4,6,7,8) search_whites [OF w] by (intro IH) (auto simp: search_ok_def)
    then show ?thesis using w by (auto simp: search_ok_def split: option.splits sum.splits)
  qed
  show ?case
  proof (cases "v need")
    case White
    have "(g, need) \<in> (need_edges jobs)\<^sup>*" if "v g = Gray" for g
      using 4(8) [OF that] edge by (rule rtrancl_into_rtrancl)
    with White 4(5,6) have IH: "search_ok jobs {need} v (dfs fuel jobs need v)" using 4(1) by auto
    show ?thesis
    proof (cases "dfs fuel jobs need v")
      case (Some r)
      then show ?thesis using IH White rest 4(2) by (cases r) (auto simp: search_ok_def)
    qed (use IH in simp)
  next
    case Gray
    then show ?thesis using 4(8) edge by (auto simp: search_ok_def)
  next
    case Black
    then have "search_ok jobs {need} v (Some (Inr v))" using 4(5) by (auto simp: search_ok_def)
    then show ?thesis using Black rest [of v] 4(3) by simp
  qed
qed (auto simp: search_ok_def)


lemma dfs_all_correct:
  assumes "finished_ok jobs v" "whites jobs v < fuel" "\<And>x. v x \<noteq> Gray"
  shows "search_ok jobs (set names) v (dfs_all fuel jobs names v)"
  using assms
proof (induction names arbitrary: v)
  case (Cons name names)
  show ?case
  proof (cases "v name = White")
    case True
    then have S: "search_ok jobs {name} v (dfs fuel jobs name v)" using Cons.prems by (intro dfs_correct(1)) auto
    show ?thesis
    proof (cases "dfs fuel jobs name v")
      case (Some r)
      show ?thesis
      proof (cases r)
        case (Inr w)
        have "search_ok jobs (set names) w (dfs_all fuel jobs names w)"
          using S Some Inr Cons.prems search_whites [of jobs "{name}" v w] by (intro Cons.IH) (auto simp: search_ok_def)
        then show ?thesis using S Some Inr True by (auto simp: search_ok_def split: option.splits sum.splits)
      qed (use S Some True in \<open>auto simp: search_ok_def\<close>)
    qed (use S in simp)
  next
    case False
    then have "v name = Black" using Cons.prems(3) [of name] by (cases "v name") auto
    then show ?thesis using Cons.IH [OF Cons.prems] by (auto simp: search_ok_def split: option.splits sum.splits)
  qed
qed (auto simp: search_ok_def)

lemma whites_start: "whites jobs v < length jobs + 1"
proof -
  have "whites jobs v \<le> card (fst ` set jobs)" unfolding whites_def by (intro card_mono) auto
  also have "\<dots> \<le> card (set jobs)" by (simp add: card_image_le)
  also have "\<dots> \<le> length jobs" by (rule card_length)
  finally show ?thesis by simp
qed

lemma detectCycle_cases:
  "(case detectCycle jobs of
      None \<Rightarrow> False
    | Some None \<Rightarrow> acyclic (need_edges jobs)
    | Some (Some (name, need)) \<Rightarrow> (name, need) \<in> need_edges jobs \<and> (need, name) \<in> (need_edges jobs)\<^sup>*)"
proof -
  have "finished_ok jobs (\<lambda>_. White)" by (simp add: finished_ok_def acyclic_def)
  then have S: "search_ok jobs (set (map fst jobs)) (\<lambda>_. White) (dfs_all (length jobs + 1) jobs (map fst jobs) (\<lambda>_. White))"
    using whites_start by (intro dfs_all_correct) auto
  have "acyclic (need_edges jobs)" if s: "search_ok jobs (set (map fst jobs)) (\<lambda>_. White) (Some (Inr v))" for v
  proof -
    have "v n = Black" if "n \<in> fst ` set jobs" for n
      using s that by (auto simp: search_ok_def)
    moreover have "a \<in> fst ` set jobs" if "(a, b) \<in> need_edges jobs" for a b
      using that needs_unknown [of a jobs] by (cases "a \<in> fst ` set jobs") (auto simp: need_edges_def)
    ultimately have "{(a, b) \<in> need_edges jobs. v a = Black} = need_edges jobs" by blast
    then show ?thesis using s by (simp add: search_ok_def finished_ok_def)
  qed
  then show ?thesis
  proof (cases "dfs_all (length jobs + 1) jobs (map fst jobs) (\<lambda>_. White)")
    case (Some r)
    with S \<open>\<And>v. _ \<Longrightarrow> acyclic _\<close> show ?thesis
      by (cases r) (simp_all add: detectCycle_def search_ok_def split: prod.splits)
  qed (use S in simp)
qed

text \<open>C25: The cycle check always ends within its depth bound. It reports no cycle exactly if the relation
  between a job and the jobs it needs is acyclic, and the edge it reports otherwise closes a cycle.\<close>

theorem detectCycle_correct:
  "detectCycle jobs \<noteq> None \<and>
   (detectCycle jobs = Some None \<longleftrightarrow> acyclic (need_edges jobs)) \<and>
   (\<exists>edge. detectCycle jobs = Some None \<or>
      detectCycle jobs = Some (Some edge) \<and> edge \<in> need_edges jobs \<and> (snd edge, fst edge) \<in> (need_edges jobs)\<^sup>*)"
proof (cases "detectCycle jobs")
  case None
  then show ?thesis using detectCycle_cases [of jobs] by simp
next
  case (Some r)
  show ?thesis
  proof (cases r)
    case None
    then show ?thesis using Some detectCycle_cases [of jobs] by simp
  next
    case (Some edge)
    obtain a b where e: "edge = (a, b)" by (cases edge)
    then have E: "(a, b) \<in> need_edges jobs" "(b, a) \<in> (need_edges jobs)\<^sup>*"
      using Some \<open>detectCycle jobs = Some r\<close> detectCycle_cases [of jobs] by simp_all
    then have "\<not> acyclic (need_edges jobs)" unfolding acyclic_def by (meson rtrancl_into_trancl2)
    then show ?thesis using Some \<open>detectCycle jobs = Some r\<close> e E by simp
  qed
qed

lemma ValidateDAG_acyclic:
  assumes "ValidateDAG jobs = Some None"
  shows "acyclic (need_edges jobs)" "\<And>a b. (a, b) \<in> need_edges jobs \<Longrightarrow> gm_get jobs b \<noteq> None"
proof -
  have u: "unknown_needs jobs = []" "detectCycle jobs = Some None"
    using assms by (auto simp: ValidateDAG_def split: list.splits option.splits)
  show "acyclic (need_edges jobs)" using detectCycle_cases [of jobs] u(2) by simp
  fix a b assume "(a, b) \<in> need_edges jobs"
  then obtain j where j: "(a, j) \<in> set jobs" "b \<in> set (jc_Needs j)"
    by (cases "gm_get jobs a") (auto simp: need_edges_def needs_def dest!: map_of_SomeD)
  have "filter (\<lambda>need. gm_get jobs need = None) (jc_Needs j) = []" using u(1) j(1) by (auto simp: unknown_needs_def)
  then show "gm_get jobs b \<noteq> None" using j(2) by (simp add: filter_empty_conv)
qed

end
