(* ===== verification/TaskQueue.thy ===== *)
theory TaskQueue
  imports GuardianMutations PipelineConfig
begin

section \<open>The task queue of the pipelines\<close>

text \<open>
  \<^verbatim>\<open>src/internal/router/pipeline/taskqueue.go\<close>: tasks, claims and results are documents in a
  key-value store under the directory of their run. The store is an interface; the router implements
  it with its Guardian paths (\<open>routerKVSClient\<close> of \<^verbatim>\<open>src/internal/router/pipeline_router.go\<close>).

  The JSON encoding of the documents is a parameter, as are fresh identifiers and the clock.
\<close>

record ('s, 'c) KVSClient =
  kv_Write :: "'s \<Rightarrow> string \<Rightarrow> 'c \<Rightarrow> string \<Rightarrow> (string, string) result \<times> 's"
  kv_Read :: "'s \<Rightarrow> string \<Rightarrow> (string, 'c \<times> string) result"
  kv_Delete :: "'s \<Rightarrow> string \<Rightarrow> string option \<times> 's"
  kv_List :: "'s \<Rightarrow> string \<Rightarrow> (string, string list) result"

datatype JobState = JobPending | JobClaimed | JobRunning | JobSucceeded | JobFailed | JobSkipped | JobCancelled | JobStateOther string

record Task =
  tk_TaskID :: string
  tk_RunID :: string
  tk_JobName :: string
  tk_RunnerType :: string
  tk_Steps :: "StepConfig list"
  tk_Env :: "(string, string) gomap option"
  tk_TimeoutSec :: int
  tk_MaxRetries :: int
  tk_CreatedAt :: int
  tk_Affected :: "string list"
  tk_ChangedFiles :: "string list"

record TaskResult =
  tr_TaskID :: string
  tr_RunID :: string
  tr_JobName :: string
  tr_State :: JobState
  tr_ExitCode :: int
  tr_Error :: string
  tr_StartedAt :: int
  tr_EndedAt :: int
  tr_WorkerID :: string
  tr_Outputs :: "(string, string) gomap option"

record TaskClaim =
  cl_TaskID :: string
  cl_RunID :: string
  cl_JobName :: string
  cl_WorkerID :: string
  cl_ClaimedAt :: int

record 'c codec =
  cd_task :: "Task \<Rightarrow> (string, 'c) result"
  cd_untask :: "'c \<Rightarrow> (string, Task) result"
  cd_claim :: "TaskClaim \<Rightarrow> (string, 'c) result"
  cd_result :: "TaskResult \<Rightarrow> (string, 'c) result"
  cd_unresult :: "'c \<Rightarrow> (string, TaskResult) result"

subsection \<open>Paths\<close>

definition QueuePrefix :: string where "QueuePrefix = ''/.queues/pipeline''"

definition runQueuePrefix :: "string \<Rightarrow> string" where
  "runQueuePrefix runID = QueuePrefix @ ''/'' @ runID"

definition tasksDir :: "string \<Rightarrow> string" where "tasksDir runID = runQueuePrefix runID @ ''/tasks''"
definition claimsDir :: "string \<Rightarrow> string" where "claimsDir runID = runQueuePrefix runID @ ''/.claims''"
definition resultsDir :: "string \<Rightarrow> string" where "resultsDir runID = runQueuePrefix runID @ ''/.results''"

definition taskPath :: "string \<Rightarrow> string \<Rightarrow> string" where
  "taskPath runID taskID = tasksDir runID @ ''/'' @ taskID @ ''.json''"

definition claimPath :: "string \<Rightarrow> string \<Rightarrow> string" where
  "claimPath runID taskID = claimsDir runID @ ''/'' @ taskID @ ''.json''"

definition resultPath :: "string \<Rightarrow> string \<Rightarrow> string" where
  "resultPath runID taskID = resultsDir runID @ ''/'' @ taskID @ ''.json''"

definition entry_id :: "string \<Rightarrow> string \<Rightarrow> string" where
  "entry_id dir entry = TrimSuffix (TrimPrefix entry (dir @ ''/'')) ''.json''"

definition skip_entry :: "string \<Rightarrow> bool" where
  "skip_entry taskID \<longleftrightarrow> taskID = '''' \<or> HasPrefix taskID ''.''"

subsection \<open>Operations\<close>

datatype queue_error =
    MarshalError string
  | EnqueueError string
  | ListError string
  | WriteClaimError string
  | ReadError string
  | UnmarshalError string
  | WriteResultError string

definition filled :: "string \<Rightarrow> string \<Rightarrow> int \<Rightarrow> Task \<Rightarrow> Task" where
  "filled runID taskID now task =
     task\<lparr>tk_TaskID := taskID, tk_RunID := runID, tk_CreatedAt := now,
       tk_MaxRetries := (if tk_MaxRetries task = 0 then 2 else tk_MaxRetries task),
       tk_TimeoutSec := (if tk_TimeoutSec task = 0 then 600 else tk_TimeoutSec task)\<rparr>"

text \<open>The task is filled in through its pointer, also when the write fails.\<close>

definition EnqueueTask ::
  "('s, 'c) KVSClient \<Rightarrow> 'c codec \<Rightarrow> 's \<Rightarrow> string \<Rightarrow> string \<Rightarrow> int \<Rightarrow> Task \<Rightarrow> queue_error option \<times> Task \<times> 's"
where
  "EnqueueTask kvs cd s runID taskID now task =
     (let task = filled runID taskID now task in
      case cd_task cd task of
        Inl e \<Rightarrow> (Some (MarshalError e), task, s)
      | Inr data \<Rightarrow>
          (case kv_Write kvs s (taskPath runID (tk_TaskID task)) data '''' of
             (Inl e, s) \<Rightarrow> (Some (EnqueueError e), task, s)
           | (Inr _, s) \<Rightarrow> (None, task, s)))"

fun EnqueueTasks ::
  "('s, 'c) KVSClient \<Rightarrow> 'c codec \<Rightarrow> 's \<Rightarrow> string \<Rightarrow> (string \<times> int \<times> Task) list \<Rightarrow> queue_error option \<times> 's"
where
  "EnqueueTasks kvs cd s runID [] = (None, s)"
| "EnqueueTasks kvs cd s runID ((taskID, now, task) # tasks) =
     (case EnqueueTask kvs cd s runID taskID now task of
        (Some e, _, s) \<Rightarrow> (Some e, s)
      | (None, _, s) \<Rightarrow> EnqueueTasks kvs cd s runID tasks)"

definition isTaskClaimed :: "('s, 'c) KVSClient \<Rightarrow> 's \<Rightarrow> string \<Rightarrow> string \<Rightarrow> bool" where
  "isTaskClaimed kvs s runID taskID = (case kv_Read kvs s (claimPath runID taskID) of Inl _ \<Rightarrow> False | Inr _ \<Rightarrow> True)"

definition isTaskFinished :: "('s, 'c) KVSClient \<Rightarrow> 's \<Rightarrow> string \<Rightarrow> string \<Rightarrow> bool" where
  "isTaskFinished kvs s runID taskID = (case kv_Read kvs s (resultPath runID taskID) of Inl _ \<Rightarrow> False | Inr _ \<Rightarrow> True)"

definition claim_conflict :: "string \<Rightarrow> bool" where
  "claim_conflict err \<longleftrightarrow> Contains err ''already exists'' \<or> Contains err ''FailedPrecondition''"

text \<open>After its claim is written, the task is read; if that fails the claim is deleted again.\<close>

definition read_claimed ::
  "('s, 'c) KVSClient \<Rightarrow> 'c codec \<Rightarrow> 's \<Rightarrow> string \<Rightarrow> string \<Rightarrow> (queue_error, Task option) result \<times> 's"
where
  "read_claimed kvs cd s runID taskID =
     (case kv_Read kvs s (taskPath runID taskID) of
        Inl e \<Rightarrow> (Inl (ReadError e), snd (kv_Delete kvs s (claimPath runID taskID)))
      | Inr (data, _) \<Rightarrow>
          (case cd_untask cd data of
             Inl e \<Rightarrow> (Inl (UnmarshalError e), snd (kv_Delete kvs s (claimPath runID taskID)))
           | Inr task \<Rightarrow> (Inr (Some task), s)))"

definition new_claim :: "string \<Rightarrow> string \<Rightarrow> string \<Rightarrow> int \<Rightarrow> TaskClaim" where
  "new_claim runID taskID workerID now =
     \<lparr>cl_TaskID = taskID, cl_RunID = runID, cl_JobName = '''', cl_WorkerID = workerID, cl_ClaimedAt = now\<rparr>"

fun claim_loop ::
  "('s, 'c) KVSClient \<Rightarrow> 'c codec \<Rightarrow> 's \<Rightarrow> string \<Rightarrow> string \<Rightarrow> int \<Rightarrow> string list \<Rightarrow> (queue_error, Task option) result \<times> 's"
where
  "claim_loop kvs cd s runID workerID now [] = (Inr None, s)"
| "claim_loop kvs cd s runID workerID now (entry # entries) =
     (let taskID = entry_id (tasksDir runID) entry in
      if skip_entry taskID then claim_loop kvs cd s runID workerID now entries
      else if isTaskClaimed kvs s runID taskID then claim_loop kvs cd s runID workerID now entries
      else if isTaskFinished kvs s runID taskID then claim_loop kvs cd s runID workerID now entries
      else case cd_claim cd (new_claim runID taskID workerID now) of
        Inl _ \<Rightarrow> claim_loop kvs cd s runID workerID now entries
      | Inr claimData \<Rightarrow>
          (case kv_Write kvs s (claimPath runID taskID) claimData '''' of
             (Inl e, s) \<Rightarrow>
               if claim_conflict e then claim_loop kvs cd s runID workerID now entries else (Inl (WriteClaimError e), s)
           | (Inr _, s) \<Rightarrow> read_claimed kvs cd s runID taskID))"

definition ClaimTask ::
  "('s, 'c) KVSClient \<Rightarrow> 'c codec \<Rightarrow> 's \<Rightarrow> string \<Rightarrow> string \<Rightarrow> int \<Rightarrow> (queue_error, Task option) result \<times> 's"
where
  "ClaimTask kvs cd s runID workerID now =
     (case kv_List kvs s (tasksDir runID) of
        Inl e \<Rightarrow> (Inl (ListError e), s)
      | Inr entries \<Rightarrow> claim_loop kvs cd s runID workerID now entries)"

definition WriteResult :: "('s, 'c) KVSClient \<Rightarrow> 'c codec \<Rightarrow> 's \<Rightarrow> string \<Rightarrow> TaskResult \<Rightarrow> queue_error option \<times> 's" where
  "WriteResult kvs cd s runID result =
     (case cd_result cd result of
        Inl e \<Rightarrow> (Some (MarshalError e), s)
      | Inr data \<Rightarrow>
          (case kv_Write kvs s (resultPath runID (tr_TaskID result)) data '''' of
             (Inl e, s) \<Rightarrow> (Some (WriteResultError e), s)
           | (Inr _, s) \<Rightarrow> (None, s)))"

definition GetTask :: "('s, 'c) KVSClient \<Rightarrow> 'c codec \<Rightarrow> 's \<Rightarrow> string \<Rightarrow> string \<Rightarrow> (queue_error, Task) result" where
  "GetTask kvs cd s runID taskID =
     (case kv_Read kvs s (taskPath runID taskID) of
        Inl e \<Rightarrow> Inl (ReadError e)
      | Inr (data, _) \<Rightarrow> (case cd_untask cd data of Inl e \<Rightarrow> Inl (UnmarshalError e) | Inr task \<Rightarrow> Inr task))"

definition GetResult :: "('s, 'c) KVSClient \<Rightarrow> 'c codec \<Rightarrow> 's \<Rightarrow> string \<Rightarrow> string \<Rightarrow> (queue_error, TaskResult) result" where
  "GetResult kvs cd s runID taskID =
     (case kv_Read kvs s (resultPath runID taskID) of
        Inl e \<Rightarrow> Inl (ReadError e)
      | Inr (data, _) \<Rightarrow> (case cd_unresult cd data of Inl e \<Rightarrow> Inl (UnmarshalError e) | Inr result \<Rightarrow> Inr result))"

definition right_of :: "('e, 'a) result \<Rightarrow> 'a option" where
  "right_of r = (case r of Inl _ \<Rightarrow> None | Inr x \<Rightarrow> Some x)"

definition listed_ids :: "string \<Rightarrow> string list \<Rightarrow> string list" where
  "listed_ids dir entries = filter (\<lambda>i. \<not> skip_entry i) (map (entry_id dir) entries)"

definition ListRunTasks :: "('s, 'c) KVSClient \<Rightarrow> 'c codec \<Rightarrow> 's \<Rightarrow> string \<Rightarrow> (queue_error, Task list) result" where
  "ListRunTasks kvs cd s runID =
     (case kv_List kvs s (tasksDir runID) of
        Inl e \<Rightarrow> Inl (ListError e)
      | Inr entries \<Rightarrow> Inr (List.map_filter (\<lambda>i. right_of (GetTask kvs cd s runID i)) (listed_ids (tasksDir runID) entries)))"

definition ListRunResults :: "('s, 'c) KVSClient \<Rightarrow> 'c codec \<Rightarrow> 's \<Rightarrow> string \<Rightarrow> (queue_error, TaskResult list) result" where
  "ListRunResults kvs cd s runID =
     (case kv_List kvs s (resultsDir runID) of
        Inl e \<Rightarrow> Inl (ListError e)
      | Inr entries \<Rightarrow> Inr (List.map_filter (\<lambda>i. right_of (GetResult kvs cd s runID i)) (listed_ids (resultsDir runID) entries)))"

definition cleanup_dir :: "('s, 'c) KVSClient \<Rightarrow> string \<Rightarrow> 's \<Rightarrow> 's" where
  "cleanup_dir kvs dir s =
     (case kv_List kvs s dir of
        Inl _ \<Rightarrow> s
      | Inr entries \<Rightarrow>
          fold (\<lambda>entry s. snd (kv_Delete kvs s (if \<not> HasPrefix entry dir then dir @ ''/'' @ entry else entry))) entries s)"

definition CleanupRun :: "('s, 'c) KVSClient \<Rightarrow> 's \<Rightarrow> string \<Rightarrow> 's" where
  "CleanupRun kvs s runID = fold (cleanup_dir kvs) [tasksDir runID, claimsDir runID, resultsDir runID] s"

subsection \<open>The store of the router\<close>

text \<open>\<open>err_text\<close> is the text of a gRPC error; \<open>clock\<close> gives the time of an operation.\<close>

definition read_error_text :: "read_error \<Rightarrow> string" where
  "read_error_text e = (case e of
      MapPath _ \<Rightarrow> ''map path''
    | NotFound p \<Rightarrow> ''not found: '' @ p
    | NodeClient m \<Rightarrow> ''node client: '' @ m
    | ReadFile m \<Rightarrow> ''read file: '' @ m)"

definition routerKVSClient ::
  "node_env \<Rightarrow> string \<Rightarrow> (guardian_state \<Rightarrow> int) \<Rightarrow> (mutation_error \<Rightarrow> string) \<Rightarrow> (guardian_state, bytes) KVSClient"
where
  "routerKVSClient env token clock err_text =
     \<lparr>kv_Write = (\<lambda>s p c e. case writePipelinePath env token (clock s) s p c e of (r, s) \<Rightarrow> (map_sum err_text (\<lambda>v. v) r, s)),
      kv_Read = (\<lambda>s p. map_sum read_error_text (\<lambda>x. x) (readPipelinePath env s p)),
      kv_Delete = (\<lambda>s p. case deletePipelinePath env token (clock s) s p of (r, s) \<Rightarrow> (map_option err_text r, s)),
      kv_List = (\<lambda>s d. Inr (listPipelinePath s d))\<rparr>"


subsection \<open>The contract of the store, and its client\<close>

text \<open>
  \<open>content\<close> is the store as a map. \<open>key\<close> are the paths the queue uses, \<open>ident\<close> the identifiers of runs
  and tasks, \<open>value\<close> the documents that can be stored. A listing holds at most a thousand names.
\<close>

locale kvs_store =
  fixes kvs :: "('s, 'c) KVSClient" and ok :: "'s \<Rightarrow> bool" and content :: "'s \<Rightarrow> string \<Rightarrow> 'c option"
    and ident :: "string \<Rightarrow> bool" and key :: "string \<Rightarrow> bool" and val :: "'c \<Rightarrow> bool"
  assumes write_law: "ok s \<Longrightarrow> key p \<Longrightarrow> val c \<Longrightarrow> \<exists>v s'. kv_Write kvs s p c '''' = (Inr v, s') \<and> ok s' \<and> content s' = (content s)(p \<mapsto> c)"
    and read_law: "ok s \<Longrightarrow> key p \<Longrightarrow>
      (case content s p of None \<Rightarrow> \<exists>e. kv_Read kvs s p = Inl e | Some c \<Rightarrow> \<exists>v. kv_Read kvs s p = Inr (c, v))"
    and delete_law: "ok s \<Longrightarrow> key p \<Longrightarrow> \<exists>s'. kv_Delete kvs s p = (None, s') \<and> ok s' \<and> content s' = (content s)(p := None)"
    and list_law: "ok s \<Longrightarrow> ident r \<Longrightarrow> \<exists>ns. kv_List kvs s (tasksDir r) = Inr ns \<and> distinct ns \<and>
      set ns \<subseteq> {n. n \<noteq> '''' \<and> content s (tasksDir r @ ''/'' @ n) \<noteq> None} \<and>
      (card {n. n \<noteq> '''' \<and> content s (tasksDir r @ ''/'' @ n) \<noteq> None} < 1000 \<longrightarrow>
        set ns = {n. n \<noteq> '''' \<and> content s (tasksDir r @ ''/'' @ n) \<noteq> None})"
    and keys: "ident r \<Longrightarrow> ident i \<Longrightarrow> key (taskPath r i) \<and> key (claimPath r i) \<and> key (resultPath r i)"
    and idents: "ident i \<Longrightarrow> \<not> skip_entry i \<and> \<not> HasPrefix i ''/''"
begin

definition queue_ok :: "string \<Rightarrow> 's \<Rightarrow> bool" where
  "queue_ok r s \<longleftrightarrow> ok s \<and> ident r \<and>
     (\<forall>n. n \<noteq> '''' \<longrightarrow> content s (tasksDir r @ ''/'' @ n) \<noteq> None \<longrightarrow> (\<exists>i. ident i \<and> n = i @ ''.json''))"

definition claimable :: "string \<Rightarrow> 's \<Rightarrow> string \<Rightarrow> bool" where
  "claimable r s i \<longleftrightarrow> content s (claimPath r i) = None \<and> content s (resultPath r i) = None"

lemma claimed_iff: "ok s \<Longrightarrow> ident r \<Longrightarrow> ident i \<Longrightarrow> isTaskClaimed kvs s r i \<longleftrightarrow> content s (claimPath r i) \<noteq> None"
  using read_law [of s "claimPath r i"] keys [of r i] by (auto simp: isTaskClaimed_def split: option.splits)

lemma finished_iff: "ok s \<Longrightarrow> ident r \<Longrightarrow> ident i \<Longrightarrow> isTaskFinished kvs s r i \<longleftrightarrow> content s (resultPath r i) \<noteq> None"
  using read_law [of s "resultPath r i"] keys [of r i] by (auto simp: isTaskFinished_def split: option.splits)

lemma entry_ident: "ident i \<Longrightarrow> entry_id (tasksDir r) (i @ ''.json'') = i"
proof -
  assume i: "ident i"
  have "\<not> HasPrefix (i @ ''.json'') (tasksDir r @ ''/'')"
    using idents [OF i] by (cases i) (auto simp: HasPrefix_def tasksDir_def runQueuePrefix_def QueuePrefix_def skip_entry_def)
  then show ?thesis by (simp add: entry_id_def TrimPrefix_def)
qed

text \<open>What a claim found: nothing to do, a task that was free, or an error that left nothing behind.\<close>

definition claim_outcome :: "'c codec \<Rightarrow> string \<Rightarrow> string \<Rightarrow> int \<Rightarrow> 's \<Rightarrow> string set \<Rightarrow> (queue_error, Task option) result \<times> 's \<Rightarrow> bool" where
  "claim_outcome cd r w now s ids res \<longleftrightarrow> ok (snd res) \<and>
     (case res of
        (Inr None, s') \<Rightarrow> s' = s \<and> (\<forall>i \<in> ids. \<not> claimable r s i)
      | (Inr (Some t), s') \<Rightarrow> \<exists>i d c. i \<in> ids \<and> claimable r s i \<and> content s (taskPath r i) = Some d \<and> cd_untask cd d = Inr t \<and>
          cd_claim cd (new_claim r i w now) = Inr c \<and> content s' = (content s)(claimPath r i \<mapsto> c)
      | (Inl e, s') \<Rightarrow> content s' = content s)"

lemma read_claimed_outcome:
  assumes "ok s" "ident r" "ident i" "claimable r s i" "val c"
    and c: "cd_claim cd (new_claim r i w now) = Inr c" and s1: "ok s1" "content s1 = (content s)(claimPath r i \<mapsto> c)"
    and "i \<in> ids" "content s (taskPath r i) = Some d"
  shows "claim_outcome cd r w now s ids (read_claimed kvs cd s1 r i)"
proof -
  have t: "content s1 (taskPath r i) = Some d"
    using assms(10) s1(2) by (simp add: taskPath_def claimPath_def tasksDir_def claimsDir_def)
  obtain v where r: "kv_Read kvs s1 (taskPath r i) = Inr (d, v)" using read_law [OF s1(1), of "taskPath r i"] keys [OF assms(2,3)] t by auto
  obtain s2 where s2: "kv_Delete kvs s1 (claimPath r i) = (None, s2)" "ok s2" "content s2 = (content s1)(claimPath r i := None)"
    using delete_law [OF s1(1), of "claimPath r i"] keys [OF assms(2,3)] by blast
  have undone: "content s2 = content s" using s1(2) s2(3) assms(4) by (auto simp: claimable_def fun_eq_iff)
  show ?thesis
    using r s2 undone s1 assms by (cases "cd_untask cd d") (auto simp: read_claimed_def claim_outcome_def)
qed

lemma claim_loop_outcome:
  assumes "ok s" "ident r"
    and codec: "\<And>i. \<exists>c. cd_claim cd (new_claim r i w now) = Inr c \<and> val c"
    and entries: "\<And>e. e \<in> set entries \<Longrightarrow> \<exists>i. ident i \<and> e = i @ ''.json'' \<and> content s (taskPath r i) \<noteq> None"
  shows "claim_outcome cd r w now s {i. i @ ''.json'' \<in> set entries} (claim_loop kvs cd s r w now entries)"
  using entries
proof (induction entries)
  case (Cons e es)
  obtain i where i: "ident i" "e = i @ ''.json''" "content s (taskPath r i) \<noteq> None" using Cons.prems [of e] by auto
  have id: "entry_id (tasksDir r) e = i" "\<not> skip_entry i" using entry_ident [OF i(1)] i(2) idents [OF i(1)] by auto
  have IH: "claim_outcome cd r w now s {i. i @ ''.json'' \<in> set es} (claim_loop kvs cd s r w now es)" using Cons by simp
  show ?case
  proof (cases "claimable r s i")
    case False
    then have "claim_loop kvs cd s r w now (e # es) = claim_loop kvs cd s r w now es"
      using id claimed_iff [OF assms(1,2) i(1)] finished_iff [OF assms(1,2) i(1)] by (auto simp: Let_def claimable_def)
    moreover have "{j. j @ ''.json'' \<in> set (e # es)} = insert i {j. j @ ''.json'' \<in> set es}" using i(2) by auto
    ultimately show ?thesis using IH False unfolding claim_outcome_def by (auto split: prod.splits sum.splits option.splits)
  next
    case True
    obtain c where c: "cd_claim cd (new_claim r i w now) = Inr c" "val c" using codec by blast
    obtain v s1 where s1: "kv_Write kvs s (claimPath r i) c '''' = (Inr v, s1)" "ok s1" "content s1 = (content s)(claimPath r i \<mapsto> c)"
      using write_law [OF assms(1) _ c(2), of "claimPath r i"] keys [OF assms(2) i(1)] by blast
    have "claim_loop kvs cd s r w now (e # es) = read_claimed kvs cd s1 r i"
      using id True c s1 claimed_iff [OF assms(1,2) i(1)] finished_iff [OF assms(1,2) i(1)] by (simp add: Let_def claimable_def)
    then show ?thesis
      using read_claimed_outcome [OF assms(1,2) i(1) True c(2,1) s1(2,3), of "{j. j @ ''.json'' \<in> set (e # es)}"] i by auto
  qed
qed (simp add: claim_outcome_def assms)

lemma ClaimTask_outcome:
  assumes q: "queue_ok r s" and codec: "\<And>i. \<exists>c. cd_claim cd (new_claim r i w now) = Inr c \<and> val c"
  obtains ids where "claim_outcome cd r w now s ids (ClaimTask kvs cd s r w now)" "ids \<subseteq> {i. content s (taskPath r i) \<noteq> None}"
    "card {n. n \<noteq> '''' \<and> content s (tasksDir r @ ''/'' @ n) \<noteq> None} < 1000 \<Longrightarrow> ids = {i. content s (taskPath r i) \<noteq> None}"
proof -
  have r: "ok s" "ident r" using q by (simp_all add: queue_ok_def)
  obtain ns where ns: "kv_List kvs s (tasksDir r) = Inr ns"
      "set ns \<subseteq> {n. n \<noteq> '''' \<and> content s (tasksDir r @ ''/'' @ n) \<noteq> None}"
      "card {n. n \<noteq> '''' \<and> content s (tasksDir r @ ''/'' @ n) \<noteq> None} < 1000 \<longrightarrow>
        set ns = {n. n \<noteq> '''' \<and> content s (tasksDir r @ ''/'' @ n) \<noteq> None}"
    using list_law [OF r] by (elim exE conjE) (rule that)
  let ?ids = "{i. i @ ''.json'' \<in> set ns}"
  have out: "claim_outcome cd r w now s ?ids (claim_loop kvs cd s r w now ns)"
  proof (rule claim_loop_outcome [OF r codec])
    fix e assume "e \<in> set ns"
    then have e: "e \<noteq> '''' \<and> content s (tasksDir r @ ''/'' @ e) \<noteq> None" by (rule subsetD [OF ns(2), simplified mem_Collect_eq])
    then obtain i where i: "ident i \<and> e = i @ ''.json''" using q unfolding queue_ok_def by blast
    have "content s (taskPath r i) = content s (tasksDir r @ ''/'' @ e)" using i by (simp add: taskPath_def)
    then show "\<exists>i. ident i \<and> e = i @ ''.json'' \<and> content s (taskPath r i) \<noteq> None" using e i by (intro exI [of _ i]) simp
  qed
  have path: "content s (taskPath r i) \<noteq> None \<longleftrightarrow> i @ ''.json'' \<in> {n. n \<noteq> '''' \<and> content s (tasksDir r @ ''/'' @ n) \<noteq> None}" for i
    by (simp add: taskPath_def)
  show ?thesis
  proof (rule that [of ?ids])
    show "claim_outcome cd r w now s ?ids (ClaimTask kvs cd s r w now)" using out by (simp only: ClaimTask_def ns(1) sum.case)
    show "?ids \<subseteq> {i. content s (taskPath r i) \<noteq> None}" unfolding path using ns(2) by (simp add: subset_iff)
    show "?ids = {i. content s (taskPath r i) \<noteq> None}"
      if "card {n. n \<noteq> '''' \<and> content s (tasksDir r @ ''/'' @ n) \<noteq> None} < 1000"
      unfolding path ns(3) [rule_format, OF that] by simp
  qed
qed

end


subsection \<open>The router's store keeps the contract\<close>

definition queue_key :: "string \<Rightarrow> bool" where
  "queue_key p \<longleftrightarrow> GuardianPaths.under p ''/.queues'' \<and>
     (case mapGuardianLogicalPath p of Inl _ \<Rightarrow> False | Inr m \<Rightarrow> gp_LogicalPath m = p \<and> gp_RelativePath m \<noteq> '''')"

text \<open>Identifiers as \<open>uuid\<close> makes them: letters, digits and dashes.\<close>

definition ident_char :: "char \<Rightarrow> bool" where
  "ident_char c \<longleftrightarrow> (let n = (of_char c :: nat) in n = 45 \<or> 48 \<le> n \<and> n \<le> 57 \<or> 97 \<le> n \<and> n \<le> 122)"

definition queue_ident :: "string \<Rightarrow> bool" where
  "queue_ident i \<longleftrightarrow> i \<noteq> '''' \<and> list_all ident_char i"

definition no_dots :: "string \<Rightarrow> bool" where
  "no_dots s \<longleftrightarrow> successively (\<lambda>a b. a \<noteq> CHR ''.'' \<or> b \<noteq> CHR ''.'') s"

lemma no_dots_Contains: "no_dots s \<Longrightarrow> \<not> Contains s ''..''"
  by (auto simp: no_dots_def Contains_iff successively_append_iff)

lemma no_dots_ident: "CHR ''.'' \<notin> set s \<Longrightarrow> no_dots s"
  unfolding no_dots_def by (induction s rule: induct_list012) auto

lemma ident_chars:
  assumes "queue_ident i"
  shows "i \<noteq> []" "CHR ''.'' \<notin> set i" "slash \<notin> set i" "\<forall>c \<in> set i. \<not> is_space c" "hd i \<noteq> CHR ''.''" "last i \<noteq> CHR ''.''" "hd i \<noteq> slash"
proof -
  have c: "\<forall>c \<in> set i. c \<noteq> CHR ''.'' \<and> c \<noteq> slash \<and> \<not> is_space c"
    using assms by (auto simp: queue_ident_def list_all_iff ident_char_def Let_def is_space_def)
  show n: "i \<noteq> []" using assms by (simp add: queue_ident_def)
  show "CHR ''.'' \<notin> set i" "slash \<notin> set i" "\<forall>c \<in> set i. \<not> is_space c" using c by blast+
  show "hd i \<noteq> CHR ''.''" "last i \<noteq> CHR ''.''" "hd i \<noteq> slash" using c n by (metis hd_in_set last_in_set)+
qed

lemma plain_seg_ident: "queue_ident i \<Longrightarrow> plain_seg i" "queue_ident i \<Longrightarrow> plain_seg (i @ ''.json'')"
  using ident_chars [of i] by (auto simp: plain_seg_def append_eq_Cons_conv)

lemma no_dots_append:
  "no_dots a \<Longrightarrow> no_dots b \<Longrightarrow> a = [] \<or> b = [] \<or> last a \<noteq> CHR ''.'' \<or> hd b \<noteq> CHR ''.'' \<Longrightarrow> no_dots (a @ b)"
  unfolding no_dots_def by (simp only: successively_append_iff)

lemma no_dots_path:
  assumes r: "queue_ident r" and i: "queue_ident i" and d: "no_dots d"
  shows "no_dots (''/.queues/pipeline/'' @ r @ (''/'' @ d @ ''/'') @ i @ ''.json'')"
proof (intro no_dots_append)
  show "no_dots ''/.queues/pipeline/''" "no_dots ''.json''" "no_dots ''/''" by (simp_all add: no_dots_def)
qed (use assms ident_chars [OF r] ident_chars [OF i] no_dots_ident in auto)

lemma normalize_segs:
  assumes "segs \<noteq> []" "\<forall>s \<in> set segs. plain_seg s" "\<forall>s \<in> set segs. \<forall>c \<in> set s. \<not> is_space c"
    "\<not> Contains (''/'' @ Join segs ''/'') ''..''"
  shows "normalizeGuardianLogicalPath (''/'' @ Join segs ''/'') = Inr (''/'' @ Join segs ''/'')"
proof -
  define p where "p = ''/'' @ Join segs ''/''"
  have "\<forall>c \<in> set p. \<not> is_space c" using Join_no_space [OF assms(3)] by (simp add: p_def is_space_def)
  then have t: "TrimSpace p = p" by (rule TrimSpace_none)
  have c: "path_Clean p = p" using path_Clean_segs [OF assms(2)] by (simp add: p_def)
  have "p \<noteq> ''''" "p \<noteq> ''.''" "HasPrefix p ''/''" by (simp_all add: p_def HasPrefix_def)
  moreover have "p \<noteq> ''/''" using Join_plain_Nil [OF assms(2)] assms(1) by (simp add: p_def)
  moreover have "\<not> Contains p ''..''" using assms(4) by (simp add: p_def)
  ultimately have "normalizeGuardianLogicalPath p = Inr p" by (simp add: normalizeGuardianLogicalPath_def t c Let_def)
  then show ?thesis by (simp add: p_def)
qed

lemma queue_segs_key:
  assumes "\<forall>s \<in> set segs. plain_seg s" "\<forall>s \<in> set segs. \<forall>c \<in> set s. \<not> is_space c"
    "\<not> Contains (''/'' @ Join (''.queues'' # segs) ''/'') ''..''" "segs \<noteq> []"
  shows "queue_key (''/'' @ Join (''.queues'' # segs) ''/'')"
proof -
  let ?segs = "''.queues'' # segs"
  have plain: "\<forall>s \<in> set ?segs. plain_seg s" using assms(1) by (simp add: plain_seg_def)
  have space: "\<forall>s \<in> set ?segs. \<forall>c \<in> set s. \<not> is_space c" using assms(2) by (simp add: is_space_def)
  have n: "normalizeGuardianLogicalPath (''/'' @ Join ?segs ''/'') = Inr (''/'' @ Join ?segs ''/'')"
    using normalize_segs [OF _ plain space assms(3)] by blast
  have rel: "cleanGuardianRelativePath (Join ?segs ''/'') = Join ?segs ''/''" by (rule cleanGuardianRelativePath_segs [OF plain space])
  have parts: "TrimPrefix (''/'' @ Join ?segs ''/'') ''/'' = Join ?segs ''/''" "Split (Join ?segs ''/'') slash = ?segs"
    using clean_segs_parts [OF _ plain] by blast+
  have m: "mapGuardianLogicalPath (''/'' @ Join ?segs ''/'') = Inr (physical (''/'' @ Join ?segs ''/'') ''guardian-system'' (Join ?segs ''/''))"
    unfolding mapGuardianLogicalPath_def n sum.case Let_def parts rel by (simp add: system_roots_def)
  have "''/'' @ Join ?segs ''/'' = ''/.queues/'' @ Join segs ''/''" using assms(4) by (simp add: Join_Cons)
  then have "GuardianPaths.under (''/'' @ Join ?segs ''/'') ''/.queues''" by (simp add: GuardianPaths.under_def HasPrefix_def)
  moreover have "Join ?segs ''/'' \<noteq> ''''" using assms(4) by (simp add: Join_Cons)
  ultimately show ?thesis unfolding queue_key_def m sum.case physical_def by simp
qed

lemma queue_path_key:
  assumes r: "queue_ident r" and i: "queue_ident i" and d: "d \<in> {''tasks'', ''.claims'', ''.results''}"
  shows "queue_key (''/.queues/pipeline/'' @ r @ ''/'' @ d @ ''/'' @ i @ ''.json'')"
proof -
  let ?segs = "[''pipeline'', r, d, i @ ''.json'']"
  note R = ident_chars [OF r] and I = ident_chars [OF i]
  have e: "''/'' @ Join (''.queues'' # ?segs) ''/'' = ''/.queues/pipeline/'' @ r @ (''/'' @ d @ ''/'') @ i @ ''.json''" by simp
  have "no_dots d" "plain_seg d" "\<forall>c \<in> set d. \<not> is_space c"
    using d by (auto simp: no_dots_def plain_seg_def is_space_def)
  then have "queue_key (''/'' @ Join (''.queues'' # ?segs) ''/'')"
    using no_dots_Contains [OF no_dots_path [OF r i, of d]] plain_seg_ident [OF r] plain_seg_ident [OF i] R(4) I(4)
    by (intro queue_segs_key) (unfold e, auto simp: plain_seg_def is_space_def)
  then show ?thesis unfolding e by simp
qed


definition router_ok :: "string \<Rightarrow> guardian_state \<Rightarrow> bool" where
  "router_ok token s \<longleftrightarrow> gs_ok s \<and> (\<forall>p. queue_key p \<longrightarrow> files s p \<noteq> Some []) \<and>
     (\<exists>prin. authenticateGuardianMutation (gs_principals s) (gs_clients s) token None = Some prin \<and>
        pr_Role prin \<in> {''pipeline'', ''control-plane'', ''cli''})"

lemma router_write:
  assumes ok: "router_ok token s" and k: "queue_key p" and c: "c \<noteq> []"
  shows "\<exists>v s'. writePipelinePath quiet_nodes token now s p c '''' = (Inr v, s') \<and> router_ok token s' \<and> files s' = (files s)(p \<mapsto> c)"
proof -
  let ?w = "\<lparr>gw_LogicalPath = p, gw_Content = c, gw_ExpectedVersionId = ''''\<rparr>"
  obtain prin where prin: "authenticateGuardianMutation (gs_principals s) (gs_clients s) token None = Some prin"
      "pr_Role prin \<in> {''pipeline'', ''control-plane'', ''cli''}" and g: "gs_ok s"
    using ok by (auto simp: router_ok_def)
  obtain m where m: "mapGuardianLogicalPath p = Inr m" "gp_LogicalPath m = p" "gp_RelativePath m \<noteq> ''''" "GuardianPaths.under p ''/.queues''"
    using k by (auto simp: queue_key_def split: sum.splits)
  have "authorizeGuardianMutation (Some prin) p False = None" using prin(2) m(4) by (auto simp: authorizeGuardianMutation_def)
  then have w: "write_ok s prin ?w m" using m by (simp add: write_ok_def expectation_met_def)
  have q: "ne_upsert quiet_nodes = (\<lambda>_. None)" by (simp add: quiet_nodes_def)
  obtain resp s' where s': "processGuardianUpsert quiet_nodes now s \<lparr>ur_GuardianToken = token, ur_Writes = [?w], ur_Context = None\<rparr> = (Inr resp, s')"
      "gs_ok s'" "files s' = (files s)(p \<mapsto> c)" "gs_principals s' = gs_principals s" "gs_clients s' = gs_clients s"
    by (rule upsert_one [OF g prin(1) w q, where now = now]) (auto simp: m(2))
  have "router_ok token s'" using ok s'(2-5) c unfolding router_ok_def by simp
  with s' show ?thesis by (simp add: writePipelinePath_def)
qed

lemma router_read:
  assumes ok: "router_ok token s" and k: "queue_key p"
  shows "case files s p of
      None \<Rightarrow> \<exists>e. readPipelinePath env s p = Inl e
    | Some c \<Rightarrow> \<exists>v. readPipelinePath env s p = Inr (c, v)"
proof -
  obtain m where m: "mapGuardianLogicalPath p = Inr m" using k by (auto simp: queue_key_def split: sum.splits)
  show ?thesis
  proof (cases "live (gs_versions s) p")
    case None
    then show ?thesis by (simp add: readPipelinePath_def m files_def existing_live)
  next
    case (Some v)
    then have "sv_Content v \<noteq> []" using ok k by (force simp: router_ok_def files_def)
    with Some show ?thesis by (simp add: readPipelinePath_def m files_def existing_live)
  qed
qed

lemma tombstone_effect:
  assumes "gs_ok s"
  shows "gs_ok (snd (commit_tombstone prin now cid reason m c s))"
    "files (snd (commit_tombstone prin now cid reason m c s)) = (files s)(gp_LogicalPath m := None)"
    "gs_principals (snd (commit_tombstone prin now cid reason m c s)) = gs_principals s"
    "gs_clients (snd (commit_tombstone prin now cid reason m c s)) = gs_clients s"
proof -
  let ?c = "tombstone_change prin now cid reason m c"
  have c: "gc_LogicalPath ?c = gp_LogicalPath m" "gc_Tombstone ?c" by (simp_all add: tombstone_change_def)
  have vs: "gs_versions (snd (commit_tombstone prin now cid reason m c s)) = snd (commit (gs_versions s) ?c)"
    by (simp add: commit_tombstone_def case_prod_beta Let_def)
  have inv: "store_inv (gs_versions s)" using assms by (simp add: gs_ok_def)
  show P: "gs_principals (snd (commit_tombstone prin now cid reason m c s)) = gs_principals s"
    "gs_clients (snd (commit_tombstone prin now cid reason m c s)) = gs_clients s"
    by (simp_all add: commit_tombstone_def case_prod_beta Let_def)
  show "gs_ok (snd (commit_tombstone prin now cid reason m c s))"
    using assms commit_inv [OF inv, of ?c] unfolding gs_ok_def vs P by simp
  show "files (snd (commit_tombstone prin now cid reason m c s)) = (files s)(gp_LogicalPath m := None)"
    unfolding files_def vs live_commit [OF inv] c(1) using c(2) by (simp add: fun_eq_iff)
qed

lemma router_delete:
  assumes ok: "router_ok token s" and k: "queue_key p"
  shows "\<exists>s'. deletePipelinePath quiet_nodes token now s p = (None, s') \<and> router_ok token s' \<and> files s' = (files s)(p := None)"
proof -
  obtain m where m: "mapGuardianLogicalPath p = Inr m" "gp_LogicalPath m = p" using k by (auto simp: queue_key_def split: sum.splits)
  obtain prin where prin: "authenticateGuardianMutation (gs_principals s) (gs_clients s) token None = Some prin" and g: "gs_ok s"
    using ok by (auto simp: router_ok_def)
  let ?d = "\<lparr>gd_LogicalPath = p, gd_ExpectedVersionId = ''''\<rparr>"
  have d: "deletePipelinePath quiet_nodes token now s p = delete_each quiet_nodes prin now [?d] s"
    using prin by (simp add: deletePipelinePath_def processGuardianDelete_def quiet_nodes_def)
  show ?thesis
  proof (cases "live (gs_versions s) p")
    case None
    then have "files s = (files s)(p := None)" by (auto simp: files_def)
    with None ok show ?thesis unfolding d by (auto simp: m existing_live)
  next
    case (Some v)
    let ?s = "snd (commit_tombstone prin now '''' '''' m [] s)"
    note T = tombstone_effect [OF g, of prin now "''''" "''''" m "[]"]
    have "router_ok token ?s" using ok T unfolding router_ok_def by simp
    moreover have "delete_each quiet_nodes prin now [?d] s = (None, ?s)" using Some by (simp add: m existing_live quiet_nodes_def)
    ultimately show ?thesis unfolding d using T(2) m(2) by auto
  qed
qed


lemma router_list:
  assumes ok: "router_ok token s" and d: "HasPrefix d ''/''" "\<not> HasSuffix d ''/''"
  shows "distinct (listPipelinePath s d)"
    "set (listPipelinePath s d) \<subseteq> {n. n \<noteq> '''' \<and> files s (d @ ''/'' @ n) \<noteq> None}"
    "card {n. n \<noteq> '''' \<and> files s (d @ ''/'' @ n) \<noteq> None} < 1000 \<Longrightarrow>
      set (listPipelinePath s d) = {n. n \<noteq> '''' \<and> files s (d @ ''/'' @ n) \<noteq> None}"
proof -
  let ?pre = "d @ ''/''" and ?vs = "listCurrentUnderPrefix (gs_versions s) (d @ ''/'') 1000"
  let ?N = "{n. n \<noteq> '''' \<and> files s (d @ ''/'' @ n) \<noteq> None}"
  have inv: "store_inv (gs_versions s)" using ok by (simp add: router_ok_def gs_ok_def)
  have pre: "dir_prefix ?pre = ?pre" by (simp add: dir_prefix_def HasSuffix_def)
  obtain ps where ps0: "distinct ps" "set ps = {p. HasPrefix p (dir_prefix ?pre) \<and> live (gs_versions s) p \<noteq> None}"
      "map gv_LogicalPath ?vs = take (nat (if (1000::int) \<le> 0 then 1000 else 1000)) ps"
    by (rule listCurrent_paths [OF inv, where pre = ?pre and limit = 1000]) blast
  have ps: "distinct ps" "set ps = {p. HasPrefix p ?pre \<and> live (gs_versions s) p \<noteq> None}" "map gv_LogicalPath ?vs = take 1000 ps"
    using ps0 unfolding pre by simp_all
  have l: "listPipelinePath s d = filter (\<lambda>n. n \<noteq> '''') (map (\<lambda>p. TrimPrefix p ?pre) (take 1000 ps))"
  proof -
    have "filter (\<lambda>v. \<not> gv_Tombstone v) ?vs = ?vs" using listCurrent_live [OF inv] by (simp add: filter_id_conv)
    moreover have "TrimSuffix d ''/'' = d" using d(2) by (simp add: TrimSuffix_def)
    ultimately show ?thesis using d(1) ps(3) [symmetric] by (simp add: listPipelinePath_def Let_def comp_def)
  qed
  have trim: "p = ?pre @ TrimPrefix p ?pre" if p: "p \<in> set ps" for p
  proof -
    obtain n where "p = ?pre @ n" using p ps(2) unfolding HasPrefix_iff by blast
    then show ?thesis by (simp only: TrimPrefix_append)
  qed
  have inj: "inj_on (\<lambda>p. TrimPrefix p ?pre) (set ps)"   proof (rule inj_onI)
    fix p q assume "p \<in> set ps" "q \<in> set ps" "TrimPrefix p ?pre = TrimPrefix q ?pre"
    with trim [of p] trim [of q] show "p = q" by simp
  qed
  have names: "n \<in> (\<lambda>p. TrimPrefix p ?pre) ` set ps \<longleftrightarrow> files s (d @ ''/'' @ n) \<noteq> None" for n
  proof
    assume "n \<in> (\<lambda>p. TrimPrefix p ?pre) ` set ps"
    then obtain p where p: "p \<in> set ps" "n = TrimPrefix p ?pre" by blast
    then have "live (gs_versions s) p \<noteq> None" "p = d @ ''/'' @ n" using ps(2) trim [OF p(1)] by auto
    then show "files s (d @ ''/'' @ n) \<noteq> None" by (simp add: files_def)
  next
    assume "files s (d @ ''/'' @ n) \<noteq> None"
    then have "?pre @ n \<in> set ps" using ps(2) by (auto simp: files_def HasPrefix_iff)
    then show "n \<in> (\<lambda>p. TrimPrefix p ?pre) ` set ps" by (rule rev_image_eqI) (simp only: TrimPrefix_append)
  qed
  show "distinct (listPipelinePath s d)"
    unfolding l using ps(1) inj by (intro distinct_filter) (auto simp: distinct_map intro: inj_on_subset [OF inj] dest: in_set_takeD)
  have mem: "set (listPipelinePath s d) = {n \<in> (\<lambda>p. TrimPrefix p ?pre) ` set (take 1000 ps). n \<noteq> ''''}" unfolding l by auto
  have "(\<lambda>p. TrimPrefix p ?pre) ` set (take 1000 ps) \<subseteq> (\<lambda>p. TrimPrefix p ?pre) ` set ps" by (intro image_mono set_take_subset)
  then show "set (listPipelinePath s d) \<subseteq> ?N" unfolding mem using names by blast
  show "set (listPipelinePath s d) = ?N" if "card ?N < 1000"
  proof -
    have "(\<lambda>p. TrimPrefix p ?pre) ` set ps \<subseteq> insert '''' ?N" using names by auto
    moreover have "finite ?N"
    proof (rule finite_subset)
      show "?N \<subseteq> (\<lambda>p. TrimPrefix p ?pre) ` set ps" using names by blast
    qed simp
    ultimately have "card ((\<lambda>p. TrimPrefix p ?pre) ` set ps) \<le> card (insert '''' ?N)" by (intro card_mono) auto
    also have "\<dots> \<le> Suc (card ?N)" using \<open>finite ?N\<close> by (simp add: card_insert_if)
    finally have "card ((\<lambda>p. TrimPrefix p ?pre) ` set ps) \<le> Suc (card ?N)" .
    then have "length ps \<le> 1000" using that card_image [OF inj] distinct_card [OF ps(1)] by linarith
    then have "set (take 1000 ps) = set ps" by simp
    then show ?thesis unfolding mem using names by blast
  qed
qed

lemma tasksDir_dir: "queue_ident r \<Longrightarrow> HasPrefix (tasksDir r) ''/'' \<and> \<not> HasSuffix (tasksDir r) ''/''"
  by (simp add: tasksDir_def runQueuePrefix_def QueuePrefix_def HasPrefix_def HasSuffix_def)


interpretation router_kvs: kvs_store "routerKVSClient quiet_nodes token clock err_text" "router_ok token" files queue_ident queue_key "\<lambda>c. c \<noteq> []"
  for token clock err_text
proof (unfold_locales, goal_cases)
  case (1 s p c)
  then show ?case using router_write [of token s p c "clock s"] by (auto simp: routerKVSClient_def)
next
  case (2 s p)
  then show ?case using router_read [of token s p quiet_nodes] by (auto simp: routerKVSClient_def split: option.splits)
next
  case (3 s p)
  then show ?case using router_delete [of token s p "clock s"] by (auto simp: routerKVSClient_def)
next
  case (4 s r)
  show ?case
  proof (intro exI conjI impI)
    show "kv_List (routerKVSClient quiet_nodes token clock err_text) s (tasksDir r) = Inr (listPipelinePath s (tasksDir r))"
      by (simp add: routerKVSClient_def)
  qed (use router_list [OF 4(1), of "tasksDir r"] tasksDir_dir [OF 4(2)] in auto)
next
  case (5 r i)
  then show ?case using queue_path_key [of r i "''tasks''"] queue_path_key [of r i "''.claims''"] queue_path_key [of r i "''.results''"]
    by (simp add: taskPath_def claimPath_def resultPath_def tasksDir_def claimsDir_def resultsDir_def runQueuePrefix_def QueuePrefix_def)
next
  case (6 i)
  then show ?case using ident_chars [of i] by (cases i) (auto simp: skip_entry_def HasPrefix_def)
qed

subsection \<open>Properties\<close>



text \<open>A router with one task in its queue, and a codec that knows one task.\<close>

definition demo_task :: Task where
  "demo_task = \<lparr>tk_TaskID = ''t1'', tk_RunID = ''r1'', tk_JobName = ''build'', tk_RunnerType = '''', tk_Steps = [], tk_Env = None, tk_TimeoutSec = 60,
     tk_MaxRetries = 0, tk_CreatedAt = 0, tk_Affected = [], tk_ChangedFiles = []\<rparr>"

definition demo_codec :: "bytes codec" where
  "demo_codec = \<lparr>cd_task = (\<lambda>_. Inr [1]), cd_untask = (\<lambda>_. Inr demo_task), cd_claim = (\<lambda>c. Inr [2, of_nat (length (cl_WorkerID c))]),
     cd_result = (\<lambda>_. Inr [3]), cd_unresult = (\<lambda>_. Inl '''')\<rparr>"

lemma demo_ids: "queue_ident ''r1''" "queue_ident ''t1''"
  by (simp_all add: queue_ident_def ident_char_def)

lemma demo_queue:
  "\<exists>s t. EnqueueTask (routerKVSClient quiet_nodes ''t'' clock err_text) demo_codec race_state ''r1'' ''t1'' 0 demo_task = (None, t, s) \<and>
     router_ok ''t'' s \<and> files s = [taskPath ''r1'' ''t1'' \<mapsto> [1]]"
proof -
  have none: "files race_state = Map.empty"
    by (simp add: files_def race_state_def live_def currentVersion_def newGuardianVersionStore_def fun_eq_iff)
  have "router_ok ''t'' race_state"
    unfolding router_ok_def none using race_ok
    by (auto simp: race_state_def authenticateGuardianMutation_def authenticateGuardianToken_def no_principals first_opt_def client_principal_def Let_def)
  moreover have "queue_key (taskPath ''r1'' ''t1'')" using router_kvs.keys demo_ids by blast
  ultimately obtain v s where "kv_Write (routerKVSClient quiet_nodes ''t'' clock err_text) race_state (taskPath ''r1'' ''t1'') [1] '''' = (Inr v, s)"
      "router_ok ''t'' s" "files s = [taskPath ''r1'' ''t1'' \<mapsto> [1]]"
    using router_kvs.write_law [of "''t''" race_state "taskPath ''r1'' ''t1''" "[1]" clock err_text] unfolding none by blast
  then show ?thesis by (simp add: EnqueueTask_def demo_codec_def filled_def)
qed


lemma demo_codec_claim: "\<exists>c. cd_claim demo_codec cl = Inr c \<and> c \<noteq> []"
  by (simp add: demo_codec_def)

lemma demo_names:
  assumes "files s = [taskPath ''r1'' ''t1'' \<mapsto> [1]]"
  shows "{n. n \<noteq> '''' \<and> files s (tasksDir ''r1'' @ ''/'' @ n) \<noteq> None} = {''t1.json''}"
  using assms by (auto simp: taskPath_def)


text \<open>C38: Claiming is not exclusive: the claim is written without an expected version, so when two workers look at a free task
  before either has written its claim, both writes succeed and both workers receive the task; the claim
  that is left names the second.\<close>

theorem ClaimTask_race:
  "\<exists>s s1 s2 v1 v2.
     (let kvs = routerKVSClient quiet_nodes ''t'' clock err_text in
      isTaskClaimed kvs s ''r1'' ''t1'' = False \<and> isTaskFinished kvs s ''r1'' ''t1'' = False \<and>
      kv_Write kvs s (claimPath ''r1'' ''t1'') [2, 1] '''' = (Inr v1, s1) \<and> read_claimed kvs demo_codec s1 ''r1'' ''t1'' = (Inr (Some demo_task), s1) \<and>
      kv_Write kvs s1 (claimPath ''r1'' ''t1'') [2, 2] '''' = (Inr v2, s2) \<and> read_claimed kvs demo_codec s2 ''r1'' ''t1'' = (Inr (Some demo_task), s2) \<and>
      cd_claim demo_codec (new_claim ''r1'' ''t1'' ''a'' 0) = Inr [2, 1] \<and> cd_claim demo_codec (new_claim ''r1'' ''t1'' ''bb'' 0) = Inr [2, 2] \<and>
      files s2 (claimPath ''r1'' ''t1'') = Some [2, 2])"
proof -
  let ?kvs = "routerKVSClient quiet_nodes ''t'' clock err_text"
  obtain s where s: "router_ok ''t'' s" "files s = [taskPath ''r1'' ''t1'' \<mapsto> [1]]" using demo_queue by blast
  note K = router_kvs.keys [OF demo_ids]
  have ne: "taskPath ''r1'' ''t1'' \<noteq> claimPath ''r1'' ''t1''" "taskPath ''r1'' ''t1'' \<noteq> resultPath ''r1'' ''t1''"
    by (simp_all add: taskPath_def claimPath_def resultPath_def tasksDir_def claimsDir_def resultsDir_def)
  have free: "isTaskClaimed ?kvs s ''r1'' ''t1'' = False" "isTaskFinished ?kvs s ''r1'' ''t1'' = False"
    using router_kvs.claimed_iff [OF s(1) demo_ids] router_kvs.finished_iff [OF s(1) demo_ids] s(2) ne by auto
  have rd: "read_claimed ?kvs demo_codec x ''r1'' ''t1'' = (Inr (Some demo_task), x)"
    if x: "router_ok ''t'' x" "files x (taskPath ''r1'' ''t1'') = Some [1]" for x
    using router_kvs.read_law [OF x(1) K [THEN conjunct1], of clock err_text] x(2) by (auto simp: read_claimed_def demo_codec_def)
  obtain v1 s1 where s1: "kv_Write ?kvs s (claimPath ''r1'' ''t1'') [2, 1] '''' = (Inr v1, s1)" "router_ok ''t'' s1"
      "files s1 = (files s)(claimPath ''r1'' ''t1'' \<mapsto> [2, 1])"
    using router_kvs.write_law [OF s(1), of "claimPath ''r1'' ''t1''" "[2, 1]" clock err_text] K by blast
  obtain v2 s2 where s2: "kv_Write ?kvs s1 (claimPath ''r1'' ''t1'') [2, 2] '''' = (Inr v2, s2)" "router_ok ''t'' s2"
      "files s2 = (files s1)(claimPath ''r1'' ''t1'' \<mapsto> [2, 2])"
    using router_kvs.write_law [OF s1(2), of "claimPath ''r1'' ''t1''" "[2, 2]" clock err_text] K by blast
  have t: "files s1 (taskPath ''r1'' ''t1'') = Some [1]" "files s2 (taskPath ''r1'' ''t1'') = Some [1]"
    using s(2) s1(3) s2(3) ne(1) by simp_all
  have cd: "cd_claim demo_codec (new_claim ''r1'' ''t1'' ''a'' 0) = Inr [2, 1]" "cd_claim demo_codec (new_claim ''r1'' ''t1'' ''bb'' 0) = Inr [2, 2]"
    by (simp_all add: demo_codec_def new_claim_def)
  have "files s2 (claimPath ''r1'' ''t1'') = Some [2, 2]" using s2(3) by simp
  with free s1(1) rd [OF s1(2) t(1)] s2(1) rd [OF s2(2) t(2)] cd show ?thesis unfolding Let_def by blast
qed

end
