(* ===== verification/Orchestrator.thy ===== *)
theory Orchestrator
  imports TaskQueue "HOL-Library.Signed_Division" "HOL-Library.Multiset"
begin

section \<open>The pipeline orchestrator\<close>

text \<open>
  The runs of pipelines (\<^verbatim>\<open>src/internal/router/pipeline/orchestrator.go\<close>): starting a run, queueing
  the tasks of its jobs, advancing it on task results, cancelling it, and the history.

  A run is referred to by its identifier where the code holds a pointer to it; runs are never removed
  from the map of runs. The part of a method between locking and unlocking is one function; the
  goroutine of \<open>StartRun\<close> and the notification after a lock is released are steps of their own.
  The time is an argument of each such part. Random identifiers come from a supply, \<open>oe_uuid\<close>.
  \<open>oe_order\<close> is the order in which a pass ranges over the jobs of a run, which can differ from pass to
  pass. \<open>oe_url_path\<close> is the path of a parsed URL.
\<close>

datatype RunState = RunPending | RunRunning | RunSucceeded | RunFailed | RunCancelled

record JobStatus =
  js_JobName :: string
  js_State :: JobState
  js_Needs :: "string list"
  js_WorkerID :: string
  js_ClaimedAt :: "int option"
  js_StartedAt :: "int option"
  js_FinishedAt :: "int option"
  js_Retries :: int
  js_MaxRetries :: int
  js_Error :: string
  js_ExitCode :: int
  js_Outputs :: "(string, string) gomap option"

record PipelineRun =
  rn_RunID :: string
  rn_PipelineName :: string
  rn_State :: RunState
  rn_Trigger :: TriggerType
  rn_CommitSHA :: string
  rn_Branch :: string
  rn_Tag :: string
  rn_PRNumber :: int
  rn_RepoFullName :: string
  rn_RepoURL :: string
  rn_ChangedFiles :: "string list"
  rn_CreatedAt :: int
  rn_StartedAt :: "int option"
  rn_FinishedAt :: "int option"
  rn_Jobs :: "(string, JobStatus) gomap"
  rn_Affected :: "string list"

text \<open>\<open>or_store\<close> is the store behind the queue, \<open>or_ids\<close> the number of identifiers drawn, and
  \<open>or_finished\<close> the snapshots handed to the callback.\<close>

record 's Orchestrator =
  or_runs :: "(string, PipelineRun) gomap"
  or_configs :: "(string, PipelineConfig) gomap"
  or_tasks :: "(string, Task) gomap"
  or_runHistory :: "string list"
  or_maxHistory :: nat
  or_onRunFinished :: bool
  or_store :: 's
  or_ids :: nat
  or_finished :: "PipelineRun list"

record ('s, 'c) orch_env =
  oe_kvs :: "('s, 'c) KVSClient"
  oe_cd :: "'c codec"
  oe_uuid :: "nat \<Rightarrow> string"
  oe_order :: "nat \<Rightarrow> string list \<Rightarrow> string list"
  oe_url_path :: "string \<Rightarrow> string option"

definition NewOrchestrator :: "'s \<Rightarrow> nat \<Rightarrow> 's Orchestrator" where
  "NewOrchestrator store ids = \<lparr>or_runs = [], or_configs = [], or_tasks = [], or_runHistory = [], or_maxHistory = 100,
     or_onRunFinished = False, or_store = store, or_ids = ids, or_finished = []\<rparr>"

definition SetOnRunFinished :: "'s Orchestrator \<Rightarrow> bool \<Rightarrow> 's Orchestrator" where
  "SetOnRunFinished o' fn = o'\<lparr>or_onRunFinished := fn\<rparr>"

definition RegisterPipeline :: "'s Orchestrator \<Rightarrow> PipelineConfig \<Rightarrow> 's Orchestrator" where
  "RegisterPipeline o' cfg = o'\<lparr>or_configs := gm_set (pc_Name cfg) cfg (or_configs o')\<rparr>"

definition UnregisterPipeline :: "'s Orchestrator \<Rightarrow> string \<Rightarrow> 's Orchestrator" where
  "UnregisterPipeline o' name = o'\<lparr>or_configs := gm_del name (or_configs o')\<rparr>"

definition ListPipelines :: "'s Orchestrator \<Rightarrow> PipelineConfig list" where
  "ListPipelines o' = map snd (or_configs o')"

definition PipelineConfigs :: "'s Orchestrator \<Rightarrow> (string, PipelineConfig) gomap" where
  "PipelineConfigs o' = or_configs o'"

subsection \<open>Expressions and matrices\<close>

fun indexOf :: "string \<Rightarrow> string \<Rightarrow> nat option" where
  "indexOf [] substr = (if substr = [] then Some 0 else None)"
| "indexOf (c # s) substr =
     (if length substr \<le> length (c # s) \<and> take (length substr) (c # s) = substr then Some 0
      else map_option Suc (indexOf s substr))"

definition placeholder :: "string \<Rightarrow> string" where
  "placeholder varName = ''${{ '' @ varName @ '' }}''"

text \<open>\<open>stringsReplace\<close> at the placeholder of a variable, its only use. The placeholder is not empty, so the loop ends.\<close>

function replaceVar :: "string \<Rightarrow> string \<Rightarrow> string \<Rightarrow> string" where
  "replaceVar s varName value =
     (case indexOf s (placeholder varName) of
        None \<Rightarrow> s
      | Some idx \<Rightarrow> take idx s @ value @ replaceVar (drop (idx + length (placeholder varName)) s) varName value)"
  by pat_completeness auto

lemma indexOf_bound: "indexOf s sub = Some i \<Longrightarrow> i + length sub \<le> length s"
  by (induction s arbitrary: i) (auto split: if_splits)

termination replaceVar
  by (relation "measure (\<lambda>(s, _, _). length s)") (auto simp: placeholder_def dest: indexOf_bound)

declare replaceVar.simps [simp del]

definition splitOutputList :: "string \<Rightarrow> string list" where
  "splitOutputList value = filter (\<lambda>e. e \<noteq> '''') (map TrimSpace (Split value CHR '',''))"

text \<open>\<open>strings.Split\<close> at \<open>.outputs.\<close>, when it gives exactly two parts.\<close>

definition two_parts :: "string \<Rightarrow> (string \<times> string) option" where
  "two_parts inner =
     (case Index inner ''.outputs.'' of
        None \<Rightarrow> None
      | Some i \<Rightarrow> let rest = drop (i + length ''.outputs.'') inner in
          if Contains rest ''.outputs.'' then None else Some (take i inner, rest))"

definition job_output :: "PipelineRun \<Rightarrow> string \<Rightarrow> string \<Rightarrow> string option" where
  "job_output run neededJob key =
     (case gm_get (rn_Jobs run) neededJob of
        None \<Rightarrow> None
      | Some job \<Rightarrow> (case js_Outputs job of None \<Rightarrow> None | Some outputs \<Rightarrow> gm_get outputs key))"

definition resolveNeedsOutputExpr :: "string \<Rightarrow> PipelineRun \<Rightarrow> string list option" where
  "resolveNeedsOutputExpr expr run =
     (let expr = TrimSpace expr in
      if \<not> HasPrefix expr ''${{ needs.'' \<or> \<not> HasSuffix expr '' }}'' then None
      else case two_parts (TrimSuffix (TrimPrefix expr ''${{ needs.'') '' }}'') of
        None \<Rightarrow> None
      | Some (a, b) \<Rightarrow>
          let neededJob = TrimSpace a; key = TrimSpace b in
          if neededJob = '''' \<or> key = '''' then None
          else case job_output run neededJob key of
            Some value \<Rightarrow> Some (splitOutputList value)
          | None \<Rightarrow> Some [])"

text \<open>The first loop of \<open>expandMatrix\<close>: \<open>Inl\<close> is an unresolved expression, \<open>Inr None\<close> the early
  return on an empty list.\<close>

fun matrix_values :: "(string \<times> MatrixVar) list \<Rightarrow> (string \<Rightarrow> string list option) \<Rightarrow> (string, (string \<times> string list) list option) result" where
  "matrix_values [] resolve = Inr (Some [])"
| "matrix_values ((k, v) # m) resolve =
     (if mv_Expr v \<noteq> '''' then
        (case resolve (mv_Expr v) of
           None \<Rightarrow> Inl (mv_Expr v)
         | Some resolved \<Rightarrow> map_sum (\<lambda>e. e) (map_option (\<lambda>kvs. (k, resolved) # kvs)) (matrix_values m resolve))
      else if mv_Static v = [] then Inr None
      else map_sum (\<lambda>e. e) (map_option (\<lambda>kvs. (k, mv_Static v) # kvs)) (matrix_values m resolve))"

fun expandMatrixRecursive :: "(string \<times> string list) list \<Rightarrow> (string, string) gomap \<Rightarrow> (string, string) gomap list" where
  "expandMatrixRecursive [] current = [current]"
| "expandMatrixRecursive ((k, vals) # rest) current =
     concat (map (\<lambda>val. expandMatrixRecursive rest (gm_set k val current)) vals)"

definition expandMatrix :: "(string, MatrixVar) gomap \<Rightarrow> (string \<Rightarrow> string list option) \<Rightarrow> (string, (string, string) gomap list) result" where
  "expandMatrix m resolve =
     (if m = [] then Inr []
      else case matrix_values m resolve of
        Inl e \<Rightarrow> Inl e
      | Inr None \<Rightarrow> Inr []
      | Inr (Some kvs) \<Rightarrow> Inr (expandMatrixRecursive kvs []))"

definition needsOutputResolver :: "PipelineRun \<Rightarrow> (string, string) gomap" where
  "needsOutputResolver run =
     fold (\<lambda>(jobName, job) resolver.
         fold (\<lambda>(key, value) resolver. gm_set (jobName @ ''.outputs.'' @ key) value resolver)
           (case js_Outputs job of None \<Rightarrow> [] | Some outputs \<Rightarrow> outputs) resolver)
       (rn_Jobs run) []"

definition substituteNeedsOutputs :: "string \<Rightarrow> (string, string) gomap \<Rightarrow> string" where
  "substituteNeedsOutputs s resolver =
     (if \<not> Contains s ''${{ needs.'' then s
      else fold (\<lambda>(key, value) s. replaceVar s (''needs.'' @ key) value) resolver s)"

subsection \<open>Tasks\<close>

definition build_step :: "(string, string) gomap \<Rightarrow> (string, string) gomap \<Rightarrow> StepConfig \<Rightarrow> StepConfig" where
  "build_step matrixVars needsOutputs step =
     step\<lparr>st_Run := substituteNeedsOutputs (fold (\<lambda>(k, v) s. replaceVar s (''matrix.'' @ k) v) matrixVars (st_Run step)) needsOutputs\<rparr>"

definition buildTask :: "PipelineRun \<Rightarrow> string \<Rightarrow> JobConfig \<Rightarrow> (string, string) gomap \<Rightarrow> Task" where
  "buildTask run jobName job matrixVars =
     (let timeout = jc_TimeoutMinutes job * 60 in
      \<lparr>tk_TaskID = '''', tk_RunID = rn_RunID run, tk_JobName = jobName, tk_RunnerType = jc_RunsOn job,
       tk_Steps = map (build_step matrixVars (needsOutputResolver run)) (jc_Steps job), tk_Env = None,
       tk_TimeoutSec = (if timeout = 0 then 600 else timeout), tk_MaxRetries = 2, tk_CreatedAt = 0,
       tk_Affected = rn_Affected run, tk_ChangedFiles = rn_ChangedFiles run\<rparr>)"

definition rememberTaskLocked :: "Task \<Rightarrow> 's Orchestrator \<Rightarrow> 's Orchestrator" where
  "rememberTaskLocked task o' =
     (if tk_TaskID task = '''' then o' else o'\<lparr>or_tasks := gm_set (tk_TaskID task) task (or_tasks o')\<rparr>)"

definition enqueue :: "('s, 'c) orch_env \<Rightarrow> int \<Rightarrow> string \<Rightarrow> Task \<Rightarrow> 's Orchestrator \<Rightarrow> queue_error option \<times> Task \<times> 's Orchestrator" where
  "enqueue env now runID task o' =
     (case EnqueueTask (oe_kvs env) (oe_cd env) (or_store o') runID (oe_uuid env (or_ids o')) now task of
        (err, task, s) \<Rightarrow> (err, task, o'\<lparr>or_store := s, or_ids := or_ids o' + 1\<rparr>))"

text \<open>Queue one task and remember it when that succeeds.\<close>

definition enqueue_remember :: "('s, 'c) orch_env \<Rightarrow> int \<Rightarrow> string \<Rightarrow> Task \<Rightarrow> 's Orchestrator \<Rightarrow> queue_error option \<times> 's Orchestrator" where
  "enqueue_remember env now runID task o' =
     (case enqueue env now runID task o' of
        (Some e, _, o') \<Rightarrow> (Some e, o')
      | (None, task, o') \<Rightarrow> (None, rememberTaskLocked task o'))"

definition enqueueJobTasks :: "('s, 'c) orch_env \<Rightarrow> int \<Rightarrow> PipelineRun \<Rightarrow> PipelineConfig \<Rightarrow> string \<Rightarrow> 's Orchestrator \<Rightarrow> nat \<times> 's Orchestrator" where
  "enqueueJobTasks env now run cfg jobName o' =
     (case gm_get (pc_Jobs cfg) jobName of
        None \<Rightarrow> (0, o')
      | Some job \<Rightarrow>
          (case jc_Strategy job of
             Some strategy \<Rightarrow>
               if sc_Matrix strategy \<noteq> [] then
                 (case expandMatrix (sc_Matrix strategy) (\<lambda>expr. resolveNeedsOutputExpr expr run) of
                    Inl _ \<Rightarrow> (0, o')
                  | Inr matrixCombos \<Rightarrow>
                      (length matrixCombos,
                       fold (\<lambda>combo o'. snd (enqueue_remember env now (rn_RunID run) (buildTask run jobName job combo) o')) matrixCombos o'))
               else (1, snd (enqueue_remember env now (rn_RunID run) (buildTask run jobName job []) o'))
           | None \<Rightarrow> (1, snd (enqueue_remember env now (rn_RunID run) (buildTask run jobName job []) o'))))"

definition retryTaskLocked :: "'s Orchestrator \<Rightarrow> PipelineRun \<Rightarrow> string \<Rightarrow> string \<Rightarrow> int \<Rightarrow> Task option" where
  "retryTaskLocked o' run jobName taskID retries =
     (let retry =
        (case gm_get (or_tasks o') taskID of
           Some original \<Rightarrow> Some (original\<lparr>tk_TaskID := ''''\<rparr>)
         | None \<Rightarrow>
             (case gm_get (or_configs o') (rn_PipelineName run) of
                None \<Rightarrow> None
              | Some cfg \<Rightarrow>
                  (case gm_get (pc_Jobs cfg) jobName of
                     None \<Rightarrow> None
                   | Some job \<Rightarrow> Some (buildTask run jobName job []))))
      in map_option (\<lambda>retry. retry\<lparr>tk_MaxRetries := retries,
           tk_TimeoutSec := (if tk_TimeoutSec retry = 0 then 600 else tk_TimeoutSec retry)\<rparr>) retry)"

subsection \<open>States\<close>

definition isTerminalRunState :: "RunState \<Rightarrow> bool" where
  "isTerminalRunState state \<longleftrightarrow> state = RunSucceeded \<or> state = RunFailed \<or> state = RunCancelled"

definition job_done :: "JobState \<Rightarrow> bool" where
  "job_done s \<longleftrightarrow> s = JobSucceeded \<or> s = JobSkipped \<or> s = JobFailed \<or> s = JobCancelled"

definition setRunStateLocked :: "RunState \<Rightarrow> PipelineRun \<times> 's Orchestrator \<Rightarrow> PipelineRun \<times> 's Orchestrator" where
  "setRunStateLocked state = (\<lambda>(run, o').
     (run\<lparr>rn_State := state\<rparr>,
      if isTerminalRunState state then o'\<lparr>or_tasks := filter (\<lambda>(_, task). tk_RunID task \<noteq> rn_RunID run) (or_tasks o')\<rparr> else o'))"

definition set_job :: "string \<Rightarrow> (JobStatus \<Rightarrow> JobStatus) \<Rightarrow> PipelineRun \<Rightarrow> PipelineRun" where
  "set_job jobName f run =
     (case gm_get (rn_Jobs run) jobName of
        None \<Rightarrow> run
      | Some job \<Rightarrow> run\<lparr>rn_Jobs := gm_set jobName (f job) (rn_Jobs run)\<rparr>)"

definition setJobStateLocked :: "string \<Rightarrow> JobState \<Rightarrow> PipelineRun \<Rightarrow> PipelineRun" where
  "setJobStateLocked jobName state = set_job jobName (\<lambda>job. job\<lparr>js_State := state\<rparr>)"

definition hasActiveJobs :: "PipelineRun \<Rightarrow> bool" where
  "hasActiveJobs run = list_ex (\<lambda>(_, job). js_State job = JobPending \<or> js_State job = JobClaimed \<or> js_State job = JobRunning) (rn_Jobs run)"

definition anyJobFailed :: "PipelineRun \<Rightarrow> bool" where
  "anyJobFailed run = list_ex (\<lambda>(_, job). js_State job = JobFailed) (rn_Jobs run)"

definition put_run :: "PipelineRun \<times> 's Orchestrator \<Rightarrow> 's Orchestrator" where
  "put_run = (\<lambda>(run, o'). o'\<lparr>or_runs := gm_set (rn_RunID run) run (or_runs o')\<rparr>)"

definition cloneRun :: "PipelineRun \<Rightarrow> PipelineRun" where
  "cloneRun run = run\<lparr>rn_Jobs := map (\<lambda>(k, v). (k, v)) (rn_Jobs run)\<rparr>"

definition notifyRunFinished :: "string \<Rightarrow> 's Orchestrator \<Rightarrow> 's Orchestrator" where
  "notifyRunFinished runID o' =
     (if \<not> or_onRunFinished o' then o'
      else case gm_get (or_runs o') runID of
        None \<Rightarrow> o'
      | Some run \<Rightarrow> o'\<lparr>or_finished := or_finished o' @ [cloneRun run]\<rparr>)"

subsection \<open>Starting a run\<close>

definition repoFullNameFromURL :: "('s, 'c) orch_env \<Rightarrow> string \<Rightarrow> string" where
  "repoFullNameFromURL env repoURL =
     (let repoURL = TrimSpace repoURL in
      if repoURL = '''' then ''''
      else
        let repoURL = (case oe_url_path env repoURL of Some p \<Rightarrow> if p \<noteq> '''' then p else repoURL | None \<Rightarrow> repoURL);
            parts = Split (TrimSuffix (TrimPrefix repoURL ''/'') ''.git'') slash in
        if length parts < 2 then '''' else Join (drop (length parts - 2) parts) ''/'')"

definition cancelRunLocked :: "int \<Rightarrow> PipelineRun \<Rightarrow> PipelineRun" where
  "cancelRunLocked now run =
     run\<lparr>rn_State := RunCancelled, rn_FinishedAt := Some now,
       rn_Jobs := map (\<lambda>(k, job).
         (k, if js_State job = JobPending \<or> js_State job = JobClaimed \<or> js_State job = JobRunning then job\<lparr>js_State := JobCancelled\<rparr> else job)) (rn_Jobs run)\<rparr>"

definition cancelExistingRuns :: "int \<Rightarrow> string \<Rightarrow> 's Orchestrator \<Rightarrow> 's Orchestrator" where
  "cancelExistingRuns now pipelineName o' =
     o'\<lparr>or_runs := map (\<lambda>(k, run).
       (k, if rn_PipelineName run = pipelineName \<and> rn_State run = RunRunning then cancelRunLocked now run else run)) (or_runs o')\<rparr>"

definition addToHistory :: "string \<Rightarrow> 's Orchestrator \<Rightarrow> 's Orchestrator" where
  "addToHistory runID o' =
     (let h = or_runHistory o' @ [runID] in
      o'\<lparr>or_runHistory := (if length h > or_maxHistory o' then tl h else h)\<rparr>)"

definition new_job :: "string \<Rightarrow> JobConfig \<Rightarrow> JobStatus" where
  "new_job jobName jobConfig =
     \<lparr>js_JobName = jobName, js_State = JobPending, js_Needs = jc_Needs jobConfig, js_WorkerID = '''', js_ClaimedAt = None,
      js_StartedAt = None, js_FinishedAt = None, js_Retries = 0, js_MaxRetries = 2, js_Error = '''', js_ExitCode = 0, js_Outputs = None\<rparr>"

definition new_run :: "('s, 'c) orch_env \<Rightarrow> int \<Rightarrow> string \<Rightarrow> PipelineConfig \<Rightarrow> WebhookEvent \<Rightarrow> string list \<Rightarrow> PipelineRun" where
  "new_run env now runID cfg event affected =
     \<lparr>rn_RunID = runID, rn_PipelineName = pc_Name cfg, rn_State = RunPending, rn_Trigger = ev_EventType event,
      rn_CommitSHA = ev_CommitSHA event, rn_Branch = ev_Branch event, rn_Tag = ev_Tag event, rn_PRNumber = ev_PRNumber event,
      rn_RepoFullName = repoFullNameFromURL env (ev_RepoURL event), rn_RepoURL = ev_RepoURL event,
      rn_ChangedFiles = ev_ChangedFiles event, rn_CreatedAt = now, rn_StartedAt = None, rn_FinishedAt = None,
      rn_Jobs = map (\<lambda>(jobName, jobConfig). (jobName, new_job jobName jobConfig)) (pc_Jobs cfg), rn_Affected = affected\<rparr>"

text \<open>The identifier of the new run is returned; the goroutine that executes it is a step of its own.\<close>

definition StartRun :: "('s, 'c) orch_env \<Rightarrow> int \<Rightarrow> PipelineConfig \<Rightarrow> WebhookEvent \<Rightarrow> string list \<Rightarrow> 's Orchestrator \<Rightarrow> string \<times> 's Orchestrator" where
  "StartRun env now cfg event affected o' =
     (let o' = (case pc_Concurrency cfg of
          Some c \<Rightarrow> if cc_CancelInProgress c then cancelExistingRuns now (pc_Name cfg) o' else o'
        | None \<Rightarrow> o');
        runID = oe_uuid env (or_ids o');
        o' = put_run (new_run env now runID cfg event affected, o'\<lparr>or_ids := or_ids o' + 1\<rparr>)
      in (runID, addToHistory runID o'))"

definition evaluateCondition :: "string \<Rightarrow> PipelineRun \<Rightarrow> string list \<Rightarrow> bool" where
  "evaluateCondition cond run affected =
     (if cond = ''always()'' \<or> cond = '''' then True
      else if cond = ''failure()'' then rn_State run = RunFailed
      else if cond = ''success()'' then rn_State run \<noteq> RunFailed
      else if cond = ''cancelled()'' then rn_State run = RunCancelled
      else if cond = ''affected != '' @ [CHR 0x27, CHR 0x27] then affected \<noteq> []
      else True)"

definition canRunJob :: "PipelineConfig \<Rightarrow> PipelineRun \<Rightarrow> string \<Rightarrow> string list \<Rightarrow> bool" where
  "canRunJob cfg run jobName affected =
     (case gm_get (pc_Jobs cfg) jobName of
        None \<Rightarrow> False
      | Some job \<Rightarrow> \<not> (jc_If job \<noteq> '''' \<and> \<not> evaluateCondition (jc_If job) run affected))"

text \<open>One entry point of \<open>executeRun\<close>; the number counts the jobs started.\<close>

definition execute_job ::
  "('s, 'c) orch_env \<Rightarrow> int \<Rightarrow> PipelineConfig \<Rightarrow> string list \<Rightarrow> string \<Rightarrow> nat \<times> PipelineRun \<times> 's Orchestrator \<Rightarrow> nat \<times> PipelineRun \<times> 's Orchestrator"
where
  "execute_job env now cfg affected jobName = (\<lambda>(jobsStarted, run, o').
     case gm_get (rn_Jobs run) jobName of
       None \<Rightarrow> (jobsStarted, run, o')
     | Some j \<Rightarrow>
         if js_State j \<noteq> JobPending then (jobsStarted, run, o')
         else if canRunJob cfg run jobName affected then
           (case enqueueJobTasks env now run cfg jobName o' of (enqueued, o') \<Rightarrow>
              if enqueued > 0 then (jobsStarted + 1, setJobStateLocked jobName JobRunning run, o')
              else (jobsStarted, setJobStateLocked jobName JobSkipped run, o'))
         else (jobsStarted, setJobStateLocked jobName JobSkipped run, o'))"

text \<open>The result tells whether the callback is to be notified.\<close>

definition executeRun ::
  "('s, 'c) orch_env \<Rightarrow> int \<Rightarrow> string \<Rightarrow> PipelineConfig \<Rightarrow> string list \<Rightarrow> 's Orchestrator \<Rightarrow> bool \<times> 's Orchestrator"
where
  "executeRun env now runID cfg affected o' =
     (case gm_get (or_runs o') runID of
        None \<Rightarrow> (False, o')
      | Some run \<Rightarrow>
          if rn_State run \<noteq> RunPending then (False, o')
          else
            case setRunStateLocked RunRunning (run, o') of (run, o') \<Rightarrow>
            (case fold (execute_job env now cfg affected) (EntrypointJobs cfg) (0, run\<lparr>rn_StartedAt := Some now\<rparr>, o') of
               (jobsStarted, run, o') \<Rightarrow>
                 if jobsStarted = 0 then
                   if hasActiveJobs run then
                     (False, put_run (if rn_State run = RunPending then setRunStateLocked RunRunning (run, o') else (run, o')))
                   else
                     (case setRunStateLocked RunSucceeded (run, o') of (run, o') \<Rightarrow>
                        (True, put_run (run\<lparr>rn_FinishedAt := Some now\<rparr>, o')))
                 else (False, put_run (run, o'))))"

subsection \<open>Advancing a run\<close>

text \<open>One job of one pass: the jobs known to be complete, whether the pass progressed, the run and the orchestrator.\<close>

definition advance_job ::
  "('s, 'c) orch_env \<Rightarrow> int \<Rightarrow> PipelineConfig \<Rightarrow> string \<Rightarrow> string set \<times> bool \<times> PipelineRun \<times> 's Orchestrator \<Rightarrow>
    string set \<times> bool \<times> PipelineRun \<times> 's Orchestrator"
where
  "advance_job env now cfg jobName = (\<lambda>(completed, progressed, run, o').
     case gm_get (rn_Jobs run) jobName of
       None \<Rightarrow> (completed, progressed, run, o')
     | Some job \<Rightarrow>
         if js_State job \<noteq> JobPending then (completed, progressed, run, o')
         else if \<not> AllNeedsSatisfied cfg jobName completed then (completed, progressed, run, o')
         else case enqueueJobTasks env now run cfg jobName o' of (enqueued, o') \<Rightarrow>
           if enqueued > 0 then
             let run = setJobStateLocked jobName JobRunning run in
             if rn_State run = RunPending then
               (case setRunStateLocked RunRunning (run, o') of (run, o') \<Rightarrow>
                  (completed, True, if rn_StartedAt run = None then run\<lparr>rn_StartedAt := Some now\<rparr> else run, o'))
             else (completed, True, run, o')
           else (insert jobName completed, True, setJobStateLocked jobName JobSkipped run, o'))"

definition advance_pass ::
  "('s, 'c) orch_env \<Rightarrow> int \<Rightarrow> PipelineConfig \<Rightarrow> string list \<Rightarrow> string set \<times> PipelineRun \<times> 's Orchestrator \<Rightarrow>
    string set \<times> bool \<times> PipelineRun \<times> 's Orchestrator"
where
  "advance_pass env now cfg names = (\<lambda>(completed, run, o'). fold (advance_job env now cfg) names (completed, False, run, o'))"

text \<open>At most \<open>maxPasses\<close> passes.\<close>

fun advance_passes ::
  "('s, 'c) orch_env \<Rightarrow> int \<Rightarrow> PipelineConfig \<Rightarrow> nat \<Rightarrow> string set \<times> PipelineRun \<times> 's Orchestrator \<Rightarrow> string set \<times> PipelineRun \<times> 's Orchestrator"
where
  "advance_passes env now cfg 0 st = st"
| "advance_passes env now cfg (Suc n) st =
     (case advance_pass env now cfg (oe_order env n (map fst (rn_Jobs (fst (snd st))))) st of
        (completed, progressed, run, o') \<Rightarrow>
          if \<not> progressed then (completed, run, o') else advance_passes env now cfg n (completed, run, o'))"

definition completed_jobs :: "PipelineRun \<Rightarrow> string set" where
  "completed_jobs run = set (map fst (filter (\<lambda>(_, job). job_done (js_State job)) (rn_Jobs run)))"

definition advancePipeline :: "('s, 'c) orch_env \<Rightarrow> int \<Rightarrow> PipelineRun \<times> 's Orchestrator \<Rightarrow> PipelineRun \<times> 's Orchestrator" where
  "advancePipeline env now = (\<lambda>(run, o').
     case gm_get (or_configs o') (rn_PipelineName run) of
       None \<Rightarrow> (run, o')
     | Some cfg \<Rightarrow>
         (case advance_passes env now cfg (length (rn_Jobs run) + 1) (completed_jobs run, run, o') of
            (completed, run, o') \<Rightarrow>
              if list_all (\<lambda>(_, job). js_JobName job \<in> completed \<or> job_done (js_State job)) (rn_Jobs run) then
                (case setRunStateLocked (if anyJobFailed run then RunFailed else RunSucceeded) (run, o') of (run, o') \<Rightarrow>
                   (run\<lparr>rn_FinishedAt := Some now\<rparr>, o'))
              else (run, o')))"

text \<open>A failed task: the job is queued again while it has retries left, and fails with the run otherwise.\<close>

definition task_failed ::
  "('s, 'c) orch_env \<Rightarrow> int \<Rightarrow> TaskResult \<Rightarrow> JobStatus \<Rightarrow> PipelineRun \<times> 's Orchestrator \<Rightarrow> PipelineRun \<times> 's Orchestrator"
where
  "task_failed env now result job = (\<lambda>(run, o').
     let jobName = tr_JobName result; run = set_job jobName (\<lambda>job. job\<lparr>js_Retries := js_Retries job + 1\<rparr>) run in
     if js_Retries job + 1 < js_MaxRetries job then
       let run = setJobStateLocked jobName JobRunning run in
       (case retryTaskLocked o' run jobName (tr_TaskID result) (js_MaxRetries job - (js_Retries job + 1)) of
          None \<Rightarrow> (setJobStateLocked jobName JobFailed run, o')
        | Some retry \<Rightarrow>
            (case enqueue_remember env now (tr_RunID result) retry o' of
               (Some _, o') \<Rightarrow> (setJobStateLocked jobName JobFailed run, o')
             | (None, o') \<Rightarrow> (run, o')))
     else
       case setRunStateLocked RunFailed
           (set_job jobName (\<lambda>job. job\<lparr>js_State := JobFailed, js_Error := tr_Error result,
              js_WorkerID := tr_WorkerID result, js_ExitCode := tr_ExitCode result\<rparr>) run, o') of
         (run, o') \<Rightarrow> (run\<lparr>rn_FinishedAt := Some now\<rparr>, o'))"

definition task_succeeded :: "('s, 'c) orch_env \<Rightarrow> int \<Rightarrow> TaskResult \<Rightarrow> PipelineRun \<times> 's Orchestrator \<Rightarrow> PipelineRun \<times> 's Orchestrator" where
  "task_succeeded env now result = (\<lambda>(run, o').
     advancePipeline env now
       (set_job (tr_JobName result) (\<lambda>job. job\<lparr>js_State := JobSucceeded, js_WorkerID := tr_WorkerID result, js_ExitCode := tr_ExitCode result,
          js_Outputs := tr_Outputs result, js_FinishedAt := Some (tr_EndedAt result)\<rparr>) run, o'))"

definition OnTaskResult :: "('s, 'c) orch_env \<Rightarrow> int \<Rightarrow> TaskResult \<Rightarrow> 's Orchestrator \<Rightarrow> bool \<times> 's Orchestrator" where
  "OnTaskResult env now result o' =
     (case gm_get (or_runs o') (tr_RunID result) of
        None \<Rightarrow> (False, o')
      | Some run \<Rightarrow>
          (case gm_get (rn_Jobs run) (tr_JobName result) of
             None \<Rightarrow> (False, o')
           | Some job \<Rightarrow>
               let st = (case tr_State result of
                   JobSucceeded \<Rightarrow> task_succeeded env now result (run, o')
                 | JobFailed \<Rightarrow> task_failed env now result job (run, o')
                 | _ \<Rightarrow> (run, o'))
               in (\<not> isTerminalRunState (rn_State run) \<and> isTerminalRunState (rn_State (fst st)), put_run st)))"

subsection \<open>Cancelling, listing, statistics\<close>

datatype run_error = RunNotFound string | RunAlreadyFinished RunState

definition CancelRun :: "int \<Rightarrow> string \<Rightarrow> 's Orchestrator \<Rightarrow> (run_error, unit) result \<times> 's Orchestrator" where
  "CancelRun now runID o' =
     (case gm_get (or_runs o') runID of
        None \<Rightarrow> (Inl (RunNotFound runID), o')
      | Some run \<Rightarrow>
          if isTerminalRunState (rn_State run) then (Inl (RunAlreadyFinished (rn_State run)), o')
          else (Inr (), put_run (cancelRunLocked now run, o')))"

definition GetRun :: "string \<Rightarrow> 's Orchestrator \<Rightarrow> (run_error, PipelineRun) result" where
  "GetRun runID o' = (case gm_get (or_runs o') runID of None \<Rightarrow> Inl (RunNotFound runID) | Some run \<Rightarrow> Inr (cloneRun run))"

definition history :: "'s Orchestrator \<Rightarrow> PipelineRun list" where
  "history o' = List.map_filter (gm_get (or_runs o')) (or_runHistory o')"

fun list_runs :: "string \<Rightarrow> int \<Rightarrow> PipelineRun list \<Rightarrow> PipelineRun list \<Rightarrow> PipelineRun list" where
  "list_runs pipelineName limit [] result = result"
| "list_runs pipelineName limit (run # runs) result =
     (if pipelineName = '''' \<or> rn_PipelineName run = pipelineName then
        let result = result @ [run] in
        if int (length result) \<ge> limit then result else list_runs pipelineName limit runs result
      else list_runs pipelineName limit runs result)"

definition ListRuns :: "string \<Rightarrow> int \<Rightarrow> 's Orchestrator \<Rightarrow> PipelineRun list" where
  "ListRuns pipelineName limit o' = list_runs pipelineName limit (rev (history o')) []"

text \<open>The exchange sort of \<open>percentile\<close>: the inner loop moves the least element to the front.\<close>

fun exchange_pass :: "int \<Rightarrow> int list \<Rightarrow> int \<times> int list" where
  "exchange_pass x [] = (x, [])"
| "exchange_pass x (y # ys) =
     (if x > y then (case exchange_pass y ys of (m, r) \<Rightarrow> (m, x # r)) else (case exchange_pass x ys of (m, r) \<Rightarrow> (m, y # r)))"

lemma exchange_pass_mset: "exchange_pass x xs = (m, r) \<Longrightarrow> add_mset m (mset r) = add_mset x (mset xs)"
  by (induction xs arbitrary: x m r) (auto split: if_splits prod.splits simp: add_mset_commute)

lemma exchange_pass_least: "exchange_pass x xs = (m, r) \<Longrightarrow> m \<le> x \<and> (\<forall>y \<in> set r. m \<le> y)"
  by (induction xs arbitrary: x m r) (force split: if_splits prod.splits)+

lemma exchange_pass_length: "exchange_pass x xs = (m, r) \<Longrightarrow> length r = length xs"
  by (induction xs arbitrary: x m r) (auto split: if_splits prod.splits)

function exchange_sort :: "int list \<Rightarrow> int list" where
  "exchange_sort [] = []"
| "exchange_sort (x # xs) = (case exchange_pass x xs of (m, r) \<Rightarrow> m # exchange_sort r)"
  by pat_completeness auto
termination
  by (relation "measure length") (auto dest!: exchange_pass_length [OF sym])

definition percentile :: "int list \<Rightarrow> nat \<Rightarrow> int" where
  "percentile durations p =
     (if durations = [] then 0
      else
        let sorted = exchange_sort durations;
            idx = length sorted * p div 100;
            idx = (if idx \<ge> length sorted then length sorted - 1 else idx) in
        sorted ! idx)"

text \<open>The rate of success, a quotient of the two counts in floating point, is left out.\<close>

record PipelineStats =
  ps_TotalRuns :: nat
  ps_SucceededRuns :: nat
  ps_FailedRuns :: nat
  ps_AvgDurationMs :: int
  ps_P50DurationMs :: int
  ps_P95DurationMs :: int

definition run_duration :: "PipelineRun \<Rightarrow> int option" where
  "run_duration run =
     (case (rn_StartedAt run, rn_FinishedAt run) of
        (Some a, Some b) \<Rightarrow> Some ((b - a) sdiv 1000000)
      | _ \<Rightarrow> None)"

definition GetStats :: "string \<Rightarrow> 's Orchestrator \<Rightarrow> PipelineStats" where
  "GetStats pipelineName o' =
     (let runs = filter (\<lambda>run. \<not> (pipelineName \<noteq> '''' \<and> rn_PipelineName run \<noteq> pipelineName)) (history o');
          durations = List.map_filter run_duration runs in
      \<lparr>ps_TotalRuns = length runs,
       ps_SucceededRuns = length (filter (\<lambda>run. rn_State run = RunSucceeded) runs),
       ps_FailedRuns = length (filter (\<lambda>run. rn_State run = RunFailed) runs),
       ps_AvgDurationMs = (if durations = [] then 0 else sum_list durations sdiv int (length durations)),
       ps_P50DurationMs = percentile durations 50,
       ps_P95DurationMs = percentile durations 95\<rparr>)"

subsection \<open>What queueing leaves alone\<close>

text \<open>The parts of the orchestrator that queueing a task does not touch.\<close>

definition same_core :: "'s Orchestrator \<Rightarrow> 's Orchestrator \<Rightarrow> bool" where
  "same_core o1 o2 \<longleftrightarrow> or_runs o1 = or_runs o2 \<and> or_configs o1 = or_configs o2 \<and> or_runHistory o1 = or_runHistory o2 \<and>
     or_maxHistory o1 = or_maxHistory o2 \<and> or_onRunFinished o1 = or_onRunFinished o2 \<and> or_finished o1 = or_finished o2 \<and> or_ids o1 \<le> or_ids o2"

lemma same_core_refl [simp, intro]: "same_core a a"
  by (simp add: same_core_def)

lemma same_core_trans [trans]: "same_core a b \<Longrightarrow> same_core b c \<Longrightarrow> same_core a c"
  by (auto simp: same_core_def)

lemma enqueue_remember_core: "same_core o' (snd (enqueue_remember env now runID task o'))"
  by (auto simp: enqueue_remember_def enqueue_def rememberTaskLocked_def same_core_def split: prod.splits option.splits)

lemma enqueueJobTasks_core: "same_core o' (snd (enqueueJobTasks env now run cfg jobName o'))"
proof -
  have "same_core a (fold (\<lambda>combo o'. snd (enqueue_remember env now (rn_RunID run) (buildTask run jobName job combo) o')) cs a)" for a job cs
    by (induction cs arbitrary: a) (auto intro: same_core_trans enqueue_remember_core)
  then show ?thesis
    by (auto simp: enqueueJobTasks_def intro: enqueue_remember_core split: option.splits sum.splits)
qed

lemma setRunStateLocked_core: "setRunStateLocked st (run, o') = (run', o'') \<Longrightarrow> run' = run\<lparr>rn_State := st\<rparr> \<and> same_core o' o''"
  by (auto simp: setRunStateLocked_def same_core_def split: if_splits)

subsection \<open>The states of the jobs of a run\<close>

definition jstate :: "PipelineRun \<Rightarrow> string \<Rightarrow> JobState option" where
  "jstate run n = map_option js_State (gm_get (rn_Jobs run) n)"

text \<open>The names and needs of the jobs, which never change.\<close>

definition shape :: "PipelineRun \<Rightarrow> (string \<times> string \<times> string list) list" where
  "shape run = map (\<lambda>(n, j). (n, js_JobName j, js_Needs j)) (rn_Jobs run)"

definition names_ok :: "PipelineRun \<Rightarrow> bool" where
  "names_ok run \<longleftrightarrow> gm_wf (rn_Jobs run) \<and> list_all (\<lambda>(n, j). js_JobName j = n) (rn_Jobs run)"

lemma shape_keys: "shape run = shape run' \<Longrightarrow> map fst (rn_Jobs run) = map fst (rn_Jobs run')"
  by (drule arg_cong [where f = "map fst"]) (simp add: shape_def comp_def case_prod_beta)

lemma shape_names:
  assumes "shape run = shape run'" "names_ok run" shows "names_ok run'"
proof -
  have "list_all (\<lambda>(n, j). js_JobName j = n) (rn_Jobs r) \<longleftrightarrow> list_all (\<lambda>(n, m, _). m = n) (shape r)" for r
    by (auto simp: shape_def list_all_iff)
  with assms shape_keys [OF assms(1)] show ?thesis by (simp add: names_ok_def)
qed

lemma gm_set_same: "gm_get m k = Some v \<Longrightarrow> gm_wf m \<Longrightarrow> gm_set k v' m = map (\<lambda>(a, b). if a = k then (a, v') else (a, b)) m"
proof (induction m)
  case (Cons p m)
  obtain a b where p: "p = (a, b)" by (cases p)
  show ?case
  proof (cases "a = k")
    case True
    then have "map (\<lambda>(a, b). if a = k then (a, v') else (a, b)) m = m" using Cons.prems p by (intro map_idI) force
    with True p show ?thesis by simp
  qed (use Cons p in simp)
qed simp

lemma set_job_shape:
  assumes "\<And>j. js_JobName (f j) = js_JobName j \<and> js_Needs (f j) = js_Needs j" "names_ok run"
  shows "shape (set_job n f run) = shape run"
proof (cases "gm_get (rn_Jobs run) n")
  case (Some j)
  have wf: "gm_wf (rn_Jobs run)" using assms(2) by (simp add: names_ok_def)
  have "b = j" if "(n, b) \<in> set (rn_Jobs run)" for b using Some that wf by (simp add: map_of_eq_Some_iff eq_key_imp_eq_value)
  then show ?thesis
    using Some assms(1) gm_set_same [OF Some wf] by (auto simp: set_job_def shape_def)
qed (simp add: set_job_def)

lemma jstate_set_job:
  "jstate (set_job n f run) m = (if m = n then map_option (\<lambda>j. js_State (f j)) (gm_get (rn_Jobs run) n) else jstate run m)"
  by (auto simp: jstate_def set_job_def split: option.splits)

lemma jstate_setJobState [simp]:
  "jstate (setJobStateLocked n st run) m = (if m = n \<and> jstate run n \<noteq> None then Some st else jstate run m)"
  unfolding setJobStateLocked_def jstate_set_job by (auto simp: jstate_def)

lemma shape_setJobState [simp]: "names_ok run \<Longrightarrow> shape (setJobStateLocked n st run) = shape run"
  unfolding setJobStateLocked_def by (rule set_job_shape) simp_all

lemma jstate_update [simp]:
  "jstate (run\<lparr>rn_State := s\<rparr>) = jstate run" "jstate (run\<lparr>rn_StartedAt := t\<rparr>) = jstate run" "jstate (run\<lparr>rn_FinishedAt := t\<rparr>) = jstate run"
  "shape (run\<lparr>rn_State := s\<rparr>) = shape run" "shape (run\<lparr>rn_StartedAt := t\<rparr>) = shape run" "shape (run\<lparr>rn_FinishedAt := t\<rparr>) = shape run"
  by (simp_all add: jstate_def shape_def fun_eq_iff)

lemma completed_jobs_iff: "names_ok run \<Longrightarrow> n \<in> completed_jobs run \<longleftrightarrow> (\<exists>s. jstate run n = Some s \<and> job_done s)"
  by (force simp: completed_jobs_def jstate_def names_ok_def map_of_eq_Some_iff)

lemma jstate_keys: "jstate run n \<noteq> None \<longleftrightarrow> n \<in> fst ` set (rn_Jobs run)"
  by (simp add: jstate_def map_of_eq_None_iff)


subsection \<open>Advancing reaches a fixpoint\<close>

text \<open>How a job may change while the run advances: a pending job whose needs have ended is started or skipped.\<close>

definition job_advanced :: "PipelineConfig \<Rightarrow> PipelineRun \<Rightarrow> PipelineRun \<Rightarrow> string \<Rightarrow> bool" where
  "job_advanced cfg run run' n \<longleftrightarrow> gm_get (rn_Jobs run') n = gm_get (rn_Jobs run) n \<or>
     (\<exists>j st. gm_get (rn_Jobs run) n = Some j \<and> js_State j = JobPending \<and> gm_get (rn_Jobs run') n = Some (j\<lparr>js_State := st\<rparr>) \<and>
        (st = JobRunning \<or> st = JobSkipped) \<and> AllNeedsSatisfied cfg n (completed_jobs run'))"

definition run_advanced :: "PipelineRun \<Rightarrow> PipelineRun \<Rightarrow> bool" where
  "run_advanced run run' \<longleftrightarrow> rn_RunID run' = rn_RunID run \<and> rn_PipelineName run' = rn_PipelineName run \<and> rn_FinishedAt run' = rn_FinishedAt run \<and>
     (rn_State run' = rn_State run \<and> rn_StartedAt run' = rn_StartedAt run \<or>
      rn_State run = RunPending \<and> rn_State run' = RunRunning \<and> rn_StartedAt run' \<noteq> None)"

definition advanced :: "PipelineConfig \<Rightarrow> PipelineRun \<Rightarrow> PipelineRun \<Rightarrow> bool" where
  "advanced cfg run run' \<longleftrightarrow> shape run' = shape run \<and> run_advanced run run' \<and> (\<forall>n. job_advanced cfg run run' n)"

definition ready :: "PipelineConfig \<Rightarrow> PipelineRun \<Rightarrow> string \<Rightarrow> bool" where
  "ready cfg run n \<longleftrightarrow> jstate run n = Some JobPending \<and> AllNeedsSatisfied cfg n (completed_jobs run)"

definition pending :: "PipelineRun \<Rightarrow> string set" where
  "pending run = {n. jstate run n = Some JobPending}"

lemma finite_pending [simp]: "finite (pending run)"
  by (rule finite_subset [of _ "fst ` set (rn_Jobs run)"]) (auto simp: pending_def simp flip: jstate_keys)

lemma card_pending: "names_ok run \<Longrightarrow> card (pending run) \<le> length (rn_Jobs run)"
proof -
  assume "names_ok run"
  then have "card (set (map fst (rn_Jobs run))) = length (map fst (rn_Jobs run))" unfolding names_ok_def by (intro distinct_card) simp
  then have "card (fst ` set (rn_Jobs run)) = length (rn_Jobs run)" by simp
  moreover have "pending run \<subseteq> fst ` set (rn_Jobs run)" by (auto simp: pending_def simp flip: jstate_keys)
  ultimately show ?thesis by (metis card_mono finite_imageI finite_set)
qed

lemma AllNeedsSatisfied_mono: "AllNeedsSatisfied cfg n A \<Longrightarrow> A \<subseteq> B \<Longrightarrow> AllNeedsSatisfied cfg n B"
  by (auto simp: AllNeedsSatisfied_def list_all_iff split: option.splits)

lemma job_advanced_state:
  "job_advanced cfg run run' n \<Longrightarrow> jstate run' n = jstate run n \<or>
     jstate run n = Some JobPending \<and> (jstate run' n = Some JobRunning \<or> jstate run' n = Some JobSkipped)"
  by (auto simp: job_advanced_def jstate_def)

lemma advanced_refl [simp]: "advanced cfg run run"
  by (simp add: advanced_def job_advanced_def run_advanced_def)

lemma advanced_completed: "advanced cfg run run' \<Longrightarrow> names_ok run \<Longrightarrow> completed_jobs run \<subseteq> completed_jobs run'"
proof
  fix n assume a: "advanced cfg run run'" "names_ok run" "n \<in> completed_jobs run"
  have "names_ok run'" using a(1,2) by (auto simp: advanced_def intro: shape_names [of run])
  moreover have "jstate run' n = jstate run n \<or> jstate run n = Some JobPending" using a(1) job_advanced_state unfolding advanced_def by blast
  ultimately show "n \<in> completed_jobs run'" using a(2,3) by (auto simp: completed_jobs_iff job_done_def)
qed

lemma advanced_trans:
  assumes "advanced cfg a b" "advanced cfg b c" "names_ok a"
  shows "advanced cfg a c"
proof -
  have b: "names_ok b" using assms(1,3) by (auto simp: advanced_def intro: shape_names [of a])
  have "job_advanced cfg a c n" for n
  proof (cases "gm_get (rn_Jobs b) n = gm_get (rn_Jobs a) n")
    case True
    moreover have "job_advanced cfg b c n" using assms(2) by (simp add: advanced_def)
    ultimately show ?thesis by (simp add: job_advanced_def)
  next
    case False
    then obtain j st where j: "gm_get (rn_Jobs a) n = Some j" "js_State j = JobPending" "gm_get (rn_Jobs b) n = Some (j\<lparr>js_State := st\<rparr>)"
        "st = JobRunning \<or> st = JobSkipped" "AllNeedsSatisfied cfg n (completed_jobs b)"
      using assms(1) by (auto simp: advanced_def job_advanced_def)
    moreover have "job_advanced cfg b c n" using assms(2) by (simp add: advanced_def)
    ultimately have "gm_get (rn_Jobs c) n = gm_get (rn_Jobs b) n" by (auto simp: job_advanced_def)
    moreover have "AllNeedsSatisfied cfg n (completed_jobs c)" using j(5) advanced_completed [OF assms(2) b] by (rule AllNeedsSatisfied_mono)
    ultimately show ?thesis using j by (auto simp: job_advanced_def)
  qed
  with assms(1,2) show ?thesis by (auto simp: advanced_def run_advanced_def)
qed

lemma advanced_pending: "advanced cfg run run' \<Longrightarrow> pending run' \<subseteq> pending run"
proof
  fix n assume a: "advanced cfg run run'" "n \<in> pending run'"
  then have "job_advanced cfg run run' n" by (simp add: advanced_def)
  from job_advanced_state [OF this] a(2) show "n \<in> pending run" by (auto simp: pending_def)
qed

text \<open>One job: either it is not ready and nothing changes, or it leaves the pending state.\<close>

lemma advance_job_step:
  assumes "names_ok run"
  obtains (idle) "\<not> ready cfg run n" "advance_job env now cfg n (completed_jobs run, p, run, o') = (completed_jobs run, p, run, o')"
  | (moved) run' o'' where "ready cfg run n" "advance_job env now cfg n (completed_jobs run, p, run, o') = (completed_jobs run', True, run', o'')"
      "advanced cfg run run'" "same_core o' o''" "n \<notin> pending run'"
proof (cases "ready cfg run n")
  case False
  then have "advance_job env now cfg n (completed_jobs run, p, run, o') = (completed_jobs run, p, run, o')"
    by (auto simp: advance_job_def ready_def jstate_def split: option.splits)
  with False show ?thesis by (rule idle)
next
  case True
  then obtain j where j: "gm_get (rn_Jobs run) n = Some j" "js_State j = JobPending" "AllNeedsSatisfied cfg n (completed_jobs run)"
    by (auto simp: ready_def jstate_def)
  obtain k o1 where k: "enqueueJobTasks env now run cfg n o' = (k, o1)" by (cases "enqueueJobTasks env now run cfg n o'")
  have c: "same_core o' o1" using enqueueJobTasks_core [of o' env now run cfg n] k by simp
  let ?s = "if k > 0 then JobRunning else JobSkipped"
  define r1 where "r1 = setJobStateLocked n ?s run"
  have sj: "setJobStateLocked n st run = run\<lparr>rn_Jobs := gm_set n (j\<lparr>js_State := st\<rparr>) (rn_Jobs run)\<rparr>" for st
    using j(1) by (simp add: setJobStateLocked_def set_job_def)
  have r1: "r1 = run\<lparr>rn_Jobs := gm_set n (j\<lparr>js_State := ?s\<rparr>) (rn_Jobs run)\<rparr>" using j(1) by (simp add: r1_def setJobStateLocked_def set_job_def)
  have ok: "shape r1 = shape run" "names_ok r1" using assms shape_names [of run r1] by (simp_all add: r1_def)
  have comp: "completed_jobs r1 = (if k > 0 then completed_jobs run else insert n (completed_jobs run))"
  proof -
    have s: "jstate r1 m = (if m = n then Some ?s else jstate run m)" for m using j(1) by (simp add: r1_def jstate_def [of run n])
    have "jstate run n = Some JobPending" using j by (simp add: jstate_def)
    then show ?thesis unfolding set_eq_iff using ok(2) assms by (auto simp: completed_jobs_iff s job_done_def)
  qed
  have sub: "completed_jobs run \<subseteq> completed_jobs r1" by (auto simp: comp)
  have adv: "job_advanced cfg run r1 m" for m
    using j AllNeedsSatisfied_mono [OF j(3) sub] by (cases "m = n") (auto simp: job_advanced_def r1)
  have np: "jstate r1 n \<noteq> Some JobPending" by (simp add: r1 jstate_def)
  define r2 where "r2 = (if k > 0 \<and> rn_State run = RunPending
      then (let r = r1\<lparr>rn_State := RunRunning\<rparr> in if rn_StartedAt r = None then r\<lparr>rn_StartedAt := Some now\<rparr> else r) else r1)"
  have r2: "rn_Jobs r2 = rn_Jobs r1" "run_advanced run r2" by (auto simp: r2_def r1 run_advanced_def Let_def)
  have same: "completed_jobs r2 = completed_jobs r1" "shape r2 = shape r1" "jstate r2 = jstate r1"
    using r2(1) by (simp_all add: completed_jobs_def shape_def jstate_def fun_eq_iff)
  have "advance_job env now cfg n (completed_jobs run, p, run, o') = (completed_jobs r2, True, r2, o1)"
    unfolding same(1) comp using j k sj
    by (cases "k > 0") (simp_all add: advance_job_def Let_def r2_def setRunStateLocked_def isTerminalRunState_def r1)
  moreover have "advanced cfg run r2"
    using adv ok(1) r2 same unfolding advanced_def job_advanced_def by simp
  moreover have "n \<notin> pending r2" using np same by (simp add: pending_def)
  ultimately show ?thesis using True c by (intro moved)
qed


text \<open>What a sequence of visits does to the run: \<open>p\<close> tells whether some job moved.\<close>

lemma advance_jobs:
  assumes "names_ok run"
  obtains run' o'' p' where
    "fold (advance_job env now cfg) names (completed_jobs run, p, run, o') = (completed_jobs run', p', run', o'')"
    "advanced cfg run run'" "same_core o' o''" "p \<Longrightarrow> p'"
    "\<not> p' \<Longrightarrow> run' = run \<and> (\<forall>n \<in> set names. \<not> ready cfg run n)"
    "p' \<Longrightarrow> \<not> p \<Longrightarrow> card (pending run') < card (pending run)"
proof -
  have "\<exists>run' o'' p'. fold (advance_job env now cfg) names (completed_jobs run, p, run, o') = (completed_jobs run', p', run', o'') \<and>
      advanced cfg run run' \<and> same_core o' o'' \<and> (p \<longrightarrow> p') \<and> (\<not> p' \<longrightarrow> run' = run \<and> (\<forall>n \<in> set names. \<not> ready cfg run n)) \<and>
      (p' \<longrightarrow> \<not> p \<longrightarrow> card (pending run') < card (pending run))"
    using assms
  proof (induction names arbitrary: p run o')
    case (Cons n names)
    show ?case
    proof (rule advance_job_step [OF Cons.prems, of cfg n env now p o'])
      assume "\<not> ready cfg run n" "advance_job env now cfg n (completed_jobs run, p, run, o') = (completed_jobs run, p, run, o')"
      with Cons.IH [OF Cons.prems, of p o'] show ?thesis by auto
    next
      fix run1 o1
      assume m: "ready cfg run n" "advance_job env now cfg n (completed_jobs run, p, run, o') = (completed_jobs run1, True, run1, o1)"
        "advanced cfg run run1" "same_core o' o1" "n \<notin> pending run1"
      have ok: "names_ok run1" using m(3) Cons.prems by (auto simp: advanced_def intro: shape_names [of run])
      obtain run' o'' where r: "fold (advance_job env now cfg) names (completed_jobs run1, True, run1, o1) = (completed_jobs run', True, run', o'')"
          "advanced cfg run1 run'" "same_core o1 o''"
        using Cons.IH [OF ok, of True o1] by auto
      have "pending run' \<subset> pending run"
        using advanced_pending [OF m(3)] advanced_pending [OF r(2)] m(1,5) by (auto simp: ready_def pending_def)
      then have "card (pending run') < card (pending run)" by (simp add: psubset_card_mono)
      moreover have "advanced cfg run run'" using m(3) r(2) Cons.prems by (rule advanced_trans)
      moreover have "same_core o' o''" using m(4) r(3) by (rule same_core_trans)
      ultimately show ?thesis using m(2) r(1) by (intro exI [of _ run'] exI [of _ o''] exI [of _ True]) simp
    qed
  qed auto
  then show ?thesis using that by blast
qed

lemma advance_passes_fixpoint:
  assumes "names_ok run" "card (pending run) < k" "\<And>i xs. set (oe_order env i xs) = set xs"
  obtains run' o'' where "advance_passes env now cfg k (completed_jobs run, run, o') = (completed_jobs run', run', o'')"
    "advanced cfg run run'" "same_core o' o''" "\<And>n. \<not> ready cfg run' n"
proof -
  have "\<exists>run' o''. advance_passes env now cfg k (completed_jobs run, run, o') = (completed_jobs run', run', o'') \<and>
      advanced cfg run run' \<and> same_core o' o'' \<and> (\<forall>n. \<not> ready cfg run' n)"
    using assms(1,2)
  proof (induction k arbitrary: run o')
    case (Suc k)
    let ?names = "oe_order env k (map fst (rn_Jobs run))"
    obtain run1 o1 p where r: "fold (advance_job env now cfg) ?names (completed_jobs run, False, run, o') = (completed_jobs run1, p, run1, o1)"
        "advanced cfg run run1" "same_core o' o1" "\<not> p \<Longrightarrow> run1 = run \<and> (\<forall>n \<in> set ?names. \<not> ready cfg run n)"
        "p \<Longrightarrow> card (pending run1) < card (pending run)"
      by (rule advance_jobs [OF Suc.prems(1), where names = ?names and p = False and env = env and cfg = cfg and now = now and o' = o']) blast
    have ok: "names_ok run1" using r(2) Suc.prems by (auto simp: advanced_def intro: shape_names [of run])
    show ?case
    proof (cases p)
      case True
      then have "card (pending run1) < k" using r(5) Suc.prems(2) by simp
      from Suc.IH [OF ok this, of o1] obtain run' o'' where f:
        "advance_passes env now cfg k (completed_jobs run1, run1, o1) = (completed_jobs run', run', o'')"
        "advanced cfg run1 run'" "same_core o1 o''" "\<forall>n. \<not> ready cfg run' n" by blast
      then show ?thesis using r(1) True advanced_trans [OF r(2) f(2) Suc.prems(1)] same_core_trans [OF r(3) f(3)]
        by (simp add: advance_pass_def)
    next
      case False
      have "\<not> ready cfg run n" for n
      proof (cases "n \<in> set ?names")
        case False
        then have "jstate run n = None" using assms(3) jstate_keys [of run n] by auto
        then show ?thesis by (simp add: ready_def)
      qed (use r(4) \<open>\<not> p\<close> in blast)
      then show ?thesis using r False by (simp add: advance_pass_def)
    qed
  qed simp
  then show ?thesis using that by blast
qed


lemma need_edgesI: "gm_get jobs n = Some j \<Longrightarrow> d \<in> set (jc_Needs j) \<Longrightarrow> (n, d) \<in> need_edges jobs"
  by (simp add: need_edges_def needs_def)

lemma finite_need_edges: "finite (need_edges jobs)"
proof (rule finite_subset)
  show "need_edges jobs \<subseteq> (SIGMA n : fst ` set jobs. set (needs jobs n))"
  proof
    fix e assume e: "e \<in> need_edges jobs"
    obtain n d where nd: "e = (n, d)" by (cases e)
    then have d: "d \<in> set (needs jobs n)" using e by (simp add: need_edges_def)
    then have "gm_get jobs n \<noteq> None" by (cases "gm_get jobs n") (simp_all add: needs_def)
    then show "e \<in> (SIGMA n : fst ` set jobs. set (needs jobs n))" using d nd by (simp add: map_of_eq_None_iff)
  qed
qed simp

lemma all_done_iff: "names_ok run \<Longrightarrow> list_all (\<lambda>(_, j). job_done (js_State j)) (rn_Jobs run) \<longleftrightarrow> (\<forall>n. jstate run n \<noteq> None \<longrightarrow> n \<in> completed_jobs run)"
proof -
  assume ok: "names_ok run"
  have fin: "n \<in> completed_jobs run \<longleftrightarrow> job_done (js_State j)" if j: "(n, j) \<in> set (rn_Jobs run)" for n j
  proof -
    have "gm_get (rn_Jobs run) n = Some j" using j ok by (simp add: names_ok_def map_of_eq_Some_iff)
    then show ?thesis using ok by (simp add: completed_jobs_iff jstate_def)
  qed
  have "(\<forall>n. jstate run n \<noteq> None \<longrightarrow> n \<in> completed_jobs run) \<longleftrightarrow> (\<forall>p \<in> set (rn_Jobs run). fst p \<in> completed_jobs run)"
    unfolding jstate_keys by blast
  then show ?thesis using fin by (auto simp: list_all_iff)
qed

lemma done_check:
  assumes "names_ok run"
  shows "list_all (\<lambda>(_, job). js_JobName job \<in> completed_jobs run \<or> job_done (js_State job)) (rn_Jobs run) \<longleftrightarrow>
    list_all (\<lambda>(_, j). job_done (js_State j)) (rn_Jobs run)"
proof -
  have "js_JobName j \<in> completed_jobs run \<or> job_done (js_State j) \<longleftrightarrow> job_done (js_State j)" if j: "(n, j) \<in> set (rn_Jobs run)" for n j
  proof -
    have "gm_get (rn_Jobs run) n = Some j" "js_JobName j = n" using j assms by (auto simp: names_ok_def map_of_eq_Some_iff list_all_iff)
    then show ?thesis using assms by (simp add: completed_jobs_iff jstate_def)
  qed
  then show ?thesis unfolding list_all_iff by (intro ball_cong) auto
qed

lemma advancePipeline_outcome:
  assumes ok: "names_ok run" and cfg: "gm_get (or_configs o') (rn_PipelineName run) = Some cfg" and ord: "\<And>i xs. set (oe_order env i xs) = set xs"
  obtains run1 o1 where "advanced cfg run run1" "\<And>n. \<not> ready cfg run1 n"
    "fst (advancePipeline env now (run, o')) =
       (if list_all (\<lambda>(_, j). job_done (js_State j)) (rn_Jobs run1)
        then run1\<lparr>rn_State := (if anyJobFailed run1 then RunFailed else RunSucceeded), rn_FinishedAt := Some now\<rparr> else run1)"
    "same_core o' (snd (advancePipeline env now (run, o')))"
proof -
  have "card (pending run) < length (rn_Jobs run) + 1" using card_pending [OF ok] by simp
  from advance_passes_fixpoint [OF ok this ord, where cfg = cfg and now = now and o' = o'] obtain run1 o1 where
    r: "advance_passes env now cfg (length (rn_Jobs run) + 1) (completed_jobs run, run, o') = (completed_jobs run1, run1, o1)"
      "advanced cfg run run1" "same_core o' o1" "\<And>n. \<not> ready cfg run1 n" by blast
  have ok1: "names_ok run1" using r(2) ok by (auto simp: advanced_def intro: shape_names [of run])
  have check: "list_all (\<lambda>(_, job). js_JobName job \<in> completed_jobs run1 \<or> job_done (js_State job)) (rn_Jobs run1) \<longleftrightarrow>
      list_all (\<lambda>(_, j). job_done (js_State j)) (rn_Jobs run1)"
    by (rule done_check [OF ok1])
  let ?st = "if anyJobFailed run1 then RunFailed else RunSucceeded"
  obtain run2 o2 where s: "setRunStateLocked ?st (run1, o1) = (run2, o2)" by fastforce
  note s' = setRunStateLocked_core [OF s]
  have "advancePipeline env now (run, o') =
      (if list_all (\<lambda>(_, j). job_done (js_State j)) (rn_Jobs run1) then (run2\<lparr>rn_FinishedAt := Some now\<rparr>, o2) else (run1, o1))"
    unfolding advancePipeline_def prod.case cfg option.case r(1) check s by simp
  moreover have "same_core o' o2" using r(3) s' same_core_trans by blast
  ultimately show ?thesis using r s' by (intro that [of run1]) auto
qed

text \<open>C23: When a task succeeds the run is advanced to a fixpoint, whatever the order in which each pass visits the jobs. Only
  pending jobs whose needs have all ended are started or skipped; afterwards no such job is left; and if all
  jobs have ended the run has failed or succeeded, depending on whether one of them failed.\<close>

theorem advancePipeline_correct:
  assumes "names_ok run" "gm_get (or_configs o') (rn_PipelineName run) = Some cfg" "\<And>i xs. set (oe_order env i xs) = set xs"
  shows "case advancePipeline env now (run, o') of (run', o'') \<Rightarrow>
      shape run' = shape run \<and> (\<forall>n. job_advanced cfg run run' n) \<and> (\<forall>n. \<not> ready cfg run' n) \<and>
      (if list_all (\<lambda>(_, j). job_done (js_State j)) (rn_Jobs run')
       then rn_State run' = (if anyJobFailed run' then RunFailed else RunSucceeded) \<and> rn_FinishedAt run' = Some now
       else run_advanced run run') \<and>
      or_runs o'' = or_runs o' \<and> or_configs o'' = or_configs o'"
proof -
  obtain run1 where r: "advanced cfg run run1" "\<And>n. \<not> ready cfg run1 n"
    "fst (advancePipeline env now (run, o')) =
       (if list_all (\<lambda>(_, j). job_done (js_State j)) (rn_Jobs run1)
        then run1\<lparr>rn_State := (if anyJobFailed run1 then RunFailed else RunSucceeded), rn_FinishedAt := Some now\<rparr> else run1)"
    "same_core o' (snd (advancePipeline env now (run, o')))"
    by (rule advancePipeline_outcome [OF assms]) blast
  obtain run' o'' where p: "advancePipeline env now (run, o') = (run', o'')" by fastforce
  have jobs: "rn_Jobs run' = rn_Jobs run1" using r(3) p by (auto split: if_splits)
  have same: "shape run' = shape run1" "\<And>n. ready cfg run' n = ready cfg run1 n" "\<And>n. job_advanced cfg run run' n = job_advanced cfg run run1 n"
      "anyJobFailed run' = anyJobFailed run1"
    unfolding shape_def ready_def job_advanced_def completed_jobs_def jstate_def anyJobFailed_def jobs by (rule refl)+
  show ?thesis
    using r(1,2,4) r(3) unfolding p prod.case fst_conv snd_conv same jobs by (auto simp: advanced_def same_core_def)
qed



subsection \<open>Runs under interleaved operations\<close>

text \<open>
  A system is the orchestrator with the executions and notifications that are still to come. Every lock
  section is one step, so steps of different goroutines interleave freely. Results are those the workers owe:
  they are for a running job of a run that has not ended.
\<close>

type_synonym 's orch_system = "'s Orchestrator \<times> (string \<times> PipelineConfig \<times> string list) list \<times> string list"

definition expected :: "TaskResult \<Rightarrow> 's Orchestrator \<Rightarrow> bool" where
  "expected result o' =
     (case gm_get (or_runs o') (tr_RunID result) of
        None \<Rightarrow> False
      | Some run \<Rightarrow> \<not> isTerminalRunState (rn_State run) \<and> jstate run (tr_JobName result) = Some JobRunning)"

inductive orch_step :: "('s, 'c) orch_env \<Rightarrow> 's orch_system \<Rightarrow> 's orch_system \<Rightarrow> bool" for env where
  start: "gm_get (or_configs o') (pc_Name cfg) = Some cfg \<Longrightarrow> StartRun env now cfg event affected o' = (runID, o1) \<Longrightarrow>
    orch_step env (o', sp, nt) (o1, sp @ [(runID, cfg, affected)], nt)"
| execute: "executeRun env now runID cfg affected o' = (notify, o1) \<Longrightarrow>
    orch_step env (o', sp1 @ (runID, cfg, affected) # sp2, nt) (o1, sp1 @ sp2, if notify then runID # nt else nt)"
| result: "expected result o' \<Longrightarrow> OnTaskResult env now result o' = (notify, o1) \<Longrightarrow>
    orch_step env (o', sp, nt) (o1, sp, if notify then tr_RunID result # nt else nt)"
| cancel: "CancelRun now runID o' = (Inr (), o1) \<Longrightarrow> orch_step env (o', sp, nt) (o1, sp, runID # nt)"
| notify: "orch_step env (o', sp, nt1 @ runID # nt2) (notifyRunFinished runID o', sp, nt1 @ nt2)"

definition cfg_shape :: "PipelineConfig \<Rightarrow> (string \<times> string \<times> string list) list" where
  "cfg_shape cfg = map (\<lambda>(n, c). (n, n, jc_Needs c)) (pc_Jobs cfg)"

text \<open>A job that is not pending has all its needs behind it.\<close>

definition run_ok :: "PipelineConfig \<Rightarrow> PipelineRun \<Rightarrow> bool" where
  "run_ok cfg run \<longleftrightarrow> shape run = cfg_shape cfg \<and> (\<forall>n x. jstate run n \<noteq> Some (JobStateOther x)) \<and>
     (\<forall>n c. gm_get (pc_Jobs cfg) n = Some c \<longrightarrow> jstate run n \<noteq> Some JobPending \<longrightarrow> set (jc_Needs c) \<subseteq> completed_jobs run)"

definition cfg_ok :: "PipelineConfig \<Rightarrow> bool" where
  "cfg_ok cfg \<longleftrightarrow> gm_wf (pc_Jobs cfg) \<and> ValidateDAG (pc_Jobs cfg) = Some None"

lemma run_ok_names:
  assumes "cfg_ok cfg" "run_ok cfg run" shows "names_ok run" "map fst (rn_Jobs run) = map fst (pc_Jobs cfg)"
proof -
  have s: "shape run = cfg_shape cfg" using assms(2) by (simp add: run_ok_def)
  from arg_cong [OF s, of "map fst"] show k: "map fst (rn_Jobs run) = map fst (pc_Jobs cfg)"
    by (simp add: shape_def cfg_shape_def comp_def case_prod_beta)
  have "list_all (\<lambda>(n, j). js_JobName j = n) (rn_Jobs run) \<longleftrightarrow> list_all (\<lambda>(n, m, _). m = n) (shape run)" by (auto simp: shape_def list_all_iff)
  also have "\<dots>" unfolding s by (auto simp: cfg_shape_def list_all_iff)
  finally show "names_ok run" using k assms(1) by (simp add: names_ok_def cfg_ok_def)
qed

lemma run_ok_needs:
  assumes "cfg_ok cfg" "run_ok cfg run" "gm_get (rn_Jobs run) n = Some j"
  obtains c where "gm_get (pc_Jobs cfg) n = Some c" "js_Needs j = jc_Needs c"
proof -
  have s: "shape run = cfg_shape cfg" using assms(2) by (simp add: run_ok_def)
  have "map (\<lambda>(n, j). (n, js_Needs j)) (rn_Jobs run) = map (\<lambda>(n, m, x). (n, x)) (shape run)" by (simp add: shape_def comp_def case_prod_beta)
  also have "\<dots> = map (\<lambda>(n, c). (n, jc_Needs c)) (pc_Jobs cfg)" unfolding s by (simp add: cfg_shape_def comp_def case_prod_beta)
  finally have "map_of (map (\<lambda>(n, j). (n, js_Needs j)) (rn_Jobs run)) n = map_of (map (\<lambda>(n, c). (n, jc_Needs c)) (pc_Jobs cfg)) n" by simp
  then have "map_option js_Needs (gm_get (rn_Jobs run) n) = map_option jc_Needs (gm_get (pc_Jobs cfg) n)"
    by (simp add: map_of_map)
  then show ?thesis using assms(3) that by (cases "gm_get (pc_Jobs cfg) n") auto
qed

lemma run_ok_step:
  assumes "cfg_ok cfg" "run_ok cfg run" "shape run' = shape run"
    and "\<And>n s. jstate run n = Some s \<Longrightarrow> job_done s \<Longrightarrow> \<exists>t. jstate run' n = Some t \<and> job_done t"
    and "\<And>n c. jstate run n = Some JobPending \<Longrightarrow> jstate run' n \<noteq> Some JobPending \<Longrightarrow> gm_get (pc_Jobs cfg) n = Some c \<Longrightarrow>
      set (jc_Needs c) \<subseteq> completed_jobs run'"
    and "\<And>n x. jstate run' n \<noteq> Some (JobStateOther x)"
  shows "run_ok cfg run'"
proof -
  note ok = run_ok_names(1) [OF assms(1,2)]
  have ok': "names_ok run'" using assms(3) ok shape_names [of run run'] by simp
  have sub: "completed_jobs run \<subseteq> completed_jobs run'" using assms(4) ok ok' by (auto simp: completed_jobs_iff)
  have "set (jc_Needs c) \<subseteq> completed_jobs run'" if c: "gm_get (pc_Jobs cfg) n = Some c" "jstate run' n \<noteq> Some JobPending" for n c
  proof (cases "jstate run n = Some JobPending")
    case True
    then show ?thesis using assms(5) c by blast
  next
    case False
    then have "set (jc_Needs c) \<subseteq> completed_jobs run" using assms(2) c(1) by (simp add: run_ok_def)
    with sub show ?thesis by blast
  qed
  then show ?thesis using assms(2,3,6) by (simp add: run_ok_def)
qed

lemma run_ok_advanced:
  assumes "cfg_ok cfg" "run_ok cfg run" "advanced cfg run run'"
  shows "run_ok cfg run'"
proof (rule run_ok_step [OF assms(1,2)])
  have st: "jstate run' n = jstate run n \<or> jstate run n = Some JobPending \<and> (jstate run' n = Some JobRunning \<or> jstate run' n = Some JobSkipped)" for n
    using assms(3) job_advanced_state unfolding advanced_def by blast
  show "shape run' = shape run" using assms(3) by (simp add: advanced_def)
  show "\<exists>t. jstate run' n = Some t \<and> job_done t" if "jstate run n = Some s" "job_done s" for n s
    using st [of n] that by (auto simp: job_done_def)
  show "jstate run' n \<noteq> Some (JobStateOther x)" for n x using st [of n] assms(2) by (auto simp: run_ok_def)
  show "set (jc_Needs c) \<subseteq> completed_jobs run'"
    if "jstate run n = Some JobPending" "jstate run' n \<noteq> Some JobPending" "gm_get (pc_Jobs cfg) n = Some c" for n c
  proof -
    have "job_advanced cfg run run' n" using assms(3) by (simp add: advanced_def)
    then have "AllNeedsSatisfied cfg n (completed_jobs run')" using that by (auto simp: job_advanced_def jstate_def)
    then show ?thesis using that(3) by (auto simp: AllNeedsSatisfied_def list_all_iff)
  qed
qed


text \<open>What an operation on one run leaves behind: the new value of that run in the map of runs.\<close>

definition run_update :: "'s Orchestrator \<Rightarrow> PipelineRun \<Rightarrow> PipelineRun \<Rightarrow> 's Orchestrator \<Rightarrow> bool" where
  "run_update o' run run' o1 \<longleftrightarrow> rn_RunID run' = rn_RunID run \<and> rn_PipelineName run' = rn_PipelineName run \<and>
     same_core (o'\<lparr>or_runs := gm_set (rn_RunID run) run' (or_runs o')\<rparr>) o1"

lemma run_updateI:
  "same_core o' o2 \<Longrightarrow> rn_RunID run' = rn_RunID run \<Longrightarrow> rn_PipelineName run' = rn_PipelineName run \<Longrightarrow> run_update o' run run' (put_run (run', o2))"
  by (auto simp: run_update_def put_run_def same_core_def)

lemma run_ok_fields [simp]:
  "run_ok cfg (run\<lparr>rn_State := s\<rparr>) = run_ok cfg run" "run_ok cfg (run\<lparr>rn_StartedAt := t\<rparr>) = run_ok cfg run"
  "run_ok cfg (run\<lparr>rn_FinishedAt := t\<rparr>) = run_ok cfg run"
  by (simp_all add: run_ok_def completed_jobs_def)

lemma execute_job_advanced:
  assumes "names_ok run" "gm_get (pc_Jobs cfg) n = Some c" "jc_Needs c = []"
  obtains k' run' o'' where "execute_job env now cfg affected n (k, run, o') = (k', run', o'')" "advanced cfg run run'" "same_core o' o''"
proof -
  have need: "AllNeedsSatisfied cfg n A" for A using assms(2,3) by (simp add: AllNeedsSatisfied_def)
  have adv: "advanced cfg run (setJobStateLocked n st run)"
    if j: "gm_get (rn_Jobs run) n = Some j" "js_State j = JobPending" "st = JobRunning \<or> st = JobSkipped" for j st
  proof -
    have s: "setJobStateLocked n st run = run\<lparr>rn_Jobs := gm_set n (j\<lparr>js_State := st\<rparr>) (rn_Jobs run)\<rparr>"
      using j(1) by (simp add: setJobStateLocked_def set_job_def)
    have "job_advanced cfg run (setJobStateLocked n st run) m" for m
      using j need by (cases "m = n") (auto simp: job_advanced_def s)
    then show ?thesis using assms(1) by (simp add: advanced_def run_advanced_def) (simp add: s)
  qed
  obtain e o1 where e: "enqueueJobTasks env now run cfg n o' = (e, o1)" by fastforce
  have core: "same_core o' o1" using enqueueJobTasks_core [of o' env now run cfg n] e by simp
  show ?thesis
  proof (cases "gm_get (rn_Jobs run) n")
    case None
    then show ?thesis using that [of k run o'] by (simp add: execute_job_def)
  next
    case (Some j)
    show ?thesis
    proof (cases "js_State j = JobPending")
      case False
      then show ?thesis using that [of k run o'] Some by (simp add: execute_job_def)
    next
      case True
      note a = adv [OF Some True]
      show ?thesis
        using that [OF _ a core] that [OF _ a same_core_refl] Some True e
        by (cases "canRunJob cfg run n affected"; cases "e > 0") (auto simp: execute_job_def)
    qed
  qed
qed

lemma execute_jobs_advanced:
  assumes "names_ok run" "\<And>n. n \<in> set names \<Longrightarrow> \<exists>c. gm_get (pc_Jobs cfg) n = Some c \<and> jc_Needs c = []"
  obtains k' run' o'' where "fold (execute_job env now cfg affected) names (k, run, o') = (k', run', o'')" "advanced cfg run run'" "same_core o' o''"
proof -
  have "\<exists>k' run' o''. fold (execute_job env now cfg affected) names (k, run, o') = (k', run', o'') \<and> advanced cfg run run' \<and> same_core o' o''"
    using assms
  proof (induction names arbitrary: k run o')
    case (Cons n names)
    obtain c where c: "gm_get (pc_Jobs cfg) n = Some c" "jc_Needs c = []" using Cons.prems(2) [of n] by auto
    obtain k1 run1 o1 where 1: "execute_job env now cfg affected n (k, run, o') = (k1, run1, o1)" "advanced cfg run run1" "same_core o' o1"
      by (rule execute_job_advanced [OF Cons.prems(1) c])
    have "names_ok run1" using 1(2) Cons.prems(1) by (auto simp: advanced_def intro: shape_names [of run])
    from Cons.IH [OF this, of k1 o1] Cons.prems(2) obtain k' run' o'' where
      2: "fold (execute_job env now cfg affected) names (k1, run1, o1) = (k', run', o'')" "advanced cfg run1 run'" "same_core o1 o''" by auto
    show ?case using 1(1) 2(1) advanced_trans [OF 1(2) 2(2) Cons.prems(1)] same_core_trans [OF 1(3) 2(3)] by auto
  qed auto
  then show ?thesis using that by blast
qed

lemma EntrypointJobs_no_needs: "gm_wf (pc_Jobs cfg) \<Longrightarrow> n \<in> set (EntrypointJobs cfg) \<Longrightarrow> \<exists>c. gm_get (pc_Jobs cfg) n = Some c \<and> jc_Needs c = []"
  by (auto simp: EntrypointJobs_def map_of_eq_Some_iff)

lemma executeRun_update:
  assumes "cfg_ok cfg" "gm_get (or_runs o') rid = Some run" "rn_RunID run = rid" "run_ok cfg run"
  obtains (idle) "executeRun env now rid cfg affected o' = (False, o')"
  | (ran) notify o1 run' where "executeRun env now rid cfg affected o' = (notify, o1)" "rn_State run = RunPending"
      "run_update o' run run' o1" "run_ok cfg run'" "notify \<Longrightarrow> isTerminalRunState (rn_State run')"
proof (cases "rn_State run = RunPending")
  case False
  then show ?thesis using idle assms(2) by (simp add: executeRun_def)
next
  case True
  let ?r0 = "run\<lparr>rn_State := RunRunning, rn_StartedAt := Some now\<rparr>"
  have ok0: "run_ok cfg ?r0" using assms(4) by simp
  have wf: "gm_wf (pc_Jobs cfg)" using assms(1) by (simp add: cfg_ok_def)
  obtain k r1 o1 where f: "fold (execute_job env now cfg affected) (EntrypointJobs cfg) (0, ?r0, o') = (k, r1, o1)" "advanced cfg ?r0 r1" "same_core o' o1"
    by (rule execute_jobs_advanced [OF run_ok_names(1) [OF assms(1) ok0] EntrypointJobs_no_needs [OF wf]])
  have ok1: "run_ok cfg r1" by (rule run_ok_advanced [OF assms(1) ok0 f(2)])
  have id: "rn_RunID r1 = rn_RunID run" "rn_PipelineName r1 = rn_PipelineName run" "rn_State r1 \<noteq> RunPending"
    using f(2) by (auto simp: advanced_def run_advanced_def)
  obtain r2 o2 where s: "setRunStateLocked RunSucceeded (r1, o1) = (r2, o2)" by fastforce
  note s' = setRunStateLocked_core [OF s]
  have e: "executeRun env now rid cfg affected o' =
      (if k = 0 \<and> \<not> hasActiveJobs r1 then (True, put_run (r2\<lparr>rn_FinishedAt := Some now\<rparr>, o2)) else (False, put_run (r1, o1)))"
    using True assms(2) f(1) id(3) s by (simp add: executeRun_def setRunStateLocked_def isTerminalRunState_def)
  show ?thesis
  proof (cases "k = 0 \<and> \<not> hasActiveJobs r1")
    case t: True
    have "run_update o' run (r2\<lparr>rn_FinishedAt := Some now\<rparr>) (put_run (r2\<lparr>rn_FinishedAt := Some now\<rparr>, o2))"
      using s' f(3) id by (intro run_updateI) (auto intro: same_core_trans)
    then show ?thesis
      using e t True ok1 s' by (intro ran [of True _ "r2\<lparr>rn_FinishedAt := Some now\<rparr>"]) (simp_all add: isTerminalRunState_def)
  next
    case t: False
    have "run_update o' run r1 (put_run (r1, o1))" using f(3) id by (intro run_updateI) auto
    then show ?thesis using e t True ok1 by (intro ran [of False]) auto
  qed
qed


lemma run_ok_set_job:
  assumes "cfg_ok cfg" "run_ok cfg run" "jstate run n = Some JobRunning"
    and f: "\<And>j. js_JobName (f j) = js_JobName j \<and> js_Needs (f j) = js_Needs j \<and> js_State (f j) = st" "st \<noteq> JobPending" "\<And>x. st \<noteq> JobStateOther x"
  shows "run_ok cfg (set_job n f run)"
proof (rule run_ok_step [OF assms(1,2)])
  have st: "jstate (set_job n f run) m = (if m = n then Some st else jstate run m)" for m
    using assms(3) f(1) unfolding jstate_set_job by (auto simp: jstate_def)
  show "shape (set_job n f run) = shape run" using f(1) run_ok_names(1) [OF assms(1,2)] by (intro set_job_shape) auto
  show "\<exists>t. jstate (set_job n f run) m = Some t \<and> job_done t" if "jstate run m = Some s" "job_done s" for m s
    using that assms(3) by (auto simp: st job_done_def)
  show "jstate (set_job n f run) m \<noteq> Some (JobStateOther x)" for m x using assms(2) f(3) by (auto simp: st run_ok_def)
  show "set (jc_Needs c) \<subseteq> completed_jobs (set_job n f run)" if "jstate run m = Some JobPending" "jstate (set_job n f run) m \<noteq> Some JobPending" for m c
    using that assms(3) by (auto simp: st split: if_splits)
qed

lemma set_job_fields [simp]: "rn_RunID (set_job n f run) = rn_RunID run" "rn_PipelineName (set_job n f run) = rn_PipelineName run"
  "rn_State (set_job n f run) = rn_State run"
  by (simp_all add: set_job_def split: option.splits)

lemma task_succeeded_update:
  assumes "cfg_ok cfg" "run_ok cfg run" "jstate run (tr_JobName result) = Some JobRunning"
    "gm_get (or_configs o') (rn_PipelineName run) = Some cfg" "\<And>i xs. set (oe_order env i xs) = set xs"
  obtains run' o1 where "task_succeeded env now result (run, o') = (run', o1)" "run_ok cfg run'" "rn_RunID run' = rn_RunID run"
    "rn_PipelineName run' = rn_PipelineName run" "same_core o' o1"
proof -
  let ?f = "\<lambda>job. job\<lparr>js_State := JobSucceeded, js_WorkerID := tr_WorkerID result, js_ExitCode := tr_ExitCode result,
          js_Outputs := tr_Outputs result, js_FinishedAt := Some (tr_EndedAt result)\<rparr>"
  let ?r = "set_job (tr_JobName result) ?f run"
  have ok: "run_ok cfg ?r" using assms(1-3) by (rule run_ok_set_job [where st = JobSucceeded]) simp_all
  have c: "gm_get (or_configs o') (rn_PipelineName ?r) = Some cfg" using assms(4) by simp
  obtain run1 where r: "advanced cfg ?r run1" "\<And>n. \<not> ready cfg run1 n"
    "fst (advancePipeline env now (?r, o')) =
       (if list_all (\<lambda>(_, j). job_done (js_State j)) (rn_Jobs run1)
        then run1\<lparr>rn_State := (if anyJobFailed run1 then RunFailed else RunSucceeded), rn_FinishedAt := Some now\<rparr> else run1)"
    "same_core o' (snd (advancePipeline env now (?r, o')))"
    by (rule advancePipeline_outcome [OF run_ok_names(1) [OF assms(1) ok] c assms(5)]) blast
  obtain run' o1 where p: "advancePipeline env now (?r, o') = (run', o1)" by fastforce
  have ok1: "run_ok cfg run1" by (rule run_ok_advanced [OF assms(1) ok r(1)])
  have "rn_RunID run1 = rn_RunID run" "rn_PipelineName run1 = rn_PipelineName run" using r(1) by (simp_all add: advanced_def run_advanced_def)
  then show ?thesis
    using that [of run' o1] p r(3,4) ok1 by (cases "list_all (\<lambda>(_, j). job_done (js_State j)) (rn_Jobs run1)") (simp_all add: task_succeeded_def)
qed

lemma task_failed_update:
  assumes "cfg_ok cfg" "run_ok cfg run" "jstate run (tr_JobName result) = Some JobRunning"
  obtains run' o1 where "task_failed env now result job (run, o') = (run', o1)" "run_ok cfg run'" "rn_RunID run' = rn_RunID run"
    "rn_PipelineName run' = rn_PipelineName run" "same_core o' o1"
proof -
  let ?n = "tr_JobName result"
  define r0 where "r0 = set_job ?n (\<lambda>job. job\<lparr>js_Retries := js_Retries job + 1\<rparr>) run"
  have same: "jstate r0 m = jstate run m" for m unfolding r0_def jstate_set_job by (auto simp: jstate_def)
  have st0: "jstate r0 ?n = Some JobRunning" using assms(3) by (simp add: same)
  have ok0: "run_ok cfg r0"
  proof (rule run_ok_step [OF assms(1,2)])
    show "shape r0 = shape run" unfolding r0_def using run_ok_names(1) [OF assms(1,2)] by (intro set_job_shape) simp_all
    show "\<And>n x. jstate r0 n \<noteq> Some (JobStateOther x)" using assms(2) by (simp add: same run_ok_def)
  qed (simp_all add: same)
  have id: "rn_RunID r0 = rn_RunID run" "rn_PipelineName r0 = rn_PipelineName run" by (simp_all add: r0_def)
  have okR: "run_ok cfg (setJobStateLocked ?n JobRunning r0)"
    unfolding setJobStateLocked_def using assms(1) ok0 st0 by (rule run_ok_set_job [where st = JobRunning]) simp_all
  have "jstate (setJobStateLocked ?n JobRunning r0) ?n = Some JobRunning" using st0 by simp
  then have okF: "run_ok cfg (setJobStateLocked ?n JobFailed (setJobStateLocked ?n JobRunning r0))"
    unfolding setJobStateLocked_def [of ?n JobFailed] using assms(1) okR by (intro run_ok_set_job [where st = JobFailed]) simp_all
  let ?rE = "set_job ?n (\<lambda>job. job\<lparr>js_State := JobFailed, js_Error := tr_Error result,
              js_WorkerID := tr_WorkerID result, js_ExitCode := tr_ExitCode result\<rparr>) r0"
  have okE: "run_ok cfg ?rE" using assms(1) ok0 st0 by (rule run_ok_set_job [where st = JobFailed]) simp_all
  have idS: "rn_RunID (setJobStateLocked m s r) = rn_RunID r" "rn_PipelineName (setJobStateLocked m s r) = rn_PipelineName r" for m s r
    by (simp_all add: setJobStateLocked_def)
  show ?thesis
  proof (cases "js_Retries job + 1 < js_MaxRetries job")
    case True
    let ?retry = "retryTaskLocked o' (setJobStateLocked ?n JobRunning r0) ?n (tr_TaskID result) (js_MaxRetries job - (js_Retries job + 1))"
    have e: "task_failed env now result job (run, o') =
        (case ?retry of None \<Rightarrow> (setJobStateLocked ?n JobFailed (setJobStateLocked ?n JobRunning r0), o')
         | Some retry \<Rightarrow> (case enqueue_remember env now (tr_RunID result) retry o' of
               (Some _, o') \<Rightarrow> (setJobStateLocked ?n JobFailed (setJobStateLocked ?n JobRunning r0), o')
             | (None, o') \<Rightarrow> (setJobStateLocked ?n JobRunning r0, o')))"
      unfolding task_failed_def Let_def prod.case r0_def using True by simp
    show ?thesis
    proof (cases ?retry)
      case None
      then show ?thesis
        using e okF id by (intro that [of "setJobStateLocked ?n JobFailed (setJobStateLocked ?n JobRunning r0)" o']) (simp_all add: idS)
    next
      case (Some t)
      obtain err o1 where q: "enqueue_remember env now (tr_RunID result) t o' = (err, o1)" by fastforce
      have "same_core o' o1" using enqueue_remember_core [of o' env now "tr_RunID result" t] q by simp
      with e Some q okF okR id show ?thesis
        using that [of "setJobStateLocked ?n JobRunning r0" o1] that [of "setJobStateLocked ?n JobFailed (setJobStateLocked ?n JobRunning r0)" o1]
        by (cases err) (simp_all add: idS)
    qed
  next
    case False
    obtain r2 o2 where s: "setRunStateLocked RunFailed (?rE, o') = (r2, o2)" by fastforce
    note s' = setRunStateLocked_core [OF s]
    have "task_failed env now result job (run, o') = (r2\<lparr>rn_FinishedAt := Some now\<rparr>, o2)"
      using False s by (simp add: task_failed_def Let_def r0_def)
    then show ?thesis using s' okE id by (intro that [of "r2\<lparr>rn_FinishedAt := Some now\<rparr>" o2]) simp_all
  qed
qed


lemma OnTaskResult_update:
  assumes "cfg_ok cfg" "gm_get (or_runs o') rid = Some run" "rn_RunID run = rid" "run_ok cfg run" "rid = tr_RunID result" "expected result o'"
    "gm_get (or_configs o') (rn_PipelineName run) = Some cfg" "\<And>i xs. set (oe_order env i xs) = set xs"
  obtains notify o1 run' where "OnTaskResult env now result o' = (notify, o1)" "\<not> isTerminalRunState (rn_State run)"
    "run_update o' run run' o1" "run_ok cfg run'" "notify \<Longrightarrow> isTerminalRunState (rn_State run')"
proof -
  have nt: "\<not> isTerminalRunState (rn_State run)" and st: "jstate run (tr_JobName result) = Some JobRunning"
    using assms(2,5,6) by (simp_all add: expected_def)
  obtain job where job: "gm_get (rn_Jobs run) (tr_JobName result) = Some job" using st by (auto simp: jstate_def)
  let ?st = "case tr_State result of JobSucceeded \<Rightarrow> task_succeeded env now result (run, o')
                 | JobFailed \<Rightarrow> task_failed env now result job (run, o') | _ \<Rightarrow> (run, o')"
  obtain run' o2 where r: "?st = (run', o2)" "run_ok cfg run'" "rn_RunID run' = rn_RunID run" "rn_PipelineName run' = rn_PipelineName run" "same_core o' o2"
  proof (cases "tr_State result = JobSucceeded")
    case True
    obtain run1 o1 where "task_succeeded env now result (run, o') = (run1, o1)" "run_ok cfg run1" "rn_RunID run1 = rn_RunID run"
        "rn_PipelineName run1 = rn_PipelineName run" "same_core o' o1"
      by (rule task_succeeded_update [OF assms(1,4) st assms(7,8)])
    then show ?thesis using that [of run1 o1] True by simp
  next
    case s: False
    show ?thesis
    proof (cases "tr_State result = JobFailed")
      case True
      obtain run1 o1 where "task_failed env now result job (run, o') = (run1, o1)" "run_ok cfg run1" "rn_RunID run1 = rn_RunID run"
          "rn_PipelineName run1 = rn_PipelineName run" "same_core o' o1"
        by (rule task_failed_update [OF assms(1,4) st])
      then show ?thesis using that [of run1 o1] True by simp
    next
      case False
      then show ?thesis using that [of run o'] s assms(4) by (cases "tr_State result") auto
    qed
  qed
  have "OnTaskResult env now result o' = (isTerminalRunState (rn_State run'), put_run (run', o2))"
    using assms(2,5) job r(1) nt by (simp add: OnTaskResult_def Let_def)
  moreover have "run_update o' run run' (put_run (run', o2))" using r by (intro run_updateI) auto
  ultimately show ?thesis using nt r(2) by (intro that [of "isTerminalRunState (rn_State run')" "put_run (run', o2)" run']) simp_all
qed

lemma run_ok_cancel:
  assumes "cfg_ok cfg" "run_ok cfg run"
  shows "run_ok cfg (cancelRunLocked now run)"
proof -
  let ?c = "\<lambda>j. if js_State j = JobPending \<or> js_State j = JobClaimed \<or> js_State j = JobRunning then j\<lparr>js_State := JobCancelled\<rparr> else j"
  have jobs: "rn_Jobs (cancelRunLocked now run) = map (\<lambda>(k, j). (k, ?c j)) (rn_Jobs run)" by (simp add: cancelRunLocked_def)
  have get: "gm_get (rn_Jobs (cancelRunLocked now run)) n = map_option ?c (gm_get (rn_Jobs run) n)" for n
    unfolding jobs by (rule map_of_map [THEN fun_cong, THEN trans]) simp
  have sh: "shape (cancelRunLocked now run) = shape run" unfolding shape_def jobs map_map by (rule map_cong) (auto split: prod.splits)
  have fin: "job_done s" if s: "jstate (cancelRunLocked now run) n = Some s" for n s
  proof -
    obtain j where j: "gm_get (rn_Jobs run) n = Some j" "s = js_State (?c j)" using s get [of n] by (auto simp: jstate_def)
    have "js_State j \<noteq> JobStateOther x" for x using assms(2) j(1) by (auto simp: run_ok_def jstate_def)
    then show ?thesis using j(2) by (cases "js_State j") (auto simp: job_done_def)
  qed
  have ok: "names_ok (cancelRunLocked now run)" using shape_names [OF sh [symmetric] run_ok_names(1) [OF assms]] .
  have keys: "map fst (rn_Jobs (cancelRunLocked now run)) = map fst (pc_Jobs cfg)" using shape_keys [OF sh] run_ok_names(2) [OF assms] by simp
  have "d \<in> completed_jobs (cancelRunLocked now run)" if c: "gm_get (pc_Jobs cfg) n = Some c" "d \<in> set (jc_Needs c)" for n c d
  proof -
    have "(n, d) \<in> need_edges (pc_Jobs cfg)" using c by (rule need_edgesI)
    then have "gm_get (pc_Jobs cfg) d \<noteq> None" using ValidateDAG_acyclic(2) assms(1) unfolding cfg_ok_def by blast
    then have "d \<in> set (map fst (pc_Jobs cfg))" unfolding map_of_eq_None_iff by simp
    then have "jstate (cancelRunLocked now run) d \<noteq> None" unfolding jstate_keys keys [symmetric] by simp
    then show ?thesis using fin ok by (cases "jstate (cancelRunLocked now run) d") (auto simp: completed_jobs_iff)
  qed
  then have "\<forall>n c. gm_get (pc_Jobs cfg) n = Some c \<longrightarrow> set (jc_Needs c) \<subseteq> completed_jobs (cancelRunLocked now run)" by blast
  moreover have "jstate (cancelRunLocked now run) n \<noteq> Some (JobStateOther x)" for n x using fin [of n "JobStateOther x"] by (auto simp: job_done_def)
  ultimately show ?thesis using assms(2) sh by (simp add: run_ok_def)
qed

lemma run_ok_new:
  assumes "cfg_ok cfg" shows "run_ok cfg (new_run env now rid cfg event affected)"
proof -
  let ?r = "new_run env now rid cfg event affected"
  have jobs: "rn_Jobs ?r = map (\<lambda>(n, c). (n, new_job n c)) (pc_Jobs cfg)" by (simp add: new_run_def)
  have "shape ?r = cfg_shape cfg" unfolding shape_def cfg_shape_def jobs by (auto simp: new_job_def comp_def case_prod_beta)
  moreover have st: "jstate ?r n = map_option (\<lambda>_. JobPending) (gm_get (pc_Jobs cfg) n)" for n
  proof -
    have "map_of (map (\<lambda>(n, c). (n, new_job n c)) js) n = map_option (new_job n) (map_of js n)" for js by (induction js) auto
    then show ?thesis by (cases "gm_get (pc_Jobs cfg) n") (simp_all add: jstate_def jobs new_job_def)
  qed
  ultimately show ?thesis by (auto simp: run_ok_def st)
qed


text \<open>
  The invariant of the system: every run follows its registered pipeline, and the callback is or was
  called at most once for a run, and only after the run has ended.
\<close>

definition configs_ok :: "(string, PipelineConfig) gomap \<Rightarrow> bool" where
  "configs_ok configs \<longleftrightarrow> (\<forall>name cfg. gm_get configs name = Some cfg \<longrightarrow> pc_Name cfg = name \<and> cfg_ok cfg)"

definition notices :: "'s orch_system \<Rightarrow> string \<Rightarrow> nat" where
  "notices = (\<lambda>(o', sp, nt) rid. count_list nt rid + length (filter (\<lambda>r. rn_RunID r = rid) (or_finished o')))"

definition ended :: "'s Orchestrator \<Rightarrow> string \<Rightarrow> bool" where
  "ended o' rid = (case gm_get (or_runs o') rid of None \<Rightarrow> False | Some run \<Rightarrow> isTerminalRunState (rn_State run))"

definition sys_inv :: "('s, 'c) orch_env \<Rightarrow> (string, PipelineConfig) gomap \<Rightarrow> 's orch_system \<Rightarrow> bool" where
  "sys_inv env configs = (\<lambda>(o', sp, nt). or_configs o' = configs \<and>
     (\<forall>rid run. gm_get (or_runs o') rid = Some run \<longrightarrow> rn_RunID run = rid \<and> rid \<in> oe_uuid env ` {..<or_ids o'} \<and>
        (\<exists>cfg. gm_get configs (rn_PipelineName run) = Some cfg \<and> run_ok cfg run)) \<and>
     (\<forall>(rid, cfg, affected) \<in> set sp. gm_get configs (pc_Name cfg) = Some cfg \<and>
        (\<exists>run. gm_get (or_runs o') rid = Some run \<and> rn_PipelineName run = pc_Name cfg)) \<and>
     (\<forall>rid. notices (o', sp, nt) rid \<le> (if ended o' rid then 1 else 0)))"

lemma sys_invI:
  assumes "or_configs o' = configs"
    "\<And>rid run. gm_get (or_runs o') rid = Some run \<Longrightarrow> rn_RunID run = rid \<and> rid \<in> oe_uuid env ` {..<or_ids o'} \<and>
        (\<exists>cfg. gm_get configs (rn_PipelineName run) = Some cfg \<and> run_ok cfg run)"
    "\<And>rid cfg affected. (rid, cfg, affected) \<in> set sp \<Longrightarrow> gm_get configs (pc_Name cfg) = Some cfg \<and>
        (\<exists>run. gm_get (or_runs o') rid = Some run \<and> rn_PipelineName run = pc_Name cfg)"
    "\<And>rid. notices (o', sp, nt) rid \<le> (if ended o' rid then 1 else 0)"
  shows "sys_inv env configs (o', sp, nt)"
  using assms unfolding sys_inv_def by blast

lemma sys_invD:
  assumes "sys_inv env configs (o', sp, nt)"
  shows "or_configs o' = configs"
    "gm_get (or_runs o') rid = Some run \<Longrightarrow> rn_RunID run = rid \<and> rid \<in> oe_uuid env ` {..<or_ids o'} \<and>
        (\<exists>cfg. gm_get configs (rn_PipelineName run) = Some cfg \<and> run_ok cfg run)"
    "(rid, cfg, affected) \<in> set sp \<Longrightarrow> gm_get configs (pc_Name cfg) = Some cfg \<and>
        (\<exists>run. gm_get (or_runs o') rid = Some run \<and> rn_PipelineName run = pc_Name cfg)"
    "notices (o', sp, nt) rid \<le> (if ended o' rid then 1 else 0)"
  using assms unfolding sys_inv_def by blast+

text \<open>An operation on a run that has not ended keeps the invariant, when it is notified only at the end.\<close>

lemma sys_inv_update:
  assumes inv: "sys_inv env configs (o', sp, nt)" and get: "gm_get (or_runs o') rid = Some run"
    and upd: "run_update o' run run' o1" and cfg: "gm_get configs (rn_PipelineName run) = Some cfg" "run_ok cfg run'"
    and nt: "\<not> isTerminalRunState (rn_State run)" "notify \<Longrightarrow> isTerminalRunState (rn_State run')" and sp: "set sp' \<subseteq> set sp"
  shows "sys_inv env configs (o1, sp', if notify then rid # nt else nt)"
proof -
  have id: "rn_RunID run = rid" using inv get unfolding sys_inv_def by blast
  have core: "or_runs o1 = gm_set rid run' (or_runs o')" "or_configs o1 = or_configs o'" "or_finished o1 = or_finished o'" "or_ids o' \<le> or_ids o1"
    "rn_RunID run' = rid" "rn_PipelineName run' = rn_PipelineName run"
    using upd id by (simp_all add: run_update_def same_core_def)
  have get1: "gm_get (or_runs o1) r = (if r = rid then Some run' else gm_get (or_runs o') r)" for r by (simp add: core(1))
  have "oe_uuid env ` {..<or_ids o'} \<subseteq> oe_uuid env ` {..<or_ids o1}" using core(4) by (intro image_mono) auto
  then have "\<forall>r x. gm_get (or_runs o1) r = Some x \<longrightarrow> rn_RunID x = r \<and> r \<in> oe_uuid env ` {..<or_ids o1} \<and>
        (\<exists>cfg. gm_get configs (rn_PipelineName x) = Some cfg \<and> run_ok cfg x)"
    using sys_invD(2) [OF inv] cfg core(5,6) get unfolding get1 by auto
  moreover have "\<forall>(r, cfg, affected) \<in> set sp'. gm_get configs (pc_Name cfg) = Some cfg \<and>
        (\<exists>x. gm_get (or_runs o1) r = Some x \<and> rn_PipelineName x = pc_Name cfg)"
    using sys_invD(3) [OF inv] get sp core(6) unfolding get1 by fastforce
  moreover have "notices (o1, sp', if notify then rid # nt else nt) r \<le> (if ended o1 r then 1 else 0)" for r
  proof (cases "r = rid")
    case True
    have "notices (o', sp, nt) rid \<le> 0" using inv get nt(1) unfolding sys_inv_def ended_def by (auto dest!: spec [of _ rid])
    then show ?thesis using True nt(2) by (simp add: notices_def core(3) ended_def get1)
  next
    case False
    have "notices (o', sp, nt) r \<le> (if ended o' r then 1 else 0)" using inv unfolding sys_inv_def by blast
    moreover have "ended o1 r = ended o' r" using False by (simp add: ended_def get1)
    moreover have "notices (o1, sp', if notify then rid # nt else nt) r = notices (o', sp, nt) r"
      using False by (simp add: notices_def core(3))
    ultimately show ?thesis by simp
  qed
  ultimately show ?thesis using inv core(2) unfolding sys_inv_def by simp
qed


lemma sys_inv_cancel_existing:
  assumes inv: "sys_inv env configs (o', sp, nt)" and ok: "configs_ok configs"
  shows "sys_inv env configs (cancelExistingRuns now name o', sp, nt)"
proof -
  let ?c = "\<lambda>run. if rn_PipelineName run = name \<and> rn_State run = RunRunning then cancelRunLocked now run else run"
  let ?o = "cancelExistingRuns now name o'"
  have core: "or_configs ?o = or_configs o'" "or_finished ?o = or_finished o'" "or_ids ?o = or_ids o'" by (simp_all add: cancelExistingRuns_def)
  have get: "gm_get (or_runs ?o) r = map_option ?c (gm_get (or_runs o') r)" for r
  proof -
    have "or_runs ?o = map (\<lambda>(k, run). (k, ?c run)) (or_runs o')" by (simp add: cancelExistingRuns_def)
    then show ?thesis by (simp only: map_of_map) simp
  qed
  have id: "rn_RunID (?c run) = rn_RunID run" "rn_PipelineName (?c run) = rn_PipelineName run" for run by (simp_all add: cancelRunLocked_def)
  have keep: "run_ok cfg (?c run)" if "gm_get configs (rn_PipelineName run) = Some cfg" "run_ok cfg run" for cfg run
    using that ok run_ok_cancel [of cfg run now] by (auto simp: configs_ok_def)
  have fin: "isTerminalRunState (rn_State run) \<Longrightarrow> isTerminalRunState (rn_State (?c run))" for run by (simp add: cancelRunLocked_def isTerminalRunState_def)
  have "rn_RunID x = r \<and> r \<in> oe_uuid env ` {..<or_ids ?o} \<and> (\<exists>cfg. gm_get configs (rn_PipelineName x) = Some cfg \<and> run_ok cfg x)"
    if x: "gm_get (or_runs ?o) r = Some x" for r x
  proof -
    obtain run where run: "gm_get (or_runs o') r = Some run" "x = ?c run" using x unfolding get by blast
    then obtain cfg where "gm_get configs (rn_PipelineName run) = Some cfg" "run_ok cfg run" "rn_RunID run = r" "r \<in> oe_uuid env ` {..<or_ids o'}"
      using sys_invD(2) [OF inv] by blast
    then show ?thesis unfolding run(2) id core using keep by blast
  qed
  moreover have "gm_get configs (pc_Name cfg) = Some cfg \<and> (\<exists>x. gm_get (or_runs ?o) r = Some x \<and> rn_PipelineName x = pc_Name cfg)"
    if sp: "(r, cfg, affected) \<in> set sp" for r cfg affected
  proof -
    obtain run where "gm_get (or_runs o') r = Some run" "rn_PipelineName run = pc_Name cfg" "gm_get configs (pc_Name cfg) = Some cfg"
      using sys_invD(3) [OF inv sp] by blast
    moreover have "gm_get (or_runs ?o) r = Some (?c run)" unfolding get \<open>gm_get (or_runs o') r = Some run\<close> by simp
    ultimately show ?thesis using id(2) [of run] by metis
  qed
  moreover have "notices (?o, sp, nt) r \<le> (if ended ?o r then 1 else 0)" for r
  proof -
    have "ended o' r \<Longrightarrow> ended ?o r" unfolding ended_def get using fin by (cases "gm_get (or_runs o') r") simp_all
    moreover have "notices (o', sp, nt) r \<le> (if ended o' r then 1 else 0)" by (rule sys_invD(4) [OF inv])
    moreover have "notices (?o, sp, nt) r = notices (o', sp, nt) r" by (simp add: notices_def core)
    ultimately show ?thesis by (cases "ended o' r") simp_all
  qed
  moreover have "or_configs ?o = configs" using sys_invD(1) [OF inv] by (simp add: core)
  ultimately show ?thesis by (intro sys_invI)
qed

lemma sys_inv_start:
  assumes inv: "sys_inv env configs (o', sp, nt)" and ok: "configs_ok configs" and inj: "inj (oe_uuid env)"
    and cfg: "gm_get configs (pc_Name cfg) = Some cfg" and s: "StartRun env now cfg event affected o' = (rid, o1)"
  shows "sys_inv env configs (o1, sp @ [(rid, cfg, affected)], nt)"
proof -
  obtain o2 where inv2: "sys_inv env configs (o2, sp, nt)" and r: "rid = oe_uuid env (or_ids o2)"
      and o1: "o1 = addToHistory rid (put_run (new_run env now rid cfg event affected, o2\<lparr>or_ids := or_ids o2 + 1\<rparr>))"
  proof (rule that)
    let ?o2 = "case pc_Concurrency cfg of Some c \<Rightarrow> if cc_CancelInProgress c then cancelExistingRuns now (pc_Name cfg) o' else o' | None \<Rightarrow> o'"
    show "sys_inv env configs (?o2, sp, nt)" using inv sys_inv_cancel_existing [OF inv ok] by (auto split: option.splits)
    show "rid = oe_uuid env (or_ids ?o2)" "o1 = addToHistory rid (put_run (new_run env now rid cfg event affected, ?o2\<lparr>or_ids := or_ids ?o2 + 1\<rparr>))"
      using s unfolding StartRun_def Let_def by (blast dest: prod.inject [THEN iffD1])+
  qed
  let ?r = "new_run env now rid cfg event affected"
  have idr: "rn_RunID ?r = rid" "rn_PipelineName ?r = pc_Name cfg" "rn_State ?r = RunPending" by (simp_all add: new_run_def)
  have core: "or_runs o1 = gm_set rid ?r (or_runs o2)" "or_configs o1 = or_configs o2" "or_finished o1 = or_finished o2" "or_ids o1 = or_ids o2 + 1"
    using idr(1) by (simp_all add: o1 addToHistory_def put_run_def Let_def)
  have fresh: "gm_get (or_runs o2) rid = None"
  proof (rule ccontr)
    assume "gm_get (or_runs o2) rid \<noteq> None"
    then have "rid \<in> oe_uuid env ` {..<or_ids o2}" using sys_invD(2) [OF inv2] by blast
    then obtain i where "i < or_ids o2" "rid = oe_uuid env i" by blast
    then show False using r injD [OF inj, of "or_ids o2" i] by simp
  qed
  have get: "gm_get (or_runs o1) x = (if x = rid then Some ?r else gm_get (or_runs o2) x)" for x by (simp add: core(1))
  have rok: "run_ok cfg ?r" using ok cfg by (intro run_ok_new) (simp add: configs_ok_def)
  have "rn_RunID x = k \<and> k \<in> oe_uuid env ` {..<or_ids o1} \<and> (\<exists>cfg. gm_get configs (rn_PipelineName x) = Some cfg \<and> run_ok cfg x)"
    if x: "gm_get (or_runs o1) k = Some x" for k x
  proof (cases "k = rid")
    case True
    then show ?thesis using x cfg rok idr r by (auto simp: get core(4))
  next
    case False
    then have "gm_get (or_runs o2) k = Some x" using x by (simp add: get)
    then have "rn_RunID x = k" "k \<in> oe_uuid env ` {..<or_ids o2}" "\<exists>cfg. gm_get configs (rn_PipelineName x) = Some cfg \<and> run_ok cfg x"
      using sys_invD(2) [OF inv2] by blast+
    then show ?thesis by (auto simp: core(4))
  qed
  moreover have "gm_get configs (pc_Name c) = Some c \<and> (\<exists>x. gm_get (or_runs o1) k = Some x \<and> rn_PipelineName x = pc_Name c)"
    if "(k, c, a) \<in> set (sp @ [(rid, cfg, affected)])" for k c a
  proof (cases "(k, c, a) \<in> set sp")
    case True
    then obtain x where "gm_get configs (pc_Name c) = Some c" "gm_get (or_runs o2) k = Some x" "rn_PipelineName x = pc_Name c"
      using sys_invD(3) [OF inv2] by blast
    then show ?thesis using fresh by (auto simp: get)
  next
    case False
    then show ?thesis using that cfg idr by (simp add: get)
  qed
  moreover have "notices (o1, sp @ [(rid, cfg, affected)], nt) k \<le> (if ended o1 k then 1 else 0)" for k
  proof -
    have "notices (o2, sp, nt) k \<le> (if ended o2 k then 1 else 0)" by (rule sys_invD(4) [OF inv2])
    moreover have "ended o2 k \<Longrightarrow> ended o1 k" using fresh by (auto simp: ended_def get)
    moreover have "notices (o1, sp @ [(rid, cfg, affected)], nt) k = notices (o2, sp, nt) k" by (simp add: notices_def core)
    ultimately show ?thesis by (cases "ended o2 k") simp_all
  qed
  moreover have "or_configs o1 = configs" using sys_invD(1) [OF inv2] by (simp add: core)
  ultimately show ?thesis by (intro sys_invI)
qed

lemma sys_inv_notify:
  assumes "sys_inv env configs (o', sp, nt1 @ rid # nt2)"
  shows "sys_inv env configs (notifyRunFinished rid o', sp, nt1 @ nt2)"
proof -
  let ?o = "notifyRunFinished rid o'"
  have core: "or_runs ?o = or_runs o'" "or_configs ?o = or_configs o'" "or_ids ?o = or_ids o'"
    by (simp_all add: notifyRunFinished_def split: option.splits)
  have id: "rn_RunID run = rid" if "gm_get (or_runs o') rid = Some run" for run using sys_invD(2) [OF assms that] by blast
  have "notices (?o, sp, nt1 @ nt2) r \<le> notices (o', sp, nt1 @ rid # nt2) r" for r
  proof (cases "gm_get (or_runs o') rid")
    case None
    then have "?o = o'" by (simp add: notifyRunFinished_def)
    then show ?thesis by (simp add: notices_def)
  next
    case (Some a)
    then have "or_finished ?o = or_finished o' @ (if or_onRunFinished o' then [cloneRun a] else [])" by (simp add: notifyRunFinished_def)
    then show ?thesis using id [OF Some] by (simp add: notices_def cloneRun_def)
  qed
  moreover have "ended ?o = ended o'" by (simp add: ended_def core fun_eq_iff)
  ultimately have "notices (?o, sp, nt1 @ nt2) r \<le> (if ended ?o r then 1 else 0)" for r
    using sys_invD(4) [OF assms, of r] by (simp only:) (rule order_trans)
  then show ?thesis using sys_invD(1-3) [OF assms] by (intro sys_invI) (simp_all add: core)
qed


lemma sys_inv_fewer:
  assumes "sys_inv env configs (o', sp, nt)" "set sp' \<subseteq> set sp"
  shows "sys_inv env configs (o', sp', nt)"
proof (rule sys_invI)
  show "notices (o', sp', nt) r \<le> (if ended o' r then 1 else 0)" for r using sys_invD(4) [OF assms(1), of r] by (simp add: notices_def)
qed (use sys_invD(1-3) [OF assms(1)] assms(2) in blast)+

lemma expected_run: "expected result o' \<Longrightarrow> \<exists>run. gm_get (or_runs o') (tr_RunID result) = Some run"
  by (cases "gm_get (or_runs o') (tr_RunID result)") (simp_all add: expected_def)

lemma CancelRun_ok:
  assumes "CancelRun now runID o' = (Inr (), o1)"
  obtains run where "gm_get (or_runs o') runID = Some run" "\<not> isTerminalRunState (rn_State run)" "o1 = put_run (cancelRunLocked now run, o')"
proof (cases "gm_get (or_runs o') runID")
  case (Some run)
  then show ?thesis using assms that [of run] by (cases "isTerminalRunState (rn_State run)") (simp_all add: CancelRun_def)
qed (use assms in \<open>simp add: CancelRun_def\<close>)

lemma orch_step_inv:
  assumes "orch_step env st st'" "sys_inv env configs st" "configs_ok configs" "inj (oe_uuid env)" "\<And>i xs. set (oe_order env i xs) = set xs"
  shows "sys_inv env configs st'"
  using assms(1,2)
proof (induction rule: orch_step.induct)
  case (start o' cfg now event affected runID o1 sp nt)
  have "gm_get configs (pc_Name cfg) = Some cfg" using start(1) sys_invD(1) [OF start(3)] by simp
  then show ?case using start(2,3) assms(3,4) by (intro sys_inv_start)
next
  case (execute now runID cfg affected o' notify o1 sp1 sp2 nt)
  have "(runID, cfg, affected) \<in> set (sp1 @ (runID, cfg, affected) # sp2)" by simp
  from sys_invD(3) [OF execute(2) this] obtain run where run: "gm_get configs (pc_Name cfg) = Some cfg" "gm_get (or_runs o') runID = Some run"
      "rn_PipelineName run = pc_Name cfg" by blast
  have ok: "cfg_ok cfg" "run_ok cfg run" "rn_RunID run = runID"
  proof -
    show "cfg_ok cfg" using assms(3) run(1) unfolding configs_ok_def by blast
    obtain c where "gm_get configs (rn_PipelineName run) = Some c" "run_ok c run" "rn_RunID run = runID" using sys_invD(2) [OF execute(2) run(2)] by blast
    then show "run_ok cfg run" "rn_RunID run = runID" using run(1,3) by simp_all
  qed
  show ?case
  proof (rule executeRun_update [OF ok(1) run(2) ok(3,2), of env now affected])
    assume "executeRun env now runID cfg affected o' = (False, o')"
    then have "notify = False" "o1 = o'" using execute(1) by simp_all
    moreover have "sys_inv env configs (o', sp1 @ sp2, nt)" by (rule sys_inv_fewer [OF execute(2)]) auto
    ultimately show ?case by simp
  next
    fix n o2 run' assume u: "executeRun env now runID cfg affected o' = (n, o2)" "rn_State run = RunPending" "run_update o' run run' o2"
      "run_ok cfg run'" "n \<Longrightarrow> isTerminalRunState (rn_State run')"
    have n: "n = notify" "o2 = o1" using execute(1) u(1) by simp_all
    show ?case unfolding n [symmetric]
    proof (rule sys_inv_update [OF execute(2) run(2) u(3) _ u(4) _ u(5)])
      show "gm_get configs (rn_PipelineName run) = Some cfg" using run by simp
      show "\<not> isTerminalRunState (rn_State run)" using u(2) by (simp add: isTerminalRunState_def)
    qed auto
  qed
next
  case (result res o' now notify o1 sp nt)
  obtain run where run: "gm_get (or_runs o') (tr_RunID res) = Some run" using expected_run [OF result(1)] by blast
  obtain cfg where cfg: "gm_get configs (rn_PipelineName run) = Some cfg" "run_ok cfg run" "rn_RunID run = tr_RunID res"
    using sys_invD(2) [OF result(3) run] by blast
  have ok: "cfg_ok cfg" using assms(3) cfg(1) unfolding configs_ok_def by blast
  have reg: "gm_get (or_configs o') (rn_PipelineName run) = Some cfg" using cfg(1) sys_invD(1) [OF result(3)] by simp
  obtain n o2 run' where u: "OnTaskResult env now res o' = (n, o2)" "\<not> isTerminalRunState (rn_State run)" "run_update o' run run' o2" "run_ok cfg run'"
      "n \<Longrightarrow> isTerminalRunState (rn_State run')"
    by (rule OnTaskResult_update [OF ok run cfg(3,2) refl result(1) reg assms(5), where now = now]) (rule that)
  have n: "n = notify" "o2 = o1" using result(2) u(1) by simp_all
  show ?case using sys_inv_update [OF result(3) run u(3) cfg(1) u(4,2,5), of n sp] unfolding n by simp
next
  case (cancel now runID o' o1 sp nt)
  obtain run where run: "gm_get (or_runs o') runID = Some run" "\<not> isTerminalRunState (rn_State run)" "o1 = put_run (cancelRunLocked now run, o')"
    by (rule CancelRun_ok [OF cancel(1)])
  obtain cfg where cfg: "gm_get configs (rn_PipelineName run) = Some cfg" "run_ok cfg run" using sys_invD(2) [OF cancel(2) run(1)] by blast
  have ok: "run_ok cfg (cancelRunLocked now run)" using assms(3) cfg unfolding configs_ok_def by (blast intro: run_ok_cancel)
  have "run_update o' run (cancelRunLocked now run) o1" unfolding run(3) by (rule run_updateI) (simp_all add: cancelRunLocked_def)
  from sys_inv_update [OF cancel(2) run(1) this cfg(1) ok run(2), of True sp] show ?case
    by (simp add: cancelRunLocked_def isTerminalRunState_def)
next
  case (notify o' sp nt1 runID nt2)
  then show ?case by (rule sys_inv_notify)
qed


lemma sys_inv_init: "sys_inv env configs (NewOrchestrator store ids\<lparr>or_configs := configs, or_onRunFinished := fn\<rparr>, [], [])"
  by (rule sys_invI) (simp_all add: NewOrchestrator_def notices_def)

lemma orch_reachable_inv:
  assumes "(orch_step env)\<^sup>*\<^sup>* st st'" "sys_inv env configs st" "configs_ok configs" "inj (oe_uuid env)" "\<And>i xs. set (oe_order env i xs) = set xs"
  shows "sys_inv env configs st'"
  using assms(1) by (induction rule: rtranclp_induct) (use assms(2) orch_step_inv [OF _ _ assms(3-5)] in blast)+


subsection \<open>Scenarios\<close>

text \<open>A store in memory, identifiers that count, and pipelines of two jobs.\<close>

definition mem_kvs :: "((string, bytes) gomap, bytes) KVSClient" where
  "mem_kvs = \<lparr>kv_Write = (\<lambda>s p c e. (Inr ''v'', gm_set p c s)),
     kv_Read = (\<lambda>s p. case gm_get s p of None \<Rightarrow> Inl ''not found'' | Some c \<Rightarrow> Inr (c, ''v'')),
     kv_Delete = (\<lambda>s p. (None, gm_del p s)), kv_List = (\<lambda>s d. Inr (map fst s))\<rparr>"

definition mem_env :: "((string, bytes) gomap, bytes) orch_env" where
  "mem_env = \<lparr>oe_kvs = mem_kvs, oe_cd = demo_codec, oe_uuid = (\<lambda>n. replicate (Suc n) CHR ''x''), oe_order = (\<lambda>_ xs. xs), oe_url_path = (\<lambda>_. None)\<rparr>"

definition demo_job :: "string list \<Rightarrow> string \<Rightarrow> string list \<Rightarrow> JobConfig" where
  "demo_job ns cond values =
     \<lparr>jc_Needs = ns, jc_If = cond, jc_RunsOn = ''builder'',
      jc_Strategy = (if values = [] then None else Some \<lparr>sc_Matrix = [(''v'', \<lparr>mv_Static = values, mv_Expr = ''''\<rparr>)], sc_MaxParallel = 0\<rparr>),
      jc_TimeoutMinutes = 1, jc_Steps = []\<rparr>"

definition demo_cfg :: "(string, JobConfig) gomap \<Rightarrow> PipelineConfig" where
  "demo_cfg jobs = \<lparr>pc_Name = ''p'', pc_On = \<lparr>on_Push = None, on_PullRequest = None, on_Tags = []\<rparr>, pc_Concurrency = None,
     pc_Jobs = jobs, pc_SourceDir = ''''\<rparr>"

definition demo_event :: WebhookEvent where
  "demo_event = \<lparr>ev_EventType = TriggerManual, ev_CommitSHA = '''', ev_Branch = '''', ev_Tag = '''', ev_PRNumber = 0, ev_RepoURL = '''',
     ev_Sender = '''', ev_ChangedFiles = []\<rparr>"

text \<open>A pipeline registered and a run of it started and executed; the run has the identifier \<open>x\<close>.\<close>

definition demo_start :: "PipelineConfig \<Rightarrow> (string, bytes) gomap Orchestrator" where
  "demo_start cfg = snd (executeRun mem_env 1 ''x'' cfg [] (snd (StartRun mem_env 0 cfg demo_event []
     (NewOrchestrator [] 0\<lparr>or_configs := [(pc_Name cfg, cfg)], or_onRunFinished := True\<rparr>))))"

definition demo_result :: "string \<Rightarrow> string \<Rightarrow> JobState \<Rightarrow> TaskResult" where
  "demo_result taskID jobName st = \<lparr>tr_TaskID = taskID, tr_RunID = ''x'', tr_JobName = jobName, tr_State = st, tr_ExitCode = 0, tr_Error = '''',
     tr_StartedAt = 2, tr_EndedAt = 3, tr_WorkerID = ''w'', tr_Outputs = None\<rparr>"

definition run_view :: "'s Orchestrator \<Rightarrow> (RunState \<times> (string \<times> JobState) list) option" where
  "run_view o' = map_option (\<lambda>run. (rn_State run, map (\<lambda>(n, j). (n, js_State j)) (rn_Jobs run))) (gm_get (or_runs o') ''x'')"




definition two_jobs :: PipelineConfig where
  "two_jobs = demo_cfg [(''a'', demo_job [] '''' []), (''b'', demo_job [''a''] '''' [])]"

text \<open>The run of \<open>two_jobs\<close> with its first job done, and the orchestrator that holds it.\<close>

definition half_done :: PipelineRun where
  "half_done = setJobStateLocked ''a'' JobSucceeded (new_run mem_env 0 ''x'' two_jobs demo_event [])"

definition two_jobs_orch :: "(string, bytes) gomap Orchestrator" where
  "two_jobs_orch = NewOrchestrator [] 1\<lparr>or_configs := [(''p'', two_jobs)], or_onRunFinished := True\<rparr>"

lemma two_jobs_ok:
  "names_ok half_done" "gm_get (or_configs two_jobs_orch) (rn_PipelineName half_done) = Some two_jobs" "set (oe_order mem_env i xs) = set xs"
  "ValidateDAG (pc_Jobs two_jobs) = Some None" "fst ` set (rn_Jobs half_done) = fst ` set (pc_Jobs two_jobs)"
proof -
  show "names_ok half_done" by code_simp
  show "gm_get (or_configs two_jobs_orch) (rn_PipelineName half_done) = Some two_jobs"
    by (simp add: two_jobs_orch_def half_done_def setJobStateLocked_def new_run_def two_jobs_def demo_cfg_def)
  show "set (oe_order mem_env i xs) = set xs" by (simp add: mem_env_def)
  show "ValidateDAG (pc_Jobs two_jobs) = Some None" by code_simp
  show "fst ` set (rn_Jobs half_done) = fst ` set (pc_Jobs two_jobs)" by code_simp
qed

theorem advancePipeline_correct_witness:
  "ready two_jobs half_done ''b'' \<and> (\<forall>n. \<not> ready two_jobs (fst (advancePipeline mem_env 4 (half_done, two_jobs_orch))) n)"
proof
  show "ready two_jobs half_done ''b''" by code_simp
  show "\<forall>n. \<not> ready two_jobs (fst (advancePipeline mem_env 4 (half_done, two_jobs_orch))) n"
    using advancePipeline_correct [OF two_jobs_ok(1,2,3), where now = 4] unfolding case_prod_beta by blast
qed




subsection \<open>Matrices, listings and percentiles\<close>

lemma exchange_sort_props: "mset (exchange_sort xs) = mset xs \<and> sorted (exchange_sort xs)"
proof (induction xs rule: exchange_sort.induct)
  case (2 x xs)
  obtain m r where p: "exchange_pass x xs = (m, r)" by fastforce
  have IH: "mset (exchange_sort r) = mset r" "sorted (exchange_sort r)" using 2 [OF p [symmetric]] by auto
  have "set (exchange_sort r) = set r" using mset_eq_setD [OF IH(1)] .
  then show ?case using IH exchange_pass_mset [OF p] exchange_pass_least [OF p] by (simp add: p)
qed simp

lemma exchange_sort_sort: "exchange_sort xs = sort xs"
  using exchange_sort_props [of xs] by (intro properties_for_sort [symmetric]) auto

lemma list_runs_take:
  "length acc < max 1 (nat limit) \<Longrightarrow> list_runs name limit runs acc =
     acc @ take (max 1 (nat limit) - length acc) (filter (\<lambda>run. name = '''' \<or> rn_PipelineName run = name) runs)"
proof (induction runs arbitrary: acc)
  case (Cons run runs)
  show ?case
  proof (cases "int (length (acc @ [run])) \<ge> limit")
    case True
    then have "max 1 (nat limit) - length acc = 1" using Cons.prems by auto
    then show ?thesis using True Cons by (simp add: Let_def)
  next
    case False
    then have "length (acc @ [run]) < max 1 (nat limit)" by auto
    moreover have "max 1 (nat limit) - length acc = Suc (max 1 (nat limit) - length (acc @ [run]))" using calculation by simp
    ultimately show ?thesis using False Cons.IH [of acc] Cons.IH [of "acc @ [run]"] Cons.prems by (simp add: Let_def)
  qed
qed simp

text \<open>The listing is the newest runs of the pipeline, and at least one even for a limit of zero or less.\<close>

lemma ListRuns_correct:
  "ListRuns name limit o' = take (max 1 (nat limit)) (filter (\<lambda>run. name = '''' \<or> rn_PipelineName run = name) (rev (history o')))"
  unfolding ListRuns_def by (subst list_runs_take) simp_all

text \<open>The combinations of a matrix are the choices of one value per variable, each once.\<close>

lemma expandMatrixRecursive_maps:
  assumes "distinct (map fst kvs)" "\<forall>k \<in> fst ` set kvs. gm_get cur k = None"
  shows "gm_get ` set (expandMatrixRecursive kvs cur) =
    {gm_get cur ++ m | m. dom m = fst ` set kvs \<and> (\<forall>(k, vs) \<in> set kvs. \<exists>v \<in> set vs. m k = Some v)}"
  using assms
proof (induction kvs arbitrary: cur)
  case (Cons p kvs)
  obtain k vs where p: "p = (k, vs)" by (cases p)
  have IH: "gm_get ` set (expandMatrixRecursive kvs (gm_set k v cur)) =
      {gm_get (gm_set k v cur) ++ m | m. dom m = fst ` set kvs \<and> (\<forall>(k, vs) \<in> set kvs. \<exists>v \<in> set vs. m k = Some v)}" for v
    using Cons.prems p by (intro Cons.IH) auto
  have upd: "gm_get (gm_set k v cur) = (gm_get cur)(k \<mapsto> v)" for v by (simp add: fun_eq_iff)
  have add: "(gm_get cur)(k \<mapsto> v) ++ m = gm_get cur ++ m(k \<mapsto> v)" if "dom m = fst ` set kvs" for v m
    using that Cons.prems p by (auto simp: map_add_def fun_eq_iff split: option.splits)
  have "gm_get ` set (expandMatrixRecursive (p # kvs) cur) = (\<Union>v \<in> set vs. gm_get ` set (expandMatrixRecursive kvs (gm_set k v cur)))"
    by (auto simp: p)
  also have "\<dots> = {gm_get cur ++ m | m. dom m = fst ` set (p # kvs) \<and> (\<forall>(k, vs) \<in> set (p # kvs). \<exists>v \<in> set vs. m k = Some v)}" (is "?L = ?R")
  proof
    show "?L \<subseteq> ?R"
    proof
      fix x assume "x \<in> ?L"
      then obtain v m where m: "v \<in> set vs" "x = (gm_get cur)(k \<mapsto> v) ++ m" "dom m = fst ` set kvs" "\<forall>(k, vs) \<in> set kvs. \<exists>v \<in> set vs. m k = Some v"
        unfolding IH upd by blast
      have "\<forall>(k', vs) \<in> set kvs. k' \<noteq> k" using Cons.prems(1) p by (force simp: image_iff)
      then have "\<forall>(k', vs) \<in> set (p # kvs). \<exists>v' \<in> set vs. (m(k \<mapsto> v)) k' = Some v'" using m(1,4) p by fastforce
      then show "x \<in> ?R" using m(2,3) add [OF m(3), of v] p by (intro CollectI exI [of _ "m(k \<mapsto> v)"]) auto
    qed
    show "?R \<subseteq> ?L"
    proof
      fix x assume "x \<in> ?R"
      then obtain m where m: "x = gm_get cur ++ m" "dom m = fst ` set (p # kvs)" "\<forall>(k, vs) \<in> set (p # kvs). \<exists>v \<in> set vs. m k = Some v" by blast
      obtain v where v: "v \<in> set vs" "m k = Some v" using m(3) p by auto
      let ?m = "m(k := None)"
      have k: "k \<notin> fst ` set kvs" using Cons.prems(1) p by simp
      have d: "dom ?m = fst ` set kvs" using m(2) k p by auto
      have "x = (gm_get cur)(k \<mapsto> v) ++ ?m" unfolding m(1) add [OF d] using v(2) by (simp add: fun_upd_idem)
      moreover have "\<forall>(k', vs) \<in> set kvs. \<exists>v \<in> set vs. ?m k' = Some v" using m(3) k by (force simp: image_iff)
      ultimately show "x \<in> ?L" unfolding IH upd using v(1) d by blast
    qed
  qed
  finally show ?case .
qed auto

end
