(* ===== verification/Spec2Isabelle.thy ===== *)
theory Spec2Isabelle
  imports Monopath NativeProto WorkspaceSyncSafety Merge3 PolicyCompile MergeRequests WorkspaceBundle OwnershipGate RouterAuthz GuardianMutations Orchestrator
begin

text \<open>
  MonoFS serves many git repositories as one file system. Clients mount it (FUSE or the native protocol), storage nodes hold
  the metadata of the files, a router knows the nodes and runs everything that spans them, fetchers talk to
  the git remotes. This development models the parts of that system whose behaviour is decided by their code rather than
  by a network or a disk, and proves what makes them correct. All paths are relative to \<^verbatim>\<open>src/\<close>.

  \<^bold>\<open>Conventions.\<close> A Go struct is a record, an enumeration a datatype, a string a list of bytes, a fixed-width integer a word or an
  integer whose range is checked where it matters. A returned error is \<open>Inl\<close>, a panic is \<open>None\<close>, a pointer that may be nil
  an option. A map that the code ranges over is an association list (\<open>gm_get\<close>, \<open>gm_set\<close>, \<open>gm_del\<close>), so that every
  order of iteration is covered. A section that holds a mutex is one function on the state; code that releases
  it in between is split there, and steps of others may come in between. Third-party code, clocks and remote services are arguments of the definitions.

  \<^bold>\<open>Foundations.\<close>
  \<^item> \<open>Prelude\<close>: integer types, results, Go maps, the routine behind \<^verbatim>\<open>sort.Slice\<close>.
  \<^item> \<open>GoStrings\<close>, \<open>GoUtf8\<close>, \<open>GoNum\<close>, \<open>GoPath\<close>, \<open>GoHash\<close>, \<open>GoJson\<close>: what the sources use of the standard library, among it FNV-1a and SHA-256 at their
    word widths, \<^verbatim>\<open>path.Clean\<close>, decimal and base64 texts, white space and case on UTF-8.

  \<^bold>\<open>Placement and protocol.\<close>
  \<^item> \<open>Sharding\<close> (\<^verbatim>\<open>internal/sharding\<close>, \<^verbatim>\<open>pkg/repowatch/shard.go\<close>): the rendezvous ring. A key goes to the first healthy node of maximal score, a
    replica list is the ranking cut off, a change of one node moves only the keys of that node, and a health update keeps the ring well-formed.
  \<^item> \<open>Monopath\<close> (\<^verbatim>\<open>internal/monopath/path.go\<close>): splitting a path into its repository and its file, a round trip; the shard key.
  \<^item> \<open>NativeCodec\<close>, \<open>NativeProto\<close> (\<^verbatim>\<open>internal/nativeproto/protocol.go\<close>): a locale of codecs, interpreted for every message. Round trips, rejection
    of every strict prefix, canonical frames, and a bound on the entries of a listing.
  \<^item> \<open>Merge3\<close> (\<^verbatim>\<open>internal/fuse/merge3.go\<close>): the three-way merge of lines. Given the documented promises of the matching blocks it never panics and merges chunk by chunk.

  \<^bold>\<open>Guardian.\<close> The router keeps versioned configuration paths for named principals.
  \<^item> \<open>GuardianPaths\<close> (\<^verbatim>\<open>internal/router/guardian_path_mapper.go\<close>, \<^verbatim>\<open>guardian_paths.go\<close>): logical and physical paths, and which role may write where.
  \<^item> \<open>GuardianStore\<close> (\<^verbatim>\<open>guardian_version_store.go\<close>): the version store refines a map from paths to contents; its three maps stay consistent, histories stay
    within 50 records, and paging through a history visits each record once. Reading all pages takes fuel; 51 is enough, one more than the records of a path.
  \<^item> \<open>GuardianPrincipals\<close> (\<^verbatim>\<open>guardian_principals.go\<close>): the two indexes over shared entries refine a map from principals to tokens.
  \<^item> \<open>GuardianMutations\<close> (\<^verbatim>\<open>guardian_paths.go\<close>): the write and delete handlers over the three above. A refused batch changes nothing; an accepted one was authenticated and authorized and changes exactly its files.

  \<^bold>\<open>Authorization and review.\<close>
  \<^item> \<open>Authz\<close> (\<^verbatim>\<open>pkg/authz\<close>): identities, grants, ownership files and the resolver; the table-driven CODEOWNERS matcher decides the declarative reading.
  \<^item> \<open>AccessPolicy\<close>, \<open>PolicyCompile\<close> (\<^verbatim>\<open>pkg/authz/policy\<close>): the access document with its imports, its validation and its compilation; the compiled bundle answers as the document does.
  \<^item> \<open>MergeRequests\<close> (\<^verbatim>\<open>internal/router/mergerequest/store.go\<close>): proposals over a locale of ownership checkers, interpreted by the resolver. What is merged was approved by an owner other than the author.
  \<^item> \<open>WorkspaceBundle\<close> (\<^verbatim>\<open>internal/workspacebundle\<close>), \<open>OwnershipGate\<close> (\<^verbatim>\<open>internal/router/authz_merge_gate.go\<close>, \<^verbatim>\<open>ownership.go\<close>): bundles of changes with their validation, and the gate that asks for ownership of the changed paths.
  \<^item> \<open>RouterAuthz\<close> (\<^verbatim>\<open>internal/router/authz_ingest.go\<close>, \<^verbatim>\<open>authz_read.go\<close>, \<^verbatim>\<open>access_policy.go\<close>, \<^verbatim>\<open>pkg/authz/interceptor.go\<close>, \<^verbatim>\<open>internal/search/authz.go\<close>): who may ingest and read, over a locale of grant evaluators.

  \<^bold>\<open>Pipelines\<close> (\<^verbatim>\<open>internal/router/pipeline\<close>).
  \<^item> \<open>PipelineConfig\<close>: validation of documents, affected packages. The depth-first search takes as fuel one more than the number of jobs, which is proved to be enough.
  \<^item> \<open>TaskQueue\<close> (\<^verbatim>\<open>taskqueue.go\<close>, \<^verbatim>\<open>internal/router/pipeline_kvs.go\<close>): the queue over a locale of key-value stores, interpreted by the store of the router.
  \<^item> \<open>Orchestrator\<close> (\<^verbatim>\<open>orchestrator.go\<close>): runs as a step relation over its operations. The passes over the jobs are bounded in the code by their number plus one; a fixpoint is reached within the bound for every order of the map, and a validated
    run is never left with nothing to wait for.

  \<^bold>\<open>Workspace jobs.\<close>
  \<^item> \<open>WorkspaceStore\<close> (\<^verbatim>\<open>internal/storage/workspacestore\<close>): jobs, bundles, audit events and ledger entries over a write-ahead log with snapshots and compaction. The steps of a mutation and of a compaction are single, a crash may come between any two, and
    recovery finds exactly the mutations whose entry was appended or is covered by the checkpoint.
  \<^item> \<open>WorkspacePolicy\<close> (\<^verbatim>\<open>internal/router/workspacepolicy/policy.go\<close>): loading and evaluation of the rules.
  \<^item> \<open>WorkspaceSync\<close> (\<^verbatim>\<open>internal/router/workspace_sync.go\<close>, \<^verbatim>\<open>workspace_publish.go\<close>, \<^verbatim>\<open>workspace_source_push.go\<close>, \<^verbatim>\<open>workspace_pr.go\<close>): the handlers that refresh, publish and push, over an environment that chooses the answers of fetchers and forges, failures of the store and of the stream, and what other requests do between two steps.
  \<^item> \<open>WorkspaceSyncSafety\<close>: nothing of a push leaves the router unless policy and gate allow it, and a handler that returns without an error has finished its job, given that other requests only cancel the job.

  \<^bold>\<open>Defects.\<close> Some theorems show where the code falls short: the gate does not see paths that applying a bundle writes, writes are checked and carried out in separate sections, two workers can claim one task, a run can get stuck and a late result can
  revive a cancelled one, an entry after a torn write is lost, an acknowledged cancellation is overwritten, and rules on branch strategies never apply.

  \<^bold>\<open>Not modelled.\<close>
  \<^item> Code that is mostly input and output: the storage node (\<^verbatim>\<open>internal/server\<close>, \<^verbatim>\<open>internal/metastore\<close>), the file system and its sessions (\<^verbatim>\<open>internal/fuse\<close> but for the merge), the client (\<^verbatim>\<open>internal/client\<close>), the fetcher (\<^verbatim>\<open>internal/fetcher\<close>), the storage
    backends and the log and trace engines (\<^verbatim>\<open>internal/storage\<close>), the container registry, the search index, the Bazel integration, the user interface, telemetry and the commands. They work on kernel callbacks, databases, remote services and subprocesses.
  \<^item> In the router: ingestion, deletion, draining, the native gateway, watch streams, automatic refresh and push, which are goroutines and timers around remote calls; what they decide with modelled components is covered there.
  \<^item> Login flows and token signatures (\<^verbatim>\<open>pkg/authz/oidc.go\<close> and its neighbours), webhooks and reports of pipelines, and the in-memory ledger (\<^verbatim>\<open>internal/router/workspaceledger\<close>).
  \<^item> YAML and JSON decoding, which are parameters where a definition needs their result; metrics and logging.
\<close>

end
